(* ===== verification/Prelude.thy ===== *)
theory Prelude
  imports Main "HOL-Library.Word" "HOL-Library.Multiset" "HOL-Library.Sublist"
begin

unbundle bit_operations_syntax

text \<open>
  Shared vocabulary of the sysgaze development: the machine integers of the C sources, the
  allocator, C strings, the number formats of \<open>printf\<close> and the generic list and word lemmas
  that several components use.

  Conventions used by every component theory.
  \<^item> A C function that can run into undefined behaviour (an access outside an array, a loop
    without end) is modelled with result type \<open>'a option\<close>; \<open>None\<close> means that the C program has
    no defined result there. The safety theorems show that \<open>None\<close> is not reached.
  \<^item> Unsigned machine integers are words (\<open>u8\<close>, \<open>u16\<close>, \<open>u32\<close>, \<open>u64\<close>; \<open>size_t\<close> is
    \<open>u64\<close>). Signed integers (\<open>pid_t\<close>, \<open>int\<close>, \<open>long\<close>, \<open>int64_t\<close>) are \<open>int\<close>
    values, with their ranges written out where a computation can leave them.
  \<^item> \<open>malloc\<close>, \<open>calloc\<close> and \<open>realloc\<close> may refuse. The answers they will give are a value
    of type \<open>heap\<close>, consumed from the front; an exhausted list grants every request.
\<close>

section \<open>Machine integers\<close>

type_synonym u8 = "8 word"
type_synonym u16 = "16 word"
type_synonym u32 = "32 word"
type_synonym u64 = "64 word"

abbreviation SIZE_MAX :: u64 where
  "SIZE_MAX \<equiv> 18446744073709551615"

abbreviation UINT64_MAX :: u64 where
  "UINT64_MAX \<equiv> 18446744073709551615"

abbreviation INT_MAX :: int where
  "INT_MAX \<equiv> 2147483647"

abbreviation LONG_MAX :: int where
  "LONG_MAX \<equiv> 9223372036854775807"

abbreviation LONG_MIN :: int where
  "LONG_MIN \<equiv> - 9223372036854775808"

text \<open>Simplification rules that move word facts to natural numbers, shared by the components.\<close>

named_theorems word_nat "word facts read as facts on natural numbers"

lemma word_eq_unat [word_nat]: "a = b \<longleftrightarrow> unat a = unat b" for a b :: "'a::len word"
  by (rule word_unat_eq_iff)

declare word_le_nat_alt [word_nat] word_less_nat_alt [word_nat]

lemma unat_add_no_wrap:
  "unat a + unat b < 2 ^ LENGTH('a) \<Longrightarrow> unat (a + b) = unat a + unat b" for a b :: "'a::len word"
  by (simp add: unat_word_ariths)

lemma unat_sub_no_wrap:
  "unat b \<le> unat a \<Longrightarrow> unat (a - b) = unat a - unat b" for a b :: "'a::len word"
  by (simp add: unat_sub word_le_nat_alt)

lemma unat_mult_no_wrap:
  "unat a * unat b < 2 ^ LENGTH('a) \<Longrightarrow> unat (a * b) = unat a * unat b" for a b :: "'a::len word"
  by (simp add: unat_word_ariths)

lemma unat_of_nat_small: "n < 2 ^ LENGTH('a) \<Longrightarrow> unat (of_nat n :: 'a::len word) = n"
  by (simp add: unat_of_nat take_bit_nat_eq_self)

lemma unat_lt_u64: "unat (w :: u64) < 18446744073709551616"
  by (rule order_less_le_trans [OF unsigned_less]) simp

lemma unat_le_u64: "unat (w :: u64) \<le> 18446744073709551615"
  using unat_lt_u64 [of w] by linarith

lemma unat_of_nat_u64: "n < 18446744073709551616 \<Longrightarrow> unat (of_nat n :: u64) = n"
  by (rule unat_of_nat_small) simp

section \<open>The allocator\<close>

type_synonym heap = "bool list"

fun alloc :: "heap \<Rightarrow> bool \<times> heap" where
  "alloc [] = (True, [])"
| "alloc (answer # rest) = (answer, rest)"

lemma alloc_suffix: "alloc h = (ok, h') \<Longrightarrow> suffix h' h"
  by (cases h) (auto simp: suffix_def)

section \<open>C strings\<close>

abbreviation NUL :: char where
  "NUL \<equiv> CHR 0x00"

text \<open>The characters of a C string: everything before the first NUL.\<close>

definition c_str :: "string \<Rightarrow> string" where
  "c_str s = takeWhile (\<lambda>c. c \<noteq> NUL) s"

lemma c_str_id [simp]: "NUL \<notin> set s \<Longrightarrow> c_str s = s"
  unfolding c_str_def by (auto simp: takeWhile_eq_all_conv)

lemma c_str_no_nul [simp]: "NUL \<notin> set (c_str s)"
  unfolding c_str_def by (auto dest: set_takeWhileD)

lemma length_c_str: "length (c_str s) \<le> length s"
  unfolding c_str_def by (rule length_takeWhile_le)

lemma takeWhile_id: "(\<forall>x \<in> set xs. P x) \<Longrightarrow> takeWhile P xs = xs"
  by (simp add: takeWhile_eq_all_conv)

section \<open>Number formats of printf\<close>

text \<open>Digits, most significant first, in a base of at least two.\<close>

function digits_base :: "nat \<Rightarrow> nat \<Rightarrow> nat list" where
  "digits_base base n =
     (if base < 2 \<or> n < base then [n] else digits_base base (n div base) @ [n mod base])"
  by pat_completeness auto
termination
  by (relation "measure snd") auto

declare digits_base.simps [simp del]

definition digit_char :: "nat \<Rightarrow> char" where
  "digit_char d = (if d < 10 then char_of (48 + d) else char_of (87 + d))"

definition nat_format :: "nat \<Rightarrow> nat \<Rightarrow> string" where
  "nat_format base n = map digit_char (digits_base base n)"

text \<open>\<open>%u\<close>/\<open>PRIu64\<close>, \<open>%x\<close>/\<open>PRIx64\<close>, \<open>%o\<close> and \<open>%d\<close>/\<open>%ld\<close>/\<open>PRId64\<close>.\<close>

definition dec_nat :: "nat \<Rightarrow> string" where
  "dec_nat n = nat_format 10 n"

definition hex_nat :: "nat \<Rightarrow> string" where
  "hex_nat n = nat_format 16 n"

definition oct_nat :: "nat \<Rightarrow> string" where
  "oct_nat n = nat_format 8 n"

definition dec_int :: "int \<Rightarrow> string" where
  "dec_int i = (if i < 0 then CHR ''-'' # dec_nat (nat (- i)) else dec_nat (nat i))"

text \<open>Zero padding to a minimum width, as \<open>%02x\<close> and \<open>%04x\<close> do.\<close>

definition pad_zero :: "nat \<Rightarrow> string \<Rightarrow> string" where
  "pad_zero width s = replicate (width - length s) CHR ''0'' @ s"

subsection \<open>Reading digits back\<close>

definition value_base :: "nat \<Rightarrow> nat list \<Rightarrow> nat" where
  "value_base base ds = foldl (\<lambda>v d. v * base + d) 0 ds"

lemma value_base_snoc [simp]: "value_base base (ds @ [d]) = value_base base ds * base + d"
  by (simp add: value_base_def)

lemma value_digits_base: "value_base base (digits_base base n) = n"
proof (induction base n rule: digits_base.induct)
  case (1 base n)
  show ?case
  proof (cases "base < 2 \<or> n < base")
    case True
    then show ?thesis by (subst digits_base.simps) (simp add: value_base_def)
  next
    case False
    with 1 show ?thesis by (subst digits_base.simps) simp
  qed
qed

lemma digits_base_bound: "2 \<le> base \<Longrightarrow> d \<in> set (digits_base base n) \<Longrightarrow> d < base"
proof (induction base n rule: digits_base.induct)
  case (1 base n)
  show ?case
  proof (cases "n < base")
    case True
    with "1.prems" show ?thesis by (simp add: digits_base.simps [of base n])
  next
    case False
    with "1.prems" 1 show ?thesis by (auto simp: digits_base.simps [of base n])
  qed
qed

lemma digits_base_not_Nil [simp]: "digits_base base n \<noteq> []"
  by (subst digits_base.simps) simp

lemma length_digits_base:
  assumes "2 \<le> base" and "n < base ^ k" and "0 < k"
  shows "length (digits_base base n) \<le> k"
  using assms
proof (induction k arbitrary: n)
  case 0
  then show ?case by simp
next
  case (Suc k)
  show ?case
  proof (cases "n < base")
    case True
    then show ?thesis by (simp add: digits_base.simps [of base n])
  next
    case False
    with Suc.prems have k: "0 < k" by (cases k) auto
    have "n div base < base ^ k"
      using Suc.prems by (simp add: less_mult_imp_div_less mult.commute)
    with Suc.IH [OF Suc.prems(1) _ k] False Suc.prems(1) show ?thesis
      by (simp add: digits_base.simps [of base n])
  qed
qed

lemma of_char_digit_char:
  "d < 16 \<Longrightarrow> (of_char (digit_char d) :: nat) = (if d < 10 then 48 + d else 87 + d)"
  by (simp add: digit_char_def)

text \<open>No formatted number holds a character below the digit zero.\<close>

lemma digit_char_ge_48: "d < 16 \<Longrightarrow> 48 \<le> (of_char (digit_char d) :: nat)"
  by (simp add: of_char_digit_char)

lemma nat_format_chars:
  assumes "2 \<le> base" and "base \<le> 16" and "c \<in> set (nat_format base n)"
  shows "48 \<le> (of_char c :: nat) \<and> (of_char c :: nat) < 103"
proof -
  from assms(3) obtain d where d: "d \<in> set (digits_base base n)" and c: "c = digit_char d"
    by (auto simp: nat_format_def)
  from d assms(1,2) have "d < 16" using digits_base_bound [of base d n] by simp
  then show ?thesis by (simp add: c of_char_digit_char)
qed

section \<open>Joined texts\<close>

fun join :: "string \<Rightarrow> string list \<Rightarrow> string" where
  "join sep [] = []"
| "join sep [x] = x"
| "join sep (x # y # xs) = x @ sep @ join sep (y # xs)"

lemma join_Cons: "join sep (x # xs) = x @ (if xs = [] then [] else sep @ join sep xs)"
  by (cases xs) auto

lemma join_no_nul: "NUL \<notin> set sep \<Longrightarrow> \<forall>w \<in> set ws. NUL \<notin> set w \<Longrightarrow> NUL \<notin> set (join sep ws)"
  by (induction ws) (auto simp: join_Cons)

lemma join_nonempty: "ws \<noteq> [] \<Longrightarrow> hd ws \<noteq> [] \<Longrightarrow> join sep ws \<noteq> []"
  by (cases ws) (auto simp: join_Cons)

lemma join_snoc: "join sep (xs @ [x]) = (if xs = [] then x else join sep xs @ sep @ x)"
  by (induction xs) (auto simp: join_Cons)

lemma join_upt: "concat (map (\<lambda>i. (if i \<noteq> 0 then sep else []) @ ts i) [0..<n]) = join sep (map ts [0..<n])"
  by (induction n) (auto simp: join_snoc)

end
