(* ===== verification/Buffer.thy ===== *)
theory Buffer
  imports Prelude
begin

text \<open>
  The growable byte buffer of \<open>src/src/buffer.c\<close>. The allocated array is a list of cells,
  \<open>None\<close> for a byte whose value is indeterminate; a null \<open>data\<close> pointer is \<open>None\<close>. Every
  store is checked against the array, so a result \<open>None\<close> is a write or read outside of it.

  \<open>buffer_wf\<close> is the representation invariant, \<open>buffer_text\<close> the text the buffer holds.
  The last part lifts the operations to \<^emph>\<open>emitters\<close>, the shape of all rendering code
  (append, stop at the first failure), with the predicate \<open>renders\<close> that relates an emitter
  to the text it stands for.
\<close>

section \<open>The buffer and its operations\<close>

record sg_buffer =
  buf_data :: "char option list option"
  buf_length :: u64
  buf_capacity :: u64

definition SG_BUFFER_INITIAL_CAPACITY :: u64 where
  "SG_BUFFER_INITIAL_CAPACITY = 64"

definition sg_buffer_init :: sg_buffer where
  "sg_buffer_init = \<lparr>buf_data = None, buf_length = 0, buf_capacity = 0\<rparr>"

text \<open>Storing bytes at an offset; outside the array there is no defined result.\<close>

definition poke :: "char option list \<Rightarrow> nat \<Rightarrow> char list \<Rightarrow> char option list option" where
  "poke cells i bytes =
     (if i + length bytes \<le> length cells
      then Some (take i cells @ map Some bytes @ drop (i + length bytes) cells) else None)"

definition sg_buffer_reset :: "sg_buffer \<Rightarrow> sg_buffer option" where
  "sg_buffer_reset b =
     (let b = b\<lparr>buf_length := 0\<rparr>
      in case buf_data b of
           None \<Rightarrow> Some b
         | Some cells \<Rightarrow>
             map_option (\<lambda>cells'. b\<lparr>buf_data := Some cells'\<rparr>) (poke cells 0 [NUL]))"

definition sg_buffer_destroy :: "sg_buffer \<Rightarrow> sg_buffer" where
  "sg_buffer_destroy b = sg_buffer_init"

text \<open>The doubling loop of \<open>sg_buffer_reserve\<close>; from capacity 0 it would never end.\<close>

partial_function (option) grow_capacity :: "u64 \<Rightarrow> u64 \<Rightarrow> u64 option" where
  "grow_capacity capacity required =
     (if capacity < required
      then (if capacity > SIZE_MAX div 2 then Some required
            else grow_capacity (capacity * 2) required)
      else Some capacity)"

declare grow_capacity.simps [code]

text \<open>\<open>realloc\<close> keeps the old bytes that still fit; the others are indeterminate.\<close>

definition realloc_cells :: "char option list option \<Rightarrow> nat \<Rightarrow> char option list" where
  "realloc_cells d n =
     (case d of None \<Rightarrow> replicate n None
      | Some cells \<Rightarrow> take n cells @ replicate (n - length cells) None)"

definition sg_buffer_reserve :: "heap \<Rightarrow> sg_buffer \<Rightarrow> u64 \<Rightarrow> (bool \<times> heap \<times> sg_buffer) option" where
  "sg_buffer_reserve h b additional =
     (if buf_length b = SIZE_MAX \<or> additional > SIZE_MAX - buf_length b - 1
      then Some (False, h, b)
      else let required = buf_length b + additional + 1
        in if required \<le> buf_capacity b then Some (True, h, b)
           else case grow_capacity
                  (if buf_capacity b = 0 then SG_BUFFER_INITIAL_CAPACITY else buf_capacity b)
                  required
             of None \<Rightarrow> None
              | Some capacity \<Rightarrow>
                  (case alloc h of (ok, h') \<Rightarrow>
                     if \<not> ok then Some (False, h', b)
                     else let resized = realloc_cells (buf_data b) (unat capacity);
                              b' = b\<lparr>buf_data := Some resized, buf_capacity := capacity\<rparr>
                       in if buf_length b = 0
                          then map_option (\<lambda>cells. (True, h', b'\<lparr>buf_data := Some cells\<rparr>))
                                 (poke resized 0 [NUL])
                          else Some (True, h', b')))"

text \<open>
  The second half of \<open>sg_buffer_append\<close>, after the reservation: copy \<open>length\<close> bytes of the
  source, advance, terminate.
\<close>

definition store_bytes :: "sg_buffer \<Rightarrow> char list \<Rightarrow> sg_buffer option" where
  "store_bytes b bytes =
     (case buf_data b of
        None \<Rightarrow> None
      | Some cells \<Rightarrow>
          (case poke cells (unat (buf_length b)) bytes of
             None \<Rightarrow> None
           | Some cells' \<Rightarrow>
               (let l = buf_length b + of_nat (length bytes)
                in map_option (\<lambda>cells''. b\<lparr>buf_data := Some cells'', buf_length := l\<rparr>)
                     (poke cells' (unat l) [NUL]))))"

definition sg_buffer_append ::
    "heap \<Rightarrow> sg_buffer \<Rightarrow> char list option \<Rightarrow> u64 \<Rightarrow> (bool \<times> heap \<times> sg_buffer) option" where
  "sg_buffer_append h b source len =
     (if len \<noteq> 0 \<and> source = None then Some (False, h, b)
      else case sg_buffer_reserve h b len of
             None \<Rightarrow> None
           | Some (ok, h', b') \<Rightarrow>
               if \<not> ok then Some (False, h', b')
               else let bytes = (case source of None \<Rightarrow> [] | Some s \<Rightarrow> s)
                 in if unat len \<le> length bytes
                    then map_option (\<lambda>b''. (True, h', b'')) (store_bytes b' (take (unat len) bytes))
                    else None)"

text \<open>\<open>sg_buffer_append_cstr\<close>: \<open>text != NULL\<close> and an append of \<open>strlen(text)\<close> bytes.\<close>

definition sg_buffer_append_cstr ::
    "string option \<Rightarrow> heap \<Rightarrow> sg_buffer \<Rightarrow> (bool \<times> heap \<times> sg_buffer) option" where
  "sg_buffer_append_cstr text h b =
     (case text of
        None \<Rightarrow> Some (False, h, b)
      | Some s \<Rightarrow> sg_buffer_append h b (Some (c_str s)) (of_nat (length (c_str s))))"

text \<open>
  \<open>sg_buffer_append_format\<close>. The argument is the text \<open>vsnprintf\<close> produces for the format and
  its arguments, \<open>None\<close> for a null format. \<open>vsnprintf\<close> answers with a negative number when
  that text is longer than \<open>INT_MAX\<close>.
\<close>

definition vsnprintf_needed :: "string \<Rightarrow> int" where
  "vsnprintf_needed text = (if int (length text) \<le> INT_MAX then int (length text) else - 1)"

definition sg_buffer_append_format ::
    "string option \<Rightarrow> heap \<Rightarrow> sg_buffer \<Rightarrow> (bool \<times> heap \<times> sg_buffer) option" where
  "sg_buffer_append_format text h b =
     (case text of
        None \<Rightarrow> Some (False, h, b)
      | Some s \<Rightarrow>
          (if vsnprintf_needed s < 0 then Some (False, h, b)
           else let amount = of_int (vsnprintf_needed s)
             in case sg_buffer_reserve h b amount of
                  None \<Rightarrow> None
                | Some (ok, h', b') \<Rightarrow>
                    if \<not> ok then Some (False, h', b')
                    else map_option (\<lambda>b''. (True, h', b'')) (store_bytes b' s)))"

section \<open>Invariant and text of a buffer\<close>

definition buffer_wf :: "sg_buffer \<Rightarrow> bool" where
  "buffer_wf b =
     (case buf_data b of
        None \<Rightarrow> buf_length b = 0 \<and> buf_capacity b = 0
      | Some cells \<Rightarrow>
          length cells = unat (buf_capacity b) \<and>
          unat (buf_length b) < unat (buf_capacity b) \<and>
          (\<forall>i < unat (buf_length b). cells ! i \<noteq> None) \<and>
          cells ! unat (buf_length b) = Some NUL)"

definition buffer_text :: "sg_buffer \<Rightarrow> string" where
  "buffer_text b =
     (case buf_data b of
        None \<Rightarrow> []
      | Some cells \<Rightarrow> map the (take (unat (buf_length b)) cells))"

section \<open>Growth terminates and suffices\<close>

lemma grow_capacity_returns:
  assumes "capacity \<noteq> 0"
  shows "\<exists>r. grow_capacity capacity required = Some r \<and> required \<le> r \<and> capacity \<le> r"
  using assms
proof (induction "2 ^ 64 - unat capacity" arbitrary: capacity rule: less_induct)
  case less
  have pos: "0 < unat capacity" using less.prems by (simp add: unat_gt_0)
  show ?case
  proof (cases "capacity < required \<and> capacity \<le> SIZE_MAX div 2")
    case True
    then have half: "unat capacity \<le> 9223372036854775807"
      by (simp add: word_le_nat_alt unat_div)
    then have twice: "unat (capacity * 2) = 2 * unat capacity"
      by (subst unat_mult_no_wrap) simp_all
    have "2 ^ 64 - unat (capacity * 2) < 2 ^ 64 - unat capacity"
      using twice pos half by simp
    moreover have "capacity * 2 \<noteq> 0" using twice pos by (auto simp: word_nat)
    ultimately obtain r where r: "grow_capacity (capacity * 2) required = Some r"
        "required \<le> r" "capacity * 2 \<le> r"
      using less.hyps by blast
    have "capacity \<le> r" using r(3) twice by (simp add: word_le_nat_alt)
    with r True show ?thesis by (subst grow_capacity.simps) auto
  next
    case False
    then show ?thesis by (subst grow_capacity.simps) auto
  qed
qed

section \<open>Every operation keeps the invariant\<close>

lemma buffer_wf_init [simp]: "buffer_wf sg_buffer_init"
  by (simp add: buffer_wf_def sg_buffer_init_def)

lemma buffer_text_init [simp]: "buffer_text sg_buffer_init = []"
  by (simp add: buffer_text_def sg_buffer_init_def)

lemma length_buffer_text: "buffer_wf b \<Longrightarrow> length (buffer_text b) = unat (buf_length b)"
  by (auto simp: buffer_wf_def buffer_text_def split: option.splits)

lemma poke_Some: "i + length bytes \<le> length cells \<Longrightarrow>
    \<exists>cells'. poke cells i bytes = Some cells' \<and> length cells' = length cells \<and>
      take i cells' = take i cells \<and>
      (\<forall>j < length bytes. cells' ! (i + j) = Some (bytes ! j)) \<and>
      (\<forall>j. i + length bytes \<le> j \<longrightarrow> j < length cells \<longrightarrow> cells' ! j = cells ! j)"
  by (auto simp: poke_def nth_append)

lemma buffer_wf_Some:
  assumes "buffer_wf b" and "buf_data b = Some cells"
  shows "length cells = unat (buf_capacity b)" and "unat (buf_length b) < unat (buf_capacity b)"
    and "\<And>i. i < unat (buf_length b) \<Longrightarrow> cells ! i \<noteq> None"
    and "cells ! unat (buf_length b) = Some NUL"
  using assms by (auto simp: buffer_wf_def)

lemma buffer_wf_None: "buffer_wf b \<Longrightarrow> buf_data b = None \<Longrightarrow> buf_length b = 0 \<and> buf_capacity b = 0"
  by (simp add: buffer_wf_def)

lemma sg_buffer_reset_correct:
  assumes "buffer_wf b"
  shows "\<exists>b'. sg_buffer_reset b = Some b' \<and> buffer_wf b' \<and> buffer_text b' = [] \<and>
           buf_capacity b' = buf_capacity b"
proof (cases "buf_data b")
  case None
  with assms show ?thesis
    by (auto simp: sg_buffer_reset_def buffer_wf_def buffer_text_def)
next
  case (Some cells)
  from buffer_wf_Some [OF assms Some] show ?thesis
    by (cases cells)
      (auto simp: sg_buffer_reset_def buffer_wf_def buffer_text_def Some poke_def Let_def)
qed

text \<open>
  The overflow guard of \<open>sg_buffer_reserve\<close> holds exactly for the requests whose total with
  the terminator cannot be a \<open>size_t\<close>.
\<close>

lemma reserve_guard:
  "(buf_length b = SIZE_MAX \<or> additional > SIZE_MAX - buf_length b - 1) \<longleftrightarrow>
     2 ^ 64 \<le> unat (buf_length b) + unat additional + 1"
proof (cases "buf_length b = SIZE_MAX")
  case False
  then have neq: "unat (buf_length b) \<noteq> 18446744073709551615" by (simp add: word_nat)
  moreover have "unat (buf_length b) < 18446744073709551616" by (rule unat_lt_u64)
  ultimately have l: "unat (buf_length b) < 18446744073709551615" by linarith
  have "unat (SIZE_MAX - buf_length b) = 18446744073709551615 - unat (buf_length b)"
    using l by (subst unat_sub_no_wrap) simp_all
  then have "unat (SIZE_MAX - buf_length b - 1) = 18446744073709551614 - unat (buf_length b)"
    using l by (subst unat_sub_no_wrap) simp_all
  with False l show ?thesis by (auto simp: word_less_nat_alt)
qed simp

lemma reserve_required:
  assumes "unat (buf_length b) + unat additional + 1 < 2 ^ 64"
  shows "unat (buf_length b + additional + 1) = unat (buf_length b) + unat additional + 1"
proof -
  have "unat (buf_length b + additional) = unat (buf_length b) + unat additional"
    using assms by (subst unat_add_no_wrap) simp_all
  with assms show ?thesis by (subst unat_add_no_wrap) simp_all
qed

text \<open>Reallocating a well-formed buffer to a larger array keeps its text.\<close>

lemma realloc_wf:
  assumes wf: "buffer_wf b" and larger: "unat (buf_length b) < unat capacity"
    and grown: "unat (buf_capacity b) \<le> unat capacity"
    and cells: "cells = realloc_cells (buf_data b) (unat capacity)"
    and terminated: "if buf_length b = 0 then poke cells 0 [NUL] = Some cells' else cells' = cells"
    and b': "b' = b\<lparr>buf_data := Some cells', buf_capacity := capacity\<rparr>"
  shows "buffer_wf b' \<and> buffer_text b' = buffer_text b"
proof (cases "buf_data b")
  case None
  with wf have l: "buf_length b = 0" by (simp add: buffer_wf_None)
  with None assms show ?thesis
    by (auto simp: buffer_wf_def buffer_text_def realloc_cells_def poke_def nth_append)
next
  case (Some old)
  note old = buffer_wf_Some [OF wf Some]
  have c: "cells = old @ replicate (unat capacity - length old) None"
    using cells Some old(1) grown by (simp add: realloc_cells_def)
  show ?thesis
  proof (cases "buf_length b = 0")
    case True
    with terminated have "cells' = Some NUL # drop 1 cells"
      by (auto simp: poke_def split: if_splits)
    with True c old grown larger b' Some show ?thesis
      by (auto simp: buffer_wf_def buffer_text_def)
  next
    case False
    with terminated c old grown larger b' Some show ?thesis
      by (auto simp: buffer_wf_def buffer_text_def nth_append)
  qed
qed

lemma reserve_refused:
  "2 ^ 64 \<le> unat (buf_length b) + unat additional + 1 \<Longrightarrow>
     sg_buffer_reserve h b additional = Some (False, h, b)"
  by (simp only: sg_buffer_reserve_def reserve_guard if_True)

lemma sg_buffer_reserve_correct:
  assumes wf: "buffer_wf b"
  shows "\<exists>ok h' b'. sg_buffer_reserve h b additional = Some (ok, h', b') \<and>
     buffer_wf b' \<and> buffer_text b' = buffer_text b \<and> suffix h' h \<and>
     (ok \<longrightarrow> buf_data b' \<noteq> None \<and>
             unat (buf_length b) + unat additional < unat (buf_capacity b')) \<and>
     (\<not> ok \<longrightarrow> b' = b) \<and>
     (h = [] \<and> unat (buf_length b) + unat additional + 1 < 2 ^ 64 \<longrightarrow> ok)"
proof (cases "2 ^ 64 \<le> unat (buf_length b) + unat additional + 1")
  case True
  then have "sg_buffer_reserve h b additional = Some (False, h, b)"
    by (rule reserve_refused)
  with True wf show ?thesis by auto
next
  case False
  let ?required = "buf_length b + additional + 1"
  from False have guard: "\<not> (buf_length b = SIZE_MAX \<or> additional > SIZE_MAX - buf_length b - 1)"
    by (simp only: reserve_guard not_False_eq_True)
  from False have req: "unat ?required = unat (buf_length b) + unat additional + 1"
    by (simp add: reserve_required)
  show ?thesis
  proof (cases "?required \<le> buf_capacity b")
    case True
    with req have room: "unat (buf_length b) + unat additional < unat (buf_capacity b)"
      by (simp add: word_le_nat_alt)
    with wf have "buf_data b \<noteq> None" by (auto dest: buffer_wf_None)
    with guard True wf room show ?thesis
      by (auto simp: sg_buffer_reserve_def)
  next
    case no_room: False
    let ?start = "if buf_capacity b = 0 then SG_BUFFER_INITIAL_CAPACITY else buf_capacity b"
    have "?start \<noteq> 0" by (simp add: SG_BUFFER_INITIAL_CAPACITY_def)
    then obtain c where c: "grow_capacity ?start ?required = Some c" "?required \<le> c" "?start \<le> c"
      using grow_capacity_returns by blast
    have room: "unat (buf_length b) + unat additional < unat c"
      using c(2) req by (simp add: word_le_nat_alt)
    have grown: "unat (buf_capacity b) \<le> unat c"
      using c(3) by (auto simp: word_le_nat_alt split: if_splits)
    obtain ok h' where a: "alloc h = (ok, h')" by (cases "alloc h")
    let ?cells = "realloc_cells (buf_data b) (unat c)"
    have len: "length ?cells = unat c"
      by (auto simp: realloc_cells_def min_def split: option.split)
    then obtain cells' where p:
        "if buf_length b = 0 then poke ?cells 0 [NUL] = Some cells' else cells' = ?cells"
      using room by (cases "buf_length b = 0") (auto simp: poke_def)
    note wf' = realloc_wf [OF wf _ grown refl p refl]
    have res: "sg_buffer_reserve h b additional =
        (if \<not> ok then Some (False, h', b)
         else Some (True, h', b\<lparr>buf_data := Some cells', buf_capacity := c\<rparr>))"
      using p guard no_room c(1) a by (simp add: sg_buffer_reserve_def Let_def split: if_splits)
    show ?thesis
    proof (cases ok)
      case True
      have "unat (buf_length b) < unat c" using room by linarith
      from wf' [OF this] res True room alloc_suffix [OF a] show ?thesis by auto
    next
      case False
      with a have "h \<noteq> []" by (cases h) auto
      with False res wf alloc_suffix [OF a] show ?thesis by auto
    qed
  qed
qed

lemma store_bytes_correct:
  assumes wf: "buffer_wf b" and data: "buf_data b \<noteq> None"
    and room: "unat (buf_length b) + length bytes < unat (buf_capacity b)"
  shows "\<exists>b'. store_bytes b bytes = Some b' \<and> buffer_wf b' \<and>
           buffer_text b' = buffer_text b @ bytes \<and> buf_capacity b' = buf_capacity b"
proof -
  obtain cells where Some: "buf_data b = Some cells" using data by blast
  note cells = buffer_wf_Some [OF wf Some]
  let ?l = "unat (buf_length b)"
  let ?l' = "buf_length b + of_nat (length bytes)"
  have small: "length bytes < 18446744073709551616"
    using room unat_lt_u64 [of "buf_capacity b"] by linarith
  have l': "unat ?l' = ?l + length bytes"
    using room unat_lt_u64 [of "buf_capacity b"] small
    by (subst unat_add_no_wrap) (simp_all add: unat_of_nat_u64)
  define stored where "stored = take ?l cells @ map Some bytes @ drop (?l + length bytes) cells"
  have p: "poke cells ?l bytes = Some stored"
    using room cells(1) by (simp add: poke_def stored_def)
  have ls: "length stored = unat (buf_capacity b)"
    using room cells(1) by (simp add: stored_def)
  define final where "final = stored[unat ?l' := Some NUL]"
  have p': "poke stored (unat ?l') [NUL] = Some final"
    using room ls l' by (simp add: poke_def final_def upd_conv_take_nth_drop)
  have res: "store_bytes b bytes = Some (b\<lparr>buf_data := Some final, buf_length := ?l'\<rparr>)"
    using Some p p' by (simp add: store_bytes_def Let_def)
  have init: "\<forall>i < unat ?l'. final ! i \<noteq> None"
    using l' room cells by (auto simp: final_def stored_def nth_append)
  have "map the (take (unat ?l') final) = map the (take ?l cells) @ bytes"
    using l' room cells(1) by (simp add: final_def stored_def o_def)
  moreover have "final ! unat ?l' = Some NUL" "length final = unat (buf_capacity b)"
    using l' room ls by (simp_all add: final_def)
  ultimately show ?thesis
    using res init l' room Some by (auto simp: buffer_wf_def buffer_text_def)
qed

text \<open>The outcome shared by all appending operations, relative to the text they stand for.\<close>

definition appended :: "heap \<Rightarrow> sg_buffer \<Rightarrow> string \<Rightarrow> (bool \<times> heap \<times> sg_buffer) option \<Rightarrow> bool" where
  "appended h b s result \<longleftrightarrow>
     (\<exists>ok h' b'. result = Some (ok, h', b') \<and> buffer_wf b' \<and> suffix h' h \<and>
        (\<exists>p. prefix p s \<and> buffer_text b' = buffer_text b @ p \<and> (ok \<longrightarrow> p = s)) \<and>
        (h = [] \<and> length (buffer_text b) + length s + 1 < 2 ^ 64 \<longrightarrow> ok))"

lemma appendedI:
  assumes "result = Some (ok, h', b')" and "buffer_wf b'" and "suffix h' h"
    and "prefix p s" and "buffer_text b' = buffer_text b @ p" and "ok \<Longrightarrow> p = s"
    and "h = [] \<Longrightarrow> length (buffer_text b) + length s + 1 < 2 ^ 64 \<Longrightarrow> ok"
  shows "appended h b s result"
  unfolding appended_def using assms by blast

lemma appendedE:
  assumes "appended h b s result"
  obtains ok h' b' p where "result = Some (ok, h', b')" and "buffer_wf b'" and "suffix h' h"
    and "prefix p s" and "buffer_text b' = buffer_text b @ p" and "ok \<longrightarrow> p = s"
    and "h = [] \<and> length (buffer_text b) + length s + 1 < 2 ^ 64 \<longrightarrow> ok"
  using assms unfolding appended_def by blast

lemma sg_buffer_append_correct:
  assumes wf: "buffer_wf b" and len: "length s < 2 ^ 64"
  shows "appended h b s (sg_buffer_append h b (Some s) (of_nat (length s)))"
proof -
  have u: "unat (of_nat (length s) :: u64) = length s"
    using len by (intro unat_of_nat_u64) simp
  obtain ok h' b' where r: "sg_buffer_reserve h b (of_nat (length s)) = Some (ok, h', b')"
    and wf': "buffer_wf b'" and t: "buffer_text b' = buffer_text b" and h': "suffix h' h"
    and room: "ok \<longrightarrow> buf_data b' \<noteq> None \<and>
      unat (buf_length b) + unat (of_nat (length s) :: u64) < unat (buf_capacity b')"
    and enough: "h = [] \<and> unat (buf_length b) + unat (of_nat (length s) :: u64) + 1 < 2 ^ 64 \<longrightarrow> ok"
    using sg_buffer_reserve_correct [OF wf] by metis
  have l: "buf_length b' = buf_length b"
    using length_buffer_text [OF wf] length_buffer_text [OF wf'] t by (simp add: word_nat)
  show ?thesis
  proof (cases ok)
    case True
    with room l u obtain b'' where "store_bytes b' s = Some b''" "buffer_wf b''"
        "buffer_text b'' = buffer_text b' @ s"
      using store_bytes_correct [OF wf', of s] by auto
    with True r t h' u show ?thesis
      by (auto simp: appended_def sg_buffer_append_def)
  next
    case False
    with r t h' wf' enough u length_buffer_text [OF wf] show ?thesis
      by (auto simp: appended_def sg_buffer_append_def)
  qed
qed

lemma sg_buffer_append_cstr_correct:
  assumes "buffer_wf b" and "length s < 2 ^ 64"
  shows "appended h b (c_str s) (sg_buffer_append_cstr (Some s) h b)"
  using sg_buffer_append_correct [OF assms(1), of "c_str s"] assms(2) length_c_str [of s]
  by (simp add: sg_buffer_append_cstr_def)

lemma sg_buffer_append_format_correct:
  assumes wf: "buffer_wf b" and len: "int (length s) \<le> INT_MAX"
  shows "appended h b s (sg_buffer_append_format (Some s) h b)"
proof -
  have u: "unat (of_nat (length s) :: u64) = length s"
    using len by (intro unat_of_nat_u64) simp
  have "sg_buffer_append_format (Some s) h b = sg_buffer_append h b (Some s) (of_nat (length s))"
    using len u by (simp add: sg_buffer_append_format_def sg_buffer_append_def
        vsnprintf_needed_def Let_def split: option.split)
  with sg_buffer_append_correct [OF wf, of s] len show ?thesis by simp
qed

lemma sg_buffer_append_format_too_long:
  "INT_MAX < int (length s) \<Longrightarrow> sg_buffer_append_format (Some s) h b = Some (False, h, b)"
  by (simp add: sg_buffer_append_format_def vsnprintf_needed_def)

section \<open>Emitters\<close>

text \<open>
  All rendering code of \<open>decoder.c\<close> and \<open>output.c\<close> has one shape: append to the buffer, return
  \<open>false\<close> at the first append that fails. An emitter is such a piece of code; \<open>and_then\<close> is
  C's \<open>&&\<close> (or the early return), \<open>skip\<close> the piece that appends nothing.
\<close>

type_synonym emitter = "heap \<Rightarrow> sg_buffer \<Rightarrow> (bool \<times> heap \<times> sg_buffer) option"

definition skip :: emitter where
  "skip h b = Some (True, h, b)"

definition and_then :: "emitter \<Rightarrow> emitter \<Rightarrow> emitter" where
  "and_then e f h b =
     (case e h b of
        None \<Rightarrow> None
      | Some (ok, h', b') \<Rightarrow> if ok then f h' b' else Some (False, h', b'))"

fun emit_all :: "emitter list \<Rightarrow> emitter" where
  "emit_all [] = skip"
| "emit_all (e # es) = and_then e (emit_all es)"

definition cstr :: "string \<Rightarrow> emitter" where
  "cstr s = sg_buffer_append_cstr (Some s)"

definition fmt :: "string \<Rightarrow> emitter" where
  "fmt s = sg_buffer_append_format (Some s)"

text \<open>
  \<open>renders e s\<close>: from any well-formed buffer the emitter \<open>e\<close> stays within its arrays, keeps
  the buffer well-formed and appends \<open>s\<close> when it returns true, a prefix of \<open>s\<close> when it
  returns false; and it returns true whenever no allocation is refused and the text fits.
\<close>

definition renders :: "emitter \<Rightarrow> string \<Rightarrow> bool" where
  "renders e s \<longleftrightarrow> (\<forall>h b. buffer_wf b \<longrightarrow> appended h b s (e h b))"

named_theorems render_rules "emitters and the texts they stand for"

lemma renders_skip [render_rules]: "renders skip []"
  by (auto simp: renders_def skip_def intro!: appendedI)

lemma renders_and_then [render_rules]:
  assumes e: "renders e s" and f: "renders f t"
  shows "renders (and_then e f) (s @ t)"
  unfolding renders_def
proof (intro allI impI)
  fix h b
  assume wf: "buffer_wf b"
  with e have "appended h b s (e h b)" by (simp add: renders_def)
  then obtain ok h' b' p where e': "e h b = Some (ok, h', b')" "buffer_wf b'" "suffix h' h"
      "prefix p s" "buffer_text b' = buffer_text b @ p" "ok \<longrightarrow> p = s"
      "h = [] \<and> length (buffer_text b) + length s + 1 < 2 ^ 64 \<longrightarrow> ok"
    by (rule appendedE)
  show "appended h b (s @ t) (and_then e f h b)"
  proof (cases ok)
    case False
    then have "and_then e f h b = Some (False, h', b')" by (simp add: and_then_def e'(1))
    moreover have "prefix p (s @ t)" using e'(4) by (rule prefix_prefix)
    ultimately show ?thesis using False e' by (intro appendedI [where ok = False and p = p]) auto
  next
    case True
    from f e'(2) have "appended h' b' t (f h' b')" by (simp add: renders_def)
    then obtain ok2 h2 b2 q where f': "f h' b' = Some (ok2, h2, b2)" "buffer_wf b2"
        "suffix h2 h'" "prefix q t" "buffer_text b2 = buffer_text b' @ q" "ok2 \<longrightarrow> q = t"
        "h' = [] \<and> length (buffer_text b') + length t + 1 < 2 ^ 64 \<longrightarrow> ok2"
      by (rule appendedE)
    have "and_then e f h b = Some (ok2, h2, b2)" by (simp add: and_then_def e'(1) f'(1) True)
    moreover have "suffix h2 h" using f'(3) e'(3) by (rule suffix_order.trans)
    moreover have "h = [] \<Longrightarrow> h' = []" using e'(3) by simp
    ultimately show ?thesis
      using True e' f' by (intro appendedI [where ok = ok2 and p = "s @ q"]) auto
  qed
qed

lemma renders_cong: "renders e s \<Longrightarrow> s = t \<Longrightarrow> renders e t"
  by simp

lemma renders_cstr [render_rules]:
  "length s < 2 ^ 64 \<Longrightarrow> NUL \<notin> set s \<Longrightarrow> renders (cstr s) s"
  using sg_buffer_append_cstr_correct [of _ s] by (simp add: renders_def cstr_def)

lemma renders_fmt [render_rules]: "int (length s) \<le> INT_MAX \<Longrightarrow> renders (fmt s) s"
  using sg_buffer_append_format_correct by (simp add: renders_def fmt_def)

lemma renders_append_byte [render_rules]:
  "renders (\<lambda>h b. sg_buffer_append h b (Some [c]) 1) [c]"
  using sg_buffer_append_correct [of _ "[c]"] by (simp add: renders_def)

lemma renders_emit_all:
  "list_all2 renders es ss \<Longrightarrow> renders (emit_all es) (concat ss)"
  by (induction es ss rule: list_all2_induct) (auto intro: render_rules)

text \<open>Reading \<open>renders\<close> back: running an emitter on a fresh buffer.\<close>

lemma renders_fresh:
  assumes "renders e s" and "length s + 1 < 2 ^ 64"
  shows "\<exists>b. e [] sg_buffer_init = Some (True, [], b) \<and> buffer_wf b \<and> buffer_text b = s"
proof -
  from assms(1) have "appended [] sg_buffer_init s (e [] sg_buffer_init)"
    by (simp add: renders_def)
  then show ?thesis using assms(2) by (elim appendedE) auto
qed

section \<open>Properties\<close>

text \<open>
  C17. Reserving space in a well-formed buffer always returns: the doubling loop ends and no byte
  outside the array is written. The text is kept. On success there is room for the requested
  bytes and the terminator; on failure the buffer is untouched. Failure means that the total size
  is not a \<open>size_t\<close> or that memory was refused.
\<close>

theorem buffer_reserve_safe:
  assumes "buffer_wf b"
  shows "\<exists>ok h' b'. sg_buffer_reserve h b additional = Some (ok, h', b') \<and>
     buffer_wf b' \<and> buffer_text b' = buffer_text b \<and>
     (if ok then unat (buf_length b') + unat additional + 1 \<le> unat (buf_capacity b')
      else b' = b \<and> (h \<noteq> [] \<or> 2 ^ 64 \<le> unat (buf_length b) + unat additional + 1))"
proof -
  obtain ok h' b' where r: "sg_buffer_reserve h b additional = Some (ok, h', b')"
      "buffer_wf b'" "buffer_text b' = buffer_text b"
      "ok \<longrightarrow> unat (buf_length b) + unat additional < unat (buf_capacity b')" "\<not> ok \<longrightarrow> b' = b"
      "h = [] \<and> unat (buf_length b) + unat additional + 1 < 2 ^ 64 \<longrightarrow> ok"
    using sg_buffer_reserve_correct [OF assms] by metis
  moreover have "unat (buf_length b') = unat (buf_length b)"
    using r(2,3) assms length_buffer_text by metis
  ultimately show ?thesis by (intro exI [of _ ok] exI [of _ h'] exI [of _ b']) auto
qed

theorem buffer_reserve_safe_witness:
  "\<exists>h' b'. sg_buffer_reserve [] sg_buffer_init 200 = Some (True, h', b') \<and> buffer_wf b' \<and>
     201 \<le> unat (buf_capacity b')"
  using buffer_reserve_safe [OF buffer_wf_init, of "[]" 200]
  by (auto simp: sg_buffer_init_def split: if_splits)

lemma append_refused_text:
  assumes wf: "buffer_wf b" and r: "sg_buffer_append h b (Some s) (of_nat (length s)) = Some (False, h', b')"
  shows "b' = b"
proof -
  obtain ok h1 b1 where res: "sg_buffer_reserve h b (of_nat (length s)) = Some (ok, h1, b1)"
      "\<not> ok \<longrightarrow> b1 = b"
    using sg_buffer_reserve_correct [OF wf] by metis
  with r show ?thesis by (auto simp: sg_buffer_append_def Let_def split: if_splits)
qed

lemma append_format_is_append:
  "int (length s) \<le> INT_MAX \<Longrightarrow>
     sg_buffer_append_format (Some s) h b = sg_buffer_append h b (Some s) (of_nat (length s))"
  by (simp add: sg_buffer_append_format_def sg_buffer_append_def unat_of_nat_u64
      vsnprintf_needed_def Let_def split: option.split)

text \<open>
  C13. Appending bytes to a well-formed buffer stays inside the array and leaves a well-formed,
  NUL-terminated buffer. When the call returns true the text has grown by exactly the bytes of
  the source, and when it returns false the text is as before; without refused memory and with a
  total that fits it returns true. \<open>sg_buffer_append_format\<close> does the same with the formatted
  text, and refuses a text longer than \<open>INT_MAX\<close> without touching the buffer.
\<close>

theorem buffer_append_exact:
  assumes "buffer_wf b" and "length s < 2 ^ 64"
  shows "\<exists>ok h' b'. sg_buffer_append h b (Some s) (of_nat (length s)) = Some (ok, h', b') \<and>
      buffer_wf b' \<and> buffer_text b' = buffer_text b @ (if ok then s else []) \<and>
      (h = [] \<and> length (buffer_text b) + length s + 1 < 2 ^ 64 \<longrightarrow> ok) \<and>
      sg_buffer_append_format (Some s) h b =
        (if int (length s) \<le> INT_MAX then Some (ok, h', b') else Some (False, h, b))"
proof -
  from sg_buffer_append_correct [OF assms, of h] obtain ok h' b' p where r:
      "sg_buffer_append h b (Some s) (of_nat (length s)) = Some (ok, h', b')" "buffer_wf b'"
      "buffer_text b' = buffer_text b @ p" "ok \<longrightarrow> p = s"
      "h = [] \<and> length (buffer_text b) + length s + 1 < 2 ^ 64 \<longrightarrow> ok"
    by (rule appendedE)
  have "buffer_text b' = buffer_text b @ (if ok then s else [])"
    using r append_refused_text [OF assms(1), of h s h' b'] by (cases ok) auto
  with r append_format_is_append [of s h b] sg_buffer_append_format_too_long [of s h b]
  show ?thesis by auto
qed

theorem buffer_append_exact_witness:
  "\<exists>h' b'. sg_buffer_append [] sg_buffer_init (Some ''read'') (of_nat (length ''read'')) =
     Some (True, h', b') \<and> buffer_text b' = ''read''"
  using buffer_append_exact [OF buffer_wf_init, of "''read''" "[]"] by auto

end
