(* ===== verification/Catalog_Data.thy ===== *)
theory Catalog_Data
  imports Prelude
begin

text \<open>
  The data of the syscall catalog: the descriptor types of
  \<open>include/sysgaze/syscall_catalog.h\<close>, the class bits of \<open>include/sysgaze/filter.h\<close> and the
  static table \<open>syscalls\<close> that \<open>src/syscall_catalog.c\<close> includes from
  \<open>src/syscall_catalog.inc\<close>, row by row. The well-formedness of the table (increasing
  numbers, distinct names, arities and argument metadata in range) is established by evaluation.
\<close>

section \<open>Classes and descriptors\<close>

definition SG_SYSCALL_LIMIT :: nat where
  "SG_SYSCALL_LIMIT = 512"

definition SG_CLASS_FILE :: u32 where "SG_CLASS_FILE = 1"
definition SG_CLASS_PROCESS :: u32 where "SG_CLASS_PROCESS = 2"
definition SG_CLASS_MEMORY :: u32 where "SG_CLASS_MEMORY = 4"
definition SG_CLASS_NETWORK :: u32 where "SG_CLASS_NETWORK = 8"
definition SG_CLASS_SIGNAL :: u32 where "SG_CLASS_SIGNAL = 16"
definition SG_CLASS_IPC :: u32 where "SG_CLASS_IPC = 32"

lemmas class_bits = SG_CLASS_FILE_def SG_CLASS_PROCESS_def SG_CLASS_MEMORY_def
  SG_CLASS_NETWORK_def SG_CLASS_SIGNAL_def SG_CLASS_IPC_def

datatype sg_argument_kind =
    ARG_HEX | ARG_S32 | ARG_U64 | ARG_SIZE | ARG_FD | ARG_DIRFD | ARG_POINTER | ARG_STRING
    | ARG_STRING_OUT | ARG_BUFFER_IN | ARG_BUFFER_OUT | ARG_ARGV | ARG_MODE |
    ARG_OPEN_FLAGS | ARG_FD_FLAGS | ARG_PROT_FLAGS | ARG_MAP_FLAGS | ARG_CLONE_FLAGS |
    ARG_ACCESS_FLAGS | ARG_AT_FLAGS | ARG_SOCKET_DOMAIN | ARG_SOCKET_TYPE | ARG_SIGNAL |
    ARG_SIGMASK_HOW | ARG_SHUTDOWN_HOW | ARG_FCNTL_COMMAND | ARG_EPOLL_OPERATION |
    ARG_WHENCE | ARG_SOCKADDR_IN | ARG_TIMESPEC_IN | ARG_PIPE_OUT | ARG_UTS_OUT |
    SG_ARGUMENT_KIND_COUNT

datatype sg_result_kind = RESULT_INTEGER | RESULT_POINTER | SG_RESULT_KIND_COUNT

record sg_argument_spec =
  kind :: sg_argument_kind
  auxiliary :: nat

record sg_syscall_descriptor =
  sc_number :: int
  sc_name :: string
  sc_arity :: nat
  sc_classes :: u32
  sc_result_kind :: sg_result_kind
  sc_arguments :: "sg_argument_spec list"

text \<open>
  The initialiser macros of \<open>syscall_catalog.c\<close>. An argument array with fewer than six
  initialisers is filled with zeroes, which is kind \<open>ARG_HEX\<close> and auxiliary 0.
\<close>

definition ARG_AUX :: "sg_argument_kind \<Rightarrow> nat \<Rightarrow> sg_argument_spec" where
  "ARG_AUX k aux = \<lparr>kind = k, auxiliary = aux\<rparr>"

definition ARG :: "sg_argument_kind \<Rightarrow> sg_argument_spec" where
  "ARG k = ARG_AUX k 0"

definition SYSCALL :: "int \<Rightarrow> string \<Rightarrow> nat \<Rightarrow> u32 \<Rightarrow> sg_result_kind \<Rightarrow>
    sg_argument_spec list \<Rightarrow> sg_syscall_descriptor" where
  "SYSCALL syscall_number syscall_name abi_arity class_mask result args =
     \<lparr>sc_number = syscall_number, sc_name = syscall_name, sc_arity = abi_arity,
      sc_classes = class_mask, sc_result_kind = result,
      sc_arguments = args @ replicate (6 - length args) (ARG ARG_HEX)\<rparr>"

section \<open>The table\<close>

definition syscalls :: "sg_syscall_descriptor list" where
  "syscalls = [
    SYSCALL 0 ''read'' 3 SG_CLASS_FILE RESULT_INTEGER
      [ARG ARG_FD, ARG_AUX ARG_BUFFER_OUT 2, ARG ARG_SIZE],
    SYSCALL 1 ''write'' 3 SG_CLASS_FILE RESULT_INTEGER
      [ARG ARG_FD, ARG_AUX ARG_BUFFER_IN 2, ARG ARG_SIZE],
    SYSCALL 2 ''open'' 3 0 RESULT_INTEGER [ARG ARG_STRING, ARG ARG_OPEN_FLAGS, ARG ARG_MODE],
    SYSCALL 3 ''close'' 1 SG_CLASS_FILE RESULT_INTEGER [ARG ARG_FD],
    SYSCALL 4 ''stat'' 2 0 RESULT_INTEGER [ARG ARG_STRING, ARG ARG_POINTER],
    SYSCALL 5 ''fstat'' 2 0 RESULT_INTEGER [ARG ARG_FD, ARG ARG_POINTER],
    SYSCALL 6 ''lstat'' 2 0 RESULT_INTEGER [ARG ARG_STRING, ARG ARG_POINTER],
    SYSCALL 7 ''poll'' 3 0 RESULT_INTEGER [ARG ARG_POINTER, ARG ARG_U64, ARG ARG_S32],
    SYSCALL 8 ''lseek'' 3 SG_CLASS_FILE RESULT_INTEGER [ARG ARG_FD, ARG ARG_U64, ARG ARG_WHENCE],
    SYSCALL 9 ''mmap'' 6 SG_CLASS_MEMORY RESULT_POINTER
      [ARG ARG_POINTER, ARG ARG_SIZE, ARG ARG_PROT_FLAGS, ARG ARG_MAP_FLAGS, ARG ARG_FD, ARG ARG_U64],
    SYSCALL 10 ''mprotect'' 3 SG_CLASS_MEMORY RESULT_INTEGER
      [ARG ARG_POINTER, ARG ARG_SIZE, ARG ARG_PROT_FLAGS],
    SYSCALL 11 ''munmap'' 2 SG_CLASS_MEMORY RESULT_INTEGER [ARG ARG_POINTER, ARG ARG_SIZE],
    SYSCALL 12 ''brk'' 1 SG_CLASS_MEMORY RESULT_POINTER [ARG ARG_POINTER],
    SYSCALL 13 ''rt_sigaction'' 4 SG_CLASS_SIGNAL RESULT_INTEGER
      [ARG ARG_SIGNAL, ARG ARG_POINTER, ARG ARG_POINTER, ARG ARG_SIZE],
    SYSCALL 14 ''rt_sigprocmask'' 4 SG_CLASS_SIGNAL RESULT_INTEGER
      [ARG ARG_SIGMASK_HOW, ARG ARG_POINTER, ARG ARG_POINTER, ARG ARG_SIZE],
    SYSCALL 15 ''rt_sigreturn'' 0 SG_CLASS_SIGNAL RESULT_INTEGER [],
    SYSCALL 16 ''ioctl'' 3 SG_CLASS_FILE RESULT_INTEGER [ARG ARG_FD, ARG ARG_HEX, ARG ARG_POINTER],
    SYSCALL 17 ''pread64'' 4 SG_CLASS_FILE RESULT_INTEGER
      [ARG ARG_FD, ARG_AUX ARG_BUFFER_OUT 2, ARG ARG_SIZE, ARG ARG_U64],
    SYSCALL 18 ''pwrite64'' 4 SG_CLASS_FILE RESULT_INTEGER
      [ARG ARG_FD, ARG_AUX ARG_BUFFER_IN 2, ARG ARG_SIZE, ARG ARG_U64],
    SYSCALL 19 ''readv'' 3 SG_CLASS_FILE RESULT_INTEGER [ARG ARG_FD, ARG ARG_POINTER, ARG ARG_U64],
    SYSCALL 20 ''writev'' 3 SG_CLASS_FILE RESULT_INTEGER [ARG ARG_FD, ARG ARG_POINTER, ARG ARG_U64],
    SYSCALL 21 ''access'' 2 SG_CLASS_FILE RESULT_INTEGER [ARG ARG_STRING, ARG ARG_ACCESS_FLAGS],
    SYSCALL 22 ''pipe'' 1 (SG_CLASS_FILE OR SG_CLASS_IPC) RESULT_INTEGER [ARG ARG_PIPE_OUT],
    SYSCALL 23 ''select'' 5 SG_CLASS_FILE RESULT_INTEGER
      [ARG ARG_S32, ARG ARG_POINTER, ARG ARG_POINTER, ARG ARG_POINTER, ARG ARG_POINTER],
    SYSCALL 24 ''sched_yield'' 0 SG_CLASS_PROCESS RESULT_INTEGER [],
    SYSCALL 25 ''mremap'' 5 SG_CLASS_MEMORY RESULT_POINTER
      [ARG ARG_POINTER, ARG ARG_SIZE, ARG ARG_SIZE, ARG ARG_HEX, ARG ARG_POINTER],
    SYSCALL 26 ''msync'' 3 SG_CLASS_MEMORY RESULT_INTEGER
      [ARG ARG_POINTER, ARG ARG_SIZE, ARG ARG_HEX],
    SYSCALL 27 ''mincore'' 3 SG_CLASS_MEMORY RESULT_INTEGER
      [ARG ARG_POINTER, ARG ARG_SIZE, ARG ARG_POINTER],
    SYSCALL 28 ''madvise'' 3 SG_CLASS_MEMORY RESULT_INTEGER
      [ARG ARG_POINTER, ARG ARG_SIZE, ARG ARG_S32],
    SYSCALL 29 ''shmget'' 3 (SG_CLASS_MEMORY OR SG_CLASS_IPC) RESULT_INTEGER [],
    SYSCALL 30 ''shmat'' 3 (SG_CLASS_MEMORY OR SG_CLASS_IPC) RESULT_INTEGER [],
    SYSCALL 31 ''shmctl'' 3 (SG_CLASS_MEMORY OR SG_CLASS_IPC) RESULT_INTEGER [],
    SYSCALL 32 ''dup'' 1 SG_CLASS_FILE RESULT_INTEGER [ARG ARG_FD],
    SYSCALL 33 ''dup2'' 2 SG_CLASS_FILE RESULT_INTEGER [ARG ARG_FD, ARG ARG_FD],
    SYSCALL 34 ''pause'' 0 0 RESULT_INTEGER [],
    SYSCALL 35 ''nanosleep'' 2 SG_CLASS_PROCESS RESULT_INTEGER
      [ARG ARG_TIMESPEC_IN, ARG ARG_POINTER],
    SYSCALL 36 ''getitimer'' 2 0 RESULT_INTEGER [],
    SYSCALL 37 ''alarm'' 1 0 RESULT_INTEGER [],
    SYSCALL 38 ''setitimer'' 3 0 RESULT_INTEGER [],
    SYSCALL 39 ''getpid'' 0 SG_CLASS_PROCESS RESULT_INTEGER [],
    SYSCALL 40 ''sendfile'' 4 0 RESULT_INTEGER
      [ARG ARG_FD, ARG ARG_FD, ARG ARG_POINTER, ARG ARG_SIZE],
    SYSCALL 41 ''socket'' 3 SG_CLASS_NETWORK RESULT_INTEGER
      [ARG ARG_SOCKET_DOMAIN, ARG ARG_SOCKET_TYPE, ARG ARG_S32],
    SYSCALL 42 ''connect'' 3 SG_CLASS_NETWORK RESULT_INTEGER
      [ARG ARG_FD, ARG_AUX ARG_SOCKADDR_IN 2, ARG ARG_SIZE],
    SYSCALL 43 ''accept'' 3 SG_CLASS_NETWORK RESULT_INTEGER
      [ARG ARG_FD, ARG ARG_POINTER, ARG ARG_POINTER],
    SYSCALL 44 ''sendto'' 6 SG_CLASS_NETWORK RESULT_INTEGER
      [ARG ARG_FD, ARG_AUX ARG_BUFFER_IN 2, ARG ARG_SIZE, ARG ARG_HEX, ARG_AUX ARG_SOCKADDR_IN 5, ARG ARG_SIZE],
    SYSCALL 45 ''recvfrom'' 6 SG_CLASS_NETWORK RESULT_INTEGER
      [ARG ARG_FD, ARG_AUX ARG_BUFFER_OUT 2, ARG ARG_SIZE, ARG ARG_HEX, ARG ARG_POINTER, ARG ARG_POINTER],
    SYSCALL 46 ''sendmsg'' 3 SG_CLASS_NETWORK RESULT_INTEGER
      [ARG ARG_FD, ARG ARG_POINTER, ARG ARG_HEX],
    SYSCALL 47 ''recvmsg'' 3 SG_CLASS_NETWORK RESULT_INTEGER
      [ARG ARG_FD, ARG ARG_POINTER, ARG ARG_HEX],
    SYSCALL 48 ''shutdown'' 2 SG_CLASS_NETWORK RESULT_INTEGER [ARG ARG_FD, ARG ARG_SHUTDOWN_HOW],
    SYSCALL 49 ''bind'' 3 SG_CLASS_NETWORK RESULT_INTEGER
      [ARG ARG_FD, ARG_AUX ARG_SOCKADDR_IN 2, ARG ARG_SIZE],
    SYSCALL 50 ''listen'' 2 SG_CLASS_NETWORK RESULT_INTEGER [ARG ARG_FD, ARG ARG_S32],
    SYSCALL 51 ''getsockname'' 3 SG_CLASS_NETWORK RESULT_INTEGER
      [ARG ARG_FD, ARG ARG_POINTER, ARG ARG_POINTER],
    SYSCALL 52 ''getpeername'' 3 SG_CLASS_NETWORK RESULT_INTEGER
      [ARG ARG_FD, ARG ARG_POINTER, ARG ARG_POINTER],
    SYSCALL 53 ''socketpair'' 4 (SG_CLASS_NETWORK OR SG_CLASS_IPC) RESULT_INTEGER
      [ARG ARG_SOCKET_DOMAIN, ARG ARG_SOCKET_TYPE, ARG ARG_S32, ARG ARG_PIPE_OUT],
    SYSCALL 54 ''setsockopt'' 5 SG_CLASS_NETWORK RESULT_INTEGER
      [ARG ARG_FD, ARG ARG_S32, ARG ARG_S32, ARG ARG_POINTER, ARG ARG_SIZE],
    SYSCALL 55 ''getsockopt'' 5 SG_CLASS_NETWORK RESULT_INTEGER
      [ARG ARG_FD, ARG ARG_S32, ARG ARG_S32, ARG ARG_POINTER, ARG ARG_POINTER],
    SYSCALL 56 ''clone'' 5 SG_CLASS_PROCESS RESULT_INTEGER
      [ARG ARG_CLONE_FLAGS, ARG ARG_POINTER, ARG ARG_POINTER, ARG ARG_POINTER, ARG ARG_HEX],
    SYSCALL 57 ''fork'' 0 SG_CLASS_PROCESS RESULT_INTEGER [],
    SYSCALL 58 ''vfork'' 0 SG_CLASS_PROCESS RESULT_INTEGER [],
    SYSCALL 59 ''execve'' 3 (SG_CLASS_PROCESS OR SG_CLASS_FILE) RESULT_INTEGER
      [ARG ARG_STRING, ARG ARG_ARGV, ARG ARG_POINTER],
    SYSCALL 60 ''exit'' 1 SG_CLASS_PROCESS RESULT_INTEGER [ARG ARG_S32],
    SYSCALL 61 ''wait4'' 4 SG_CLASS_PROCESS RESULT_INTEGER
      [ARG ARG_S32, ARG ARG_POINTER, ARG ARG_HEX, ARG ARG_POINTER],
    SYSCALL 62 ''kill'' 2 (SG_CLASS_SIGNAL OR SG_CLASS_PROCESS) RESULT_INTEGER
      [ARG ARG_S32, ARG ARG_SIGNAL],
    SYSCALL 63 ''uname'' 1 SG_CLASS_PROCESS RESULT_INTEGER [ARG ARG_UTS_OUT],
    SYSCALL 64 ''semget'' 3 0 RESULT_INTEGER [],
    SYSCALL 65 ''semop'' 3 0 RESULT_INTEGER [],
    SYSCALL 66 ''semctl'' 4 0 RESULT_INTEGER [],
    SYSCALL 67 ''shmdt'' 1 0 RESULT_INTEGER [],
    SYSCALL 68 ''msgget'' 2 0 RESULT_INTEGER [],
    SYSCALL 69 ''msgsnd'' 4 0 RESULT_INTEGER [],
    SYSCALL 70 ''msgrcv'' 5 0 RESULT_INTEGER [],
    SYSCALL 71 ''msgctl'' 3 0 RESULT_INTEGER [],
    SYSCALL 72 ''fcntl'' 3 SG_CLASS_FILE RESULT_INTEGER
      [ARG ARG_FD, ARG ARG_FCNTL_COMMAND, ARG ARG_HEX],
    SYSCALL 73 ''flock'' 2 0 RESULT_INTEGER [],
    SYSCALL 74 ''fsync'' 1 SG_CLASS_FILE RESULT_INTEGER [ARG ARG_FD],
    SYSCALL 75 ''fdatasync'' 1 SG_CLASS_FILE RESULT_INTEGER [ARG ARG_FD],
    SYSCALL 76 ''truncate'' 2 SG_CLASS_FILE RESULT_INTEGER [ARG ARG_STRING, ARG ARG_U64],
    SYSCALL 77 ''ftruncate'' 2 SG_CLASS_FILE RESULT_INTEGER [ARG ARG_FD, ARG ARG_U64],
    SYSCALL 78 ''getdents'' 3 SG_CLASS_FILE RESULT_INTEGER
      [ARG ARG_FD, ARG ARG_POINTER, ARG ARG_SIZE],
    SYSCALL 79 ''getcwd'' 2 SG_CLASS_FILE RESULT_INTEGER [ARG_AUX ARG_STRING_OUT 1, ARG ARG_SIZE],
    SYSCALL 80 ''chdir'' 1 SG_CLASS_FILE RESULT_INTEGER [ARG ARG_STRING],
    SYSCALL 81 ''fchdir'' 1 0 RESULT_INTEGER [],
    SYSCALL 82 ''rename'' 2 SG_CLASS_FILE RESULT_INTEGER [ARG ARG_STRING, ARG ARG_STRING],
    SYSCALL 83 ''mkdir'' 2 SG_CLASS_FILE RESULT_INTEGER [ARG ARG_STRING, ARG ARG_MODE],
    SYSCALL 84 ''rmdir'' 1 SG_CLASS_FILE RESULT_INTEGER [ARG ARG_STRING],
    SYSCALL 85 ''creat'' 2 SG_CLASS_FILE RESULT_INTEGER [ARG ARG_STRING, ARG ARG_MODE],
    SYSCALL 86 ''link'' 2 SG_CLASS_FILE RESULT_INTEGER [ARG ARG_STRING, ARG ARG_STRING],
    SYSCALL 87 ''unlink'' 1 SG_CLASS_FILE RESULT_INTEGER [ARG ARG_STRING],
    SYSCALL 88 ''symlink'' 2 SG_CLASS_FILE RESULT_INTEGER [ARG ARG_STRING, ARG ARG_STRING],
    SYSCALL 89 ''readlink'' 3 SG_CLASS_FILE RESULT_INTEGER
      [ARG ARG_STRING, ARG_AUX ARG_BUFFER_OUT 2, ARG ARG_SIZE],
    SYSCALL 90 ''chmod'' 2 SG_CLASS_FILE RESULT_INTEGER [ARG ARG_STRING, ARG ARG_MODE],
    SYSCALL 91 ''fchmod'' 2 SG_CLASS_FILE RESULT_INTEGER [ARG ARG_FD, ARG ARG_MODE],
    SYSCALL 92 ''chown'' 3 SG_CLASS_FILE RESULT_INTEGER [ARG ARG_STRING, ARG ARG_U64, ARG ARG_U64],
    SYSCALL 93 ''fchown'' 3 SG_CLASS_FILE RESULT_INTEGER [ARG ARG_FD, ARG ARG_U64, ARG ARG_U64],
    SYSCALL 94 ''lchown'' 3 0 RESULT_INTEGER [],
    SYSCALL 95 ''umask'' 1 0 RESULT_INTEGER [],
    SYSCALL 96 ''gettimeofday'' 2 SG_CLASS_PROCESS RESULT_INTEGER [],
    SYSCALL 97 ''getrlimit'' 2 0 RESULT_INTEGER [],
    SYSCALL 98 ''getrusage'' 2 0 RESULT_INTEGER [],
    SYSCALL 99 ''sysinfo'' 1 0 RESULT_INTEGER [],
    SYSCALL 100 ''times'' 1 0 RESULT_INTEGER [],
    SYSCALL 101 ''ptrace'' 4 0 RESULT_INTEGER [],
    SYSCALL 102 ''getuid'' 0 SG_CLASS_PROCESS RESULT_INTEGER [],
    SYSCALL 103 ''syslog'' 3 0 RESULT_INTEGER [],
    SYSCALL 104 ''getgid'' 0 SG_CLASS_PROCESS RESULT_INTEGER [],
    SYSCALL 105 ''setuid'' 1 0 RESULT_INTEGER [],
    SYSCALL 106 ''setgid'' 1 0 RESULT_INTEGER [],
    SYSCALL 107 ''geteuid'' 0 SG_CLASS_PROCESS RESULT_INTEGER [],
    SYSCALL 108 ''getegid'' 0 SG_CLASS_PROCESS RESULT_INTEGER [],
    SYSCALL 109 ''setpgid'' 2 0 RESULT_INTEGER [],
    SYSCALL 110 ''getppid'' 0 SG_CLASS_PROCESS RESULT_INTEGER [],
    SYSCALL 111 ''getpgrp'' 0 0 RESULT_INTEGER [],
    SYSCALL 112 ''setsid'' 0 SG_CLASS_PROCESS RESULT_INTEGER [],
    SYSCALL 113 ''setreuid'' 2 0 RESULT_INTEGER [],
    SYSCALL 114 ''setregid'' 2 0 RESULT_INTEGER [],
    SYSCALL 115 ''getgroups'' 2 0 RESULT_INTEGER [],
    SYSCALL 116 ''setgroups'' 2 0 RESULT_INTEGER [],
    SYSCALL 117 ''setresuid'' 3 0 RESULT_INTEGER [],
    SYSCALL 118 ''getresuid'' 3 0 RESULT_INTEGER [],
    SYSCALL 119 ''setresgid'' 3 0 RESULT_INTEGER [],
    SYSCALL 120 ''getresgid'' 3 0 RESULT_INTEGER [],
    SYSCALL 121 ''getpgid'' 1 0 RESULT_INTEGER [],
    SYSCALL 122 ''setfsuid'' 1 0 RESULT_INTEGER [],
    SYSCALL 123 ''setfsgid'' 1 0 RESULT_INTEGER [],
    SYSCALL 124 ''getsid'' 1 0 RESULT_INTEGER [],
    SYSCALL 125 ''capget'' 2 0 RESULT_INTEGER [],
    SYSCALL 126 ''capset'' 2 0 RESULT_INTEGER [],
    SYSCALL 127 ''rt_sigpending'' 2 0 RESULT_INTEGER [],
    SYSCALL 128 ''rt_sigtimedwait'' 4 0 RESULT_INTEGER [],
    SYSCALL 129 ''rt_sigqueueinfo'' 3 0 RESULT_INTEGER [],
    SYSCALL 130 ''rt_sigsuspend'' 2 0 RESULT_INTEGER [],
    SYSCALL 131 ''sigaltstack'' 2 SG_CLASS_SIGNAL RESULT_INTEGER [ARG ARG_POINTER, ARG ARG_POINTER],
    SYSCALL 132 ''utime'' 2 0 RESULT_INTEGER [],
    SYSCALL 133 ''mknod'' 3 0 RESULT_INTEGER [],
    SYSCALL 134 ''uselib'' 1 0 RESULT_INTEGER [],
    SYSCALL 135 ''personality'' 1 0 RESULT_INTEGER [],
    SYSCALL 136 ''ustat'' 2 0 RESULT_INTEGER [],
    SYSCALL 137 ''statfs'' 2 0 RESULT_INTEGER [],
    SYSCALL 138 ''fstatfs'' 2 0 RESULT_INTEGER [],
    SYSCALL 139 ''sysfs'' 3 0 RESULT_INTEGER [],
    SYSCALL 140 ''getpriority'' 2 0 RESULT_INTEGER [],
    SYSCALL 141 ''setpriority'' 3 0 RESULT_INTEGER [],
    SYSCALL 142 ''sched_setparam'' 2 0 RESULT_INTEGER [],
    SYSCALL 143 ''sched_getparam'' 2 0 RESULT_INTEGER [],
    SYSCALL 144 ''sched_setscheduler'' 3 0 RESULT_INTEGER [],
    SYSCALL 145 ''sched_getscheduler'' 1 0 RESULT_INTEGER [],
    SYSCALL 146 ''sched_get_priority_max'' 1 0 RESULT_INTEGER [],
    SYSCALL 147 ''sched_get_priority_min'' 1 0 RESULT_INTEGER [],
    SYSCALL 148 ''sched_rr_get_interval'' 2 0 RESULT_INTEGER [],
    SYSCALL 149 ''mlock'' 2 0 RESULT_INTEGER [],
    SYSCALL 150 ''munlock'' 2 0 RESULT_INTEGER [],
    SYSCALL 151 ''mlockall'' 1 0 RESULT_INTEGER [],
    SYSCALL 152 ''munlockall'' 0 0 RESULT_INTEGER [],
    SYSCALL 153 ''vhangup'' 0 0 RESULT_INTEGER [],
    SYSCALL 154 ''modify_ldt'' 3 0 RESULT_INTEGER [],
    SYSCALL 155 ''pivot_root'' 2 0 RESULT_INTEGER [],
    SYSCALL 156 ''_sysctl'' 1 0 RESULT_INTEGER [],
    SYSCALL 157 ''prctl'' 5 0 RESULT_INTEGER [],
    SYSCALL 158 ''arch_prctl'' 2 SG_CLASS_PROCESS RESULT_INTEGER [ARG ARG_S32, ARG ARG_POINTER],
    SYSCALL 159 ''adjtimex'' 1 0 RESULT_INTEGER [],
    SYSCALL 160 ''setrlimit'' 2 0 RESULT_INTEGER [],
    SYSCALL 161 ''chroot'' 1 0 RESULT_INTEGER [],
    SYSCALL 162 ''sync'' 0 0 RESULT_INTEGER [],
    SYSCALL 163 ''acct'' 1 0 RESULT_INTEGER [],
    SYSCALL 164 ''settimeofday'' 2 0 RESULT_INTEGER [],
    SYSCALL 165 ''mount'' 5 0 RESULT_INTEGER [],
    SYSCALL 166 ''umount2'' 2 0 RESULT_INTEGER [],
    SYSCALL 167 ''swapon'' 2 0 RESULT_INTEGER [],
    SYSCALL 168 ''swapoff'' 1 0 RESULT_INTEGER [],
    SYSCALL 169 ''reboot'' 4 0 RESULT_INTEGER [],
    SYSCALL 170 ''sethostname'' 2 0 RESULT_INTEGER [],
    SYSCALL 171 ''setdomainname'' 2 0 RESULT_INTEGER [],
    SYSCALL 172 ''iopl'' 1 0 RESULT_INTEGER [],
    SYSCALL 173 ''ioperm'' 3 0 RESULT_INTEGER [],
    SYSCALL 174 ''create_module'' 2 0 RESULT_INTEGER [],
    SYSCALL 175 ''init_module'' 3 0 RESULT_INTEGER [],
    SYSCALL 176 ''delete_module'' 2 0 RESULT_INTEGER [],
    SYSCALL 177 ''get_kernel_syms'' 1 0 RESULT_INTEGER [],
    SYSCALL 178 ''query_module'' 5 0 RESULT_INTEGER [],
    SYSCALL 179 ''quotactl'' 4 0 RESULT_INTEGER [],
    SYSCALL 180 ''nfsservctl'' 3 0 RESULT_INTEGER [],
    SYSCALL 181 ''getpmsg'' 5 0 RESULT_INTEGER [],
    SYSCALL 182 ''putpmsg'' 5 0 RESULT_INTEGER [],
    SYSCALL 183 ''afs_syscall'' 5 0 RESULT_INTEGER [],
    SYSCALL 184 ''tuxcall'' 1 0 RESULT_INTEGER [],
    SYSCALL 185 ''security'' 3 0 RESULT_INTEGER [],
    SYSCALL 186 ''gettid'' 0 0 RESULT_INTEGER [],
    SYSCALL 187 ''readahead'' 3 0 RESULT_INTEGER [],
    SYSCALL 188 ''setxattr'' 5 0 RESULT_INTEGER [],
    SYSCALL 189 ''lsetxattr'' 5 0 RESULT_INTEGER [],
    SYSCALL 190 ''fsetxattr'' 5 0 RESULT_INTEGER [],
    SYSCALL 191 ''getxattr'' 4 0 RESULT_INTEGER [],
    SYSCALL 192 ''lgetxattr'' 4 0 RESULT_INTEGER [],
    SYSCALL 193 ''fgetxattr'' 4 0 RESULT_INTEGER [],
    SYSCALL 194 ''listxattr'' 3 0 RESULT_INTEGER [],
    SYSCALL 195 ''llistxattr'' 3 0 RESULT_INTEGER [],
    SYSCALL 196 ''flistxattr'' 3 0 RESULT_INTEGER [],
    SYSCALL 197 ''removexattr'' 2 0 RESULT_INTEGER [],
    SYSCALL 198 ''lremovexattr'' 2 0 RESULT_INTEGER [],
    SYSCALL 199 ''fremovexattr'' 2 0 RESULT_INTEGER [],
    SYSCALL 200 ''tkill'' 2 0 RESULT_INTEGER [],
    SYSCALL 201 ''time'' 1 0 RESULT_INTEGER [],
    SYSCALL 202 ''futex'' 6 (SG_CLASS_PROCESS OR SG_CLASS_IPC) RESULT_INTEGER
      [ARG ARG_POINTER, ARG ARG_S32, ARG ARG_U64, ARG ARG_POINTER, ARG ARG_POINTER, ARG ARG_U64],
    SYSCALL 203 ''sched_setaffinity'' 3 0 RESULT_INTEGER [],
    SYSCALL 204 ''sched_getaffinity'' 3 0 RESULT_INTEGER [],
    SYSCALL 205 ''set_thread_area'' 1 0 RESULT_INTEGER [],
    SYSCALL 206 ''io_setup'' 2 0 RESULT_INTEGER [],
    SYSCALL 207 ''io_destroy'' 1 0 RESULT_INTEGER [],
    SYSCALL 208 ''io_getevents'' 5 0 RESULT_INTEGER [],
    SYSCALL 209 ''io_submit'' 3 0 RESULT_INTEGER [],
    SYSCALL 210 ''io_cancel'' 3 0 RESULT_INTEGER [],
    SYSCALL 211 ''get_thread_area'' 1 0 RESULT_INTEGER [],
    SYSCALL 212 ''lookup_dcookie'' 3 0 RESULT_INTEGER [],
    SYSCALL 213 ''epoll_create'' 1 0 RESULT_INTEGER [],
    SYSCALL 214 ''epoll_ctl_old'' 4 0 RESULT_INTEGER [],
    SYSCALL 215 ''epoll_wait_old'' 4 0 RESULT_INTEGER [],
    SYSCALL 216 ''remap_file_pages'' 5 0 RESULT_INTEGER [],
    SYSCALL 217 ''getdents64'' 3 0 RESULT_INTEGER [],
    SYSCALL 218 ''set_tid_address'' 1 0 RESULT_INTEGER [],
    SYSCALL 219 ''restart_syscall'' 0 0 RESULT_INTEGER [],
    SYSCALL 220 ''semtimedop'' 4 0 RESULT_INTEGER [],
    SYSCALL 221 ''fadvise64'' 4 0 RESULT_INTEGER [],
    SYSCALL 222 ''timer_create'' 3 0 RESULT_INTEGER [],
    SYSCALL 223 ''timer_settime'' 4 0 RESULT_INTEGER [],
    SYSCALL 224 ''timer_gettime'' 2 0 RESULT_INTEGER [],
    SYSCALL 225 ''timer_getoverrun'' 1 0 RESULT_INTEGER [],
    SYSCALL 226 ''timer_delete'' 1 0 RESULT_INTEGER [],
    SYSCALL 227 ''clock_settime'' 2 0 RESULT_INTEGER [],
    SYSCALL 228 ''clock_gettime'' 2 0 RESULT_INTEGER [],
    SYSCALL 229 ''clock_getres'' 2 0 RESULT_INTEGER [],
    SYSCALL 230 ''clock_nanosleep'' 4 0 RESULT_INTEGER [],
    SYSCALL 231 ''exit_group'' 1 SG_CLASS_PROCESS RESULT_INTEGER [ARG ARG_S32],
    SYSCALL 232 ''epoll_wait'' 4 SG_CLASS_FILE RESULT_INTEGER
      [ARG ARG_FD, ARG ARG_POINTER, ARG ARG_S32, ARG ARG_S32],
    SYSCALL 233 ''epoll_ctl'' 4 SG_CLASS_FILE RESULT_INTEGER
      [ARG ARG_FD, ARG ARG_EPOLL_OPERATION, ARG ARG_FD, ARG ARG_POINTER],
    SYSCALL 234 ''tgkill'' 3 0 RESULT_INTEGER [],
    SYSCALL 235 ''utimes'' 2 0 RESULT_INTEGER [],
    SYSCALL 236 ''vserver'' 0 0 RESULT_INTEGER [],
    SYSCALL 237 ''mbind'' 6 0 RESULT_INTEGER [],
    SYSCALL 238 ''set_mempolicy'' 3 0 RESULT_INTEGER [],
    SYSCALL 239 ''get_mempolicy'' 5 0 RESULT_INTEGER [],
    SYSCALL 240 ''mq_open'' 4 0 RESULT_INTEGER [],
    SYSCALL 241 ''mq_unlink'' 1 0 RESULT_INTEGER [],
    SYSCALL 242 ''mq_timedsend'' 5 0 RESULT_INTEGER [],
    SYSCALL 243 ''mq_timedreceive'' 5 0 RESULT_INTEGER [],
    SYSCALL 244 ''mq_notify'' 2 0 RESULT_INTEGER [],
    SYSCALL 245 ''mq_getsetattr'' 3 0 RESULT_INTEGER [],
    SYSCALL 246 ''kexec_load'' 4 0 RESULT_INTEGER [],
    SYSCALL 247 ''waitid'' 5 0 RESULT_INTEGER [],
    SYSCALL 248 ''add_key'' 5 0 RESULT_INTEGER [],
    SYSCALL 249 ''request_key'' 4 0 RESULT_INTEGER [],
    SYSCALL 250 ''keyctl'' 5 0 RESULT_INTEGER [],
    SYSCALL 251 ''ioprio_set'' 3 0 RESULT_INTEGER [],
    SYSCALL 252 ''ioprio_get'' 2 0 RESULT_INTEGER [],
    SYSCALL 253 ''inotify_init'' 0 0 RESULT_INTEGER [],
    SYSCALL 254 ''inotify_add_watch'' 3 0 RESULT_INTEGER [],
    SYSCALL 255 ''inotify_rm_watch'' 2 0 RESULT_INTEGER [],
    SYSCALL 256 ''migrate_pages'' 4 0 RESULT_INTEGER [],
    SYSCALL 257 ''openat'' 4 SG_CLASS_FILE RESULT_INTEGER
      [ARG ARG_DIRFD, ARG ARG_STRING, ARG ARG_OPEN_FLAGS, ARG ARG_MODE],
    SYSCALL 258 ''mkdirat'' 3 0 RESULT_INTEGER [],
    SYSCALL 259 ''mknodat'' 4 0 RESULT_INTEGER [],
    SYSCALL 260 ''fchownat'' 5 0 RESULT_INTEGER [],
    SYSCALL 261 ''futimesat'' 3 0 RESULT_INTEGER [],
    SYSCALL 262 ''newfstatat'' 4 SG_CLASS_FILE RESULT_INTEGER
      [ARG ARG_DIRFD, ARG ARG_STRING, ARG ARG_POINTER, ARG ARG_AT_FLAGS],
    SYSCALL 263 ''unlinkat'' 3 SG_CLASS_FILE RESULT_INTEGER
      [ARG ARG_DIRFD, ARG ARG_STRING, ARG ARG_AT_FLAGS],
    SYSCALL 264 ''renameat'' 4 SG_CLASS_FILE RESULT_INTEGER
      [ARG ARG_DIRFD, ARG ARG_STRING, ARG ARG_DIRFD, ARG ARG_STRING],
    SYSCALL 265 ''linkat'' 5 SG_CLASS_FILE RESULT_INTEGER
      [ARG ARG_DIRFD, ARG ARG_STRING, ARG ARG_DIRFD, ARG ARG_STRING, ARG ARG_AT_FLAGS],
    SYSCALL 266 ''symlinkat'' 3 SG_CLASS_FILE RESULT_INTEGER
      [ARG ARG_STRING, ARG ARG_DIRFD, ARG ARG_STRING],
    SYSCALL 267 ''readlinkat'' 4 SG_CLASS_FILE RESULT_INTEGER
      [ARG ARG_DIRFD, ARG ARG_STRING, ARG_AUX ARG_BUFFER_OUT 3, ARG ARG_SIZE],
    SYSCALL 268 ''fchmodat'' 3 0 RESULT_INTEGER [],
    SYSCALL 269 ''faccessat'' 3 0 RESULT_INTEGER [],
    SYSCALL 270 ''pselect6'' 6 (SG_CLASS_FILE OR SG_CLASS_SIGNAL) RESULT_INTEGER
      [ARG ARG_S32, ARG ARG_POINTER, ARG ARG_POINTER, ARG ARG_POINTER, ARG ARG_POINTER, ARG ARG_POINTER],
    SYSCALL 271 ''ppoll'' 5 (SG_CLASS_FILE OR SG_CLASS_SIGNAL) RESULT_INTEGER
      [ARG ARG_POINTER, ARG ARG_U64, ARG ARG_POINTER, ARG ARG_POINTER, ARG ARG_SIZE],
    SYSCALL 272 ''unshare'' 1 SG_CLASS_PROCESS RESULT_INTEGER [ARG ARG_CLONE_FLAGS],
    SYSCALL 273 ''set_robust_list'' 2 0 RESULT_INTEGER [],
    SYSCALL 274 ''get_robust_list'' 3 0 RESULT_INTEGER [],
    SYSCALL 275 ''splice'' 6 SG_CLASS_FILE RESULT_INTEGER
      [ARG ARG_FD, ARG ARG_POINTER, ARG ARG_FD, ARG ARG_POINTER, ARG ARG_SIZE, ARG ARG_HEX],
    SYSCALL 276 ''tee'' 4 SG_CLASS_FILE RESULT_INTEGER
      [ARG ARG_FD, ARG ARG_FD, ARG ARG_SIZE, ARG ARG_HEX],
    SYSCALL 277 ''sync_file_range'' 4 0 RESULT_INTEGER [],
    SYSCALL 278 ''vmsplice'' 4 SG_CLASS_FILE RESULT_INTEGER
      [ARG ARG_FD, ARG ARG_POINTER, ARG ARG_U64, ARG ARG_HEX],
    SYSCALL 279 ''move_pages'' 6 0 RESULT_INTEGER [],
    SYSCALL 280 ''utimensat'' 4 0 RESULT_INTEGER [],
    SYSCALL 281 ''epoll_pwait'' 6 0 RESULT_INTEGER [],
    SYSCALL 282 ''signalfd'' 3 0 RESULT_INTEGER [],
    SYSCALL 283 ''timerfd_create'' 2 0 RESULT_INTEGER [],
    SYSCALL 284 ''eventfd'' 1 0 RESULT_INTEGER [],
    SYSCALL 285 ''fallocate'' 4 0 RESULT_INTEGER [],
    SYSCALL 286 ''timerfd_settime'' 4 0 RESULT_INTEGER [],
    SYSCALL 287 ''timerfd_gettime'' 2 0 RESULT_INTEGER [],
    SYSCALL 288 ''accept4'' 4 SG_CLASS_NETWORK RESULT_INTEGER
      [ARG ARG_FD, ARG ARG_POINTER, ARG ARG_POINTER, ARG ARG_SOCKET_TYPE],
    SYSCALL 289 ''signalfd4'' 4 0 RESULT_INTEGER [],
    SYSCALL 290 ''eventfd2'' 2 0 RESULT_INTEGER [],
    SYSCALL 291 ''epoll_create1'' 1 0 RESULT_INTEGER [],
    SYSCALL 292 ''dup3'' 3 SG_CLASS_FILE RESULT_INTEGER [ARG ARG_FD, ARG ARG_FD, ARG ARG_FD_FLAGS],
    SYSCALL 293 ''pipe2'' 2 (SG_CLASS_FILE OR SG_CLASS_IPC) RESULT_INTEGER
      [ARG ARG_PIPE_OUT, ARG ARG_FD_FLAGS],
    SYSCALL 294 ''inotify_init1'' 1 0 RESULT_INTEGER [],
    SYSCALL 295 ''preadv'' 5 SG_CLASS_FILE RESULT_INTEGER
      [ARG ARG_FD, ARG ARG_POINTER, ARG ARG_U64, ARG ARG_U64, ARG ARG_U64],
    SYSCALL 296 ''pwritev'' 5 SG_CLASS_FILE RESULT_INTEGER
      [ARG ARG_FD, ARG ARG_POINTER, ARG ARG_U64, ARG ARG_U64, ARG ARG_U64],
    SYSCALL 297 ''rt_tgsigqueueinfo'' 4 0 RESULT_INTEGER [],
    SYSCALL 298 ''perf_event_open'' 5 0 RESULT_INTEGER [],
    SYSCALL 299 ''recvmmsg'' 5 0 RESULT_INTEGER [],
    SYSCALL 300 ''fanotify_init'' 2 0 RESULT_INTEGER [],
    SYSCALL 301 ''fanotify_mark'' 6 0 RESULT_INTEGER [],
    SYSCALL 302 ''prlimit64'' 4 0 RESULT_INTEGER [],
    SYSCALL 303 ''name_to_handle_at'' 5 0 RESULT_INTEGER [],
    SYSCALL 304 ''open_by_handle_at'' 3 0 RESULT_INTEGER [],
    SYSCALL 305 ''clock_adjtime'' 2 0 RESULT_INTEGER [],
    SYSCALL 306 ''syncfs'' 1 0 RESULT_INTEGER [],
    SYSCALL 307 ''sendmmsg'' 4 0 RESULT_INTEGER [],
    SYSCALL 308 ''setns'' 2 0 RESULT_INTEGER [],
    SYSCALL 309 ''getcpu'' 3 0 RESULT_INTEGER [],
    SYSCALL 310 ''process_vm_readv'' 6 (SG_CLASS_PROCESS OR SG_CLASS_MEMORY) RESULT_INTEGER
      [ARG ARG_S32, ARG ARG_POINTER, ARG ARG_U64, ARG ARG_POINTER, ARG ARG_U64, ARG ARG_HEX],
    SYSCALL 311 ''process_vm_writev'' 6 (SG_CLASS_PROCESS OR SG_CLASS_MEMORY) RESULT_INTEGER
      [ARG ARG_S32, ARG ARG_POINTER, ARG ARG_U64, ARG ARG_POINTER, ARG ARG_U64, ARG ARG_HEX],
    SYSCALL 312 ''kcmp'' 5 0 RESULT_INTEGER [],
    SYSCALL 313 ''finit_module'' 3 0 RESULT_INTEGER [],
    SYSCALL 314 ''sched_setattr'' 3 0 RESULT_INTEGER [],
    SYSCALL 315 ''sched_getattr'' 4 0 RESULT_INTEGER [],
    SYSCALL 316 ''renameat2'' 5 0 RESULT_INTEGER [],
    SYSCALL 317 ''seccomp'' 3 0 RESULT_INTEGER [],
    SYSCALL 318 ''getrandom'' 3 0 RESULT_INTEGER
      [ARG_AUX ARG_BUFFER_OUT 1, ARG ARG_SIZE, ARG ARG_HEX],
    SYSCALL 319 ''memfd_create'' 2 0 RESULT_INTEGER [],
    SYSCALL 320 ''kexec_file_load'' 5 0 RESULT_INTEGER [],
    SYSCALL 321 ''bpf'' 3 0 RESULT_INTEGER [],
    SYSCALL 322 ''execveat'' 5 (SG_CLASS_PROCESS OR SG_CLASS_FILE) RESULT_INTEGER
      [ARG ARG_DIRFD, ARG ARG_STRING, ARG ARG_ARGV, ARG ARG_POINTER, ARG ARG_AT_FLAGS],
    SYSCALL 323 ''userfaultfd'' 1 0 RESULT_INTEGER [],
    SYSCALL 324 ''membarrier'' 3 0 RESULT_INTEGER [],
    SYSCALL 325 ''mlock2'' 3 0 RESULT_INTEGER [],
    SYSCALL 326 ''copy_file_range'' 6 0 RESULT_INTEGER [],
    SYSCALL 327 ''preadv2'' 6 SG_CLASS_FILE RESULT_INTEGER
      [ARG ARG_FD, ARG ARG_POINTER, ARG ARG_U64, ARG ARG_U64, ARG ARG_U64, ARG ARG_HEX],
    SYSCALL 328 ''pwritev2'' 6 SG_CLASS_FILE RESULT_INTEGER
      [ARG ARG_FD, ARG ARG_POINTER, ARG ARG_U64, ARG ARG_U64, ARG ARG_U64, ARG ARG_HEX],
    SYSCALL 329 ''pkey_mprotect'' 4 0 RESULT_INTEGER [],
    SYSCALL 330 ''pkey_alloc'' 2 0 RESULT_INTEGER [],
    SYSCALL 331 ''pkey_free'' 1 0 RESULT_INTEGER [],
    SYSCALL 332 ''statx'' 5 0 RESULT_INTEGER
      [ARG ARG_DIRFD, ARG ARG_STRING, ARG ARG_AT_FLAGS, ARG ARG_HEX, ARG ARG_POINTER],
    SYSCALL 333 ''io_pgetevents'' 6 0 RESULT_INTEGER [],
    SYSCALL 334 ''rseq'' 4 0 RESULT_INTEGER [],
    SYSCALL 335 ''uretprobe'' 0 0 RESULT_INTEGER [],
    SYSCALL 336 ''uprobe'' 0 0 RESULT_INTEGER [],
    SYSCALL 424 ''pidfd_send_signal'' 4 0 RESULT_INTEGER [],
    SYSCALL 425 ''io_uring_setup'' 2 0 RESULT_INTEGER [],
    SYSCALL 426 ''io_uring_enter'' 6 0 RESULT_INTEGER [],
    SYSCALL 427 ''io_uring_register'' 4 0 RESULT_INTEGER [],
    SYSCALL 428 ''open_tree'' 3 0 RESULT_INTEGER [],
    SYSCALL 429 ''move_mount'' 5 0 RESULT_INTEGER [],
    SYSCALL 430 ''fsopen'' 2 0 RESULT_INTEGER [],
    SYSCALL 431 ''fsconfig'' 5 0 RESULT_INTEGER [],
    SYSCALL 432 ''fsmount'' 3 0 RESULT_INTEGER [],
    SYSCALL 433 ''fspick'' 3 0 RESULT_INTEGER [],
    SYSCALL 434 ''pidfd_open'' 2 0 RESULT_INTEGER [],
    SYSCALL 435 ''clone3'' 2 SG_CLASS_PROCESS RESULT_INTEGER [ARG ARG_POINTER, ARG ARG_SIZE],
    SYSCALL 436 ''close_range'' 3 SG_CLASS_FILE RESULT_INTEGER
      [ARG ARG_U64, ARG ARG_U64, ARG ARG_HEX],
    SYSCALL 437 ''openat2'' 4 SG_CLASS_FILE RESULT_INTEGER
      [ARG ARG_DIRFD, ARG ARG_STRING, ARG ARG_POINTER, ARG ARG_SIZE],
    SYSCALL 438 ''pidfd_getfd'' 3 0 RESULT_INTEGER [],
    SYSCALL 439 ''faccessat2'' 4 0 RESULT_INTEGER [],
    SYSCALL 440 ''process_madvise'' 5 0 RESULT_INTEGER [],
    SYSCALL 441 ''epoll_pwait2'' 6 0 RESULT_INTEGER [],
    SYSCALL 442 ''mount_setattr'' 5 0 RESULT_INTEGER [],
    SYSCALL 443 ''quotactl_fd'' 4 0 RESULT_INTEGER [],
    SYSCALL 444 ''landlock_create_ruleset'' 3 0 RESULT_INTEGER [],
    SYSCALL 445 ''landlock_add_rule'' 4 0 RESULT_INTEGER [],
    SYSCALL 446 ''landlock_restrict_self'' 2 0 RESULT_INTEGER [],
    SYSCALL 447 ''memfd_secret'' 1 0 RESULT_INTEGER [],
    SYSCALL 448 ''process_mrelease'' 2 0 RESULT_INTEGER [],
    SYSCALL 449 ''futex_waitv'' 5 0 RESULT_INTEGER [],
    SYSCALL 450 ''set_mempolicy_home_node'' 4 0 RESULT_INTEGER [],
    SYSCALL 451 ''cachestat'' 4 0 RESULT_INTEGER [],
    SYSCALL 452 ''fchmodat2'' 4 0 RESULT_INTEGER [],
    SYSCALL 453 ''map_shadow_stack'' 3 0 RESULT_INTEGER [],
    SYSCALL 454 ''futex_wake'' 4 0 RESULT_INTEGER [],
    SYSCALL 455 ''futex_wait'' 6 0 RESULT_INTEGER [],
    SYSCALL 456 ''futex_requeue'' 4 0 RESULT_INTEGER [],
    SYSCALL 457 ''statmount'' 4 0 RESULT_INTEGER [],
    SYSCALL 458 ''listmount'' 4 0 RESULT_INTEGER [],
    SYSCALL 459 ''lsm_get_self_attr'' 4 0 RESULT_INTEGER [],
    SYSCALL 460 ''lsm_set_self_attr'' 4 0 RESULT_INTEGER [],
    SYSCALL 461 ''lsm_list_modules'' 3 0 RESULT_INTEGER [],
    SYSCALL 462 ''mseal'' 3 0 RESULT_INTEGER [],
    SYSCALL 463 ''setxattrat'' 6 0 RESULT_INTEGER [],
    SYSCALL 464 ''getxattrat'' 6 0 RESULT_INTEGER [],
    SYSCALL 465 ''listxattrat'' 5 0 RESULT_INTEGER [],
    SYSCALL 466 ''removexattrat'' 4 0 RESULT_INTEGER [],
    SYSCALL 467 ''open_tree_attr'' 5 0 RESULT_INTEGER [],
    SYSCALL 468 ''file_getattr'' 5 0 RESULT_INTEGER [],
    SYSCALL 469 ''file_setattr'' 5 0 RESULT_INTEGER [],
    SYSCALL 470 ''listns'' 4 0 RESULT_INTEGER [],
    SYSCALL 471 ''rseq_slice_yield'' 0 0 RESULT_INTEGER []]"

section \<open>Facts about the table, by evaluation\<close>

fun increasing :: "int list \<Rightarrow> bool" where
  "increasing (x # y # zs) = (x < y \<and> increasing (y # zs))"
| "increasing _ = True"

lemma increasing_sorted_wrt: "increasing xs \<Longrightarrow> sorted_wrt (<) xs"
  by (induction xs rule: increasing.induct) (auto simp: sorted_wrt2)

text \<open>
  Names as integers. The polynomial has no collision on the table, so distinct keys give
  distinct names.
\<close>

definition name_key :: "string \<Rightarrow> int" where
  "name_key s = foldl (\<lambda>v c. v * 3 + of_char c) 0 s"

lemma syscalls_numbers_increasing: "increasing (map sc_number syscalls)"
  by code_simp

lemma syscalls_keys_distinct: "distinct (map (\<lambda>d. name_key (sc_name d)) syscalls)"
  by (simp add: name_key_def syscalls_def SYSCALL_def)

lemma length_syscalls: "length syscalls = 385"
  by (simp add: syscalls_def)

text \<open>What the other components rely on in one descriptor.\<close>

definition descriptor_ok :: "sg_syscall_descriptor \<Rightarrow> bool" where
  "descriptor_ok d \<longleftrightarrow>
     0 \<le> sc_number d \<and> sc_number d < 512 \<and> sc_arity d \<le> 6 \<and>
     length (sc_arguments d) = 6 \<and>
     list_all (\<lambda>a. auxiliary a < 6 \<and> kind a \<noteq> SG_ARGUMENT_KIND_COUNT) (sc_arguments d) \<and>
     sc_result_kind d \<noteq> SG_RESULT_KIND_COUNT \<and>
     sc_name d \<noteq> [] \<and> length (sc_name d) < 128 \<and>
     list_all (\<lambda>c. c \<noteq> NUL \<and> c \<noteq> CHR '','' \<and> c \<noteq> CHR ''!'' \<and> c \<noteq> CHR ''%'') (sc_name d)"

lemma syscalls_ok: "list_all descriptor_ok syscalls"
  by code_simp

lemma syscalls_okD: "d \<in> set syscalls \<Longrightarrow> descriptor_ok d"
  using syscalls_ok by (simp add: list_all_iff)

lemma syscalls_sorted: "sorted_wrt (<) (map sc_number syscalls)"
  by (rule increasing_sorted_wrt [OF syscalls_numbers_increasing])

lemma syscalls_names_distinct: "distinct (map sc_name syscalls)"
proof -
  have "distinct (map name_key (map sc_name syscalls))"
    using syscalls_keys_distinct by (simp add: comp_def)
  then show ?thesis by (simp only: distinct_map)
qed

end
