(* ===== verification/Catalog.thy ===== *)
theory Catalog
  imports Catalog_Data
begin

text \<open>
  The lookups of \<open>src/syscall_catalog.c\<close> over the table \<open>syscalls\<close>: by name (linear), by number
  (binary search), the number of arguments, and the class names. The well-formedness of the
  table is established by evaluation; the binary search is proved equivalent to a linear scan
  for every strictly increasing table, so in particular for this one.
\<close>

section \<open>Lookups\<close>

definition sg_syscall_catalog :: "sg_syscall_descriptor list \<times> nat" where
  "sg_syscall_catalog = (syscalls, length syscalls)"

fun find_name :: "sg_syscall_descriptor list \<Rightarrow> string \<Rightarrow> sg_syscall_descriptor option" where
  "find_name [] name = None"
| "find_name (d # ds) name = (if sc_name d = name then Some d else find_name ds name)"

definition sg_syscall_by_name :: "string option \<Rightarrow> sg_syscall_descriptor option" where
  "sg_syscall_by_name name =
     (case name of None \<Rightarrow> None | Some n \<Rightarrow> find_name syscalls (c_str n))"

function lower_bound :: "sg_syscall_descriptor list \<Rightarrow> int \<Rightarrow> nat \<Rightarrow> nat \<Rightarrow> nat" where
  "lower_bound table number left right =
     (if left < right
      then let middle = left + (right - left) div 2
        in if sc_number (table ! middle) < number
           then lower_bound table number (middle + 1) right
           else lower_bound table number left middle
      else left)"
  by pat_completeness auto
termination
  by (relation "measure (\<lambda>(table, number, left, right). right - left)") auto

declare lower_bound.simps [simp del]

definition sg_syscall_by_number :: "int \<Rightarrow> sg_syscall_descriptor option" where
  "sg_syscall_by_number number =
     (if number < 0 \<or> int SG_SYSCALL_LIMIT \<le> number then None
      else let left = lower_bound syscalls number 0 (length syscalls)
        in if left < length syscalls \<and> sc_number (syscalls ! left) = number
           then Some (syscalls ! left) else None)"

definition sg_syscall_name_count :: nat where
  "sg_syscall_name_count = length syscalls"

definition sg_syscall_name_max_number :: int where
  "sg_syscall_name_max_number =
     (if length syscalls = 0 then - 1 else sc_number (syscalls ! (length syscalls - 1)))"

definition sg_syscall_argument_count :: "int \<Rightarrow> nat" where
  "sg_syscall_argument_count number =
     (case sg_syscall_by_number number of None \<Rightarrow> 6 | Some d \<Rightarrow> sc_arity d)"

definition class_names :: "string list" where
  "class_names = [''file'', ''process'', ''memory'', ''network'', ''signal'', ''ipc'']"

definition sg_syscall_class_name :: "nat \<Rightarrow> string option" where
  "sg_syscall_class_name class_bit =
     (if class_bit < length class_names then Some (class_names ! class_bit) else None)"

text \<open>\<open>sg_syscall_class_by_name\<close>: the loop over the six bits, from \<open>bit\<close> on.\<close>

function class_by_name_from :: "nat \<Rightarrow> string \<Rightarrow> u32 option" where
  "class_by_name_from class_bit name =
     (if class_bit < 6
      then (if sg_syscall_class_name class_bit = Some name then Some (push_bit class_bit 1)
            else class_by_name_from (class_bit + 1) name)
      else None)"
  by pat_completeness auto
termination
  by (relation "measure (\<lambda>(class_bit, name). 6 - class_bit)") auto

declare class_by_name_from.simps [simp del]

definition sg_syscall_class_by_name :: "string option \<Rightarrow> u32 option" where
  "sg_syscall_class_by_name name =
     (case name of None \<Rightarrow> None | Some n \<Rightarrow> class_by_name_from 0 (c_str n))"

section \<open>The binary search\<close>

lemma sorted_numbers_mono:
  assumes "sorted_wrt (<) (map sc_number table)" and "i \<le> j" and "j < length table"
  shows "sc_number (table ! i) \<le> sc_number (table ! j)"
proof (cases "i = j")
  case False
  with assms(2) have "i < j" by simp
  from sorted_wrt_nth_less [OF assms(1) this] \<open>i < j\<close> assms(3) show ?thesis by simp
qed simp

lemma lower_bound_correct:
  assumes "sorted_wrt (<) (map sc_number table)" and "left \<le> right" and "right \<le> length table"
    and "\<And>i. i < left \<Longrightarrow> sc_number (table ! i) < number"
    and "\<And>i. right \<le> i \<Longrightarrow> i < length table \<Longrightarrow> number \<le> sc_number (table ! i)"
  shows "lower_bound table number left right \<le> length table \<and>
     (\<forall>i < lower_bound table number left right. sc_number (table ! i) < number) \<and>
     (\<forall>i. lower_bound table number left right \<le> i \<longrightarrow> i < length table \<longrightarrow>
        number \<le> sc_number (table ! i))"
  using assms
proof (induction table number left right rule: lower_bound.induct)
  case (1 table number left right)
  note mono = sorted_numbers_mono [OF "1.prems"(1)]
  show ?case
  proof (cases "left < right")
    case True
    define middle where "middle = left + (right - left) div 2"
    have m: "left \<le> middle" "middle < right" using True by (auto simp: middle_def)
    show ?thesis
    proof (cases "sc_number (table ! middle) < number")
      case less: True
      have below: "sc_number (table ! i) < number" if "i < middle + 1" for i
      proof -
        have "i \<le> middle" "middle < length table" using that m "1.prems"(3) by auto
        with mono [of i middle] less show ?thesis by simp
      qed
      have eq: "lower_bound table number left right = lower_bound table number (middle + 1) right"
        using True less by (simp add: lower_bound.simps [of table number left] middle_def)
      show ?thesis
        unfolding eq using m "1.prems"
        by (intro "1.IH"(1) [OF True middle_def less] below) auto
    next
      case ge: False
      have above: "number \<le> sc_number (table ! i)" if "middle \<le> i" "i < length table" for i
        using mono [OF that] ge by simp
      have eq: "lower_bound table number left right = lower_bound table number left middle"
        using True ge by (simp add: lower_bound.simps [of table number left] middle_def)
      show ?thesis
        unfolding eq using m "1.prems"
        by (intro "1.IH"(2) [OF True middle_def ge] above) auto
    qed
  next
    case False
    then have "lower_bound table number left right = left"
      by (simp add: lower_bound.simps [of table number left])
    with False "1.prems" show ?thesis by simp
  qed
qed

text \<open>The reference: a scan of the table from its start.\<close>

definition find_number :: "int \<Rightarrow> sg_syscall_descriptor option" where
  "find_number number = find (\<lambda>d. sc_number d = number) syscalls"

lemma sorted_index_unique:
  assumes "sorted_wrt (<) (map sc_number table)" and "i < length table" and "j < length table"
    and "sc_number (table ! i) = sc_number (table ! j)"
  shows "i = j"
  using assms by (metis length_map less_irrefl linorder_neqE_nat nth_map sorted_wrt_nth_less)

lemma sg_syscall_by_number_Some_iff:
  "sg_syscall_by_number number = Some d \<longleftrightarrow> d \<in> set syscalls \<and> sc_number d = number"
proof
  assume "sg_syscall_by_number number = Some d"
  then obtain i where "i < length syscalls" "syscalls ! i = d" "sc_number d = number"
    by (auto simp: sg_syscall_by_number_def Let_def split: if_splits)
  then show "d \<in> set syscalls \<and> sc_number d = number" by auto
next
  assume d: "d \<in> set syscalls \<and> sc_number d = number"
  then obtain i where i: "i < length syscalls" "syscalls ! i = d" by (auto simp: in_set_conv_nth)
  let ?l = "lower_bound syscalls number 0 (length syscalls)"
  from lower_bound_correct [OF syscalls_sorted, of 0 "length syscalls" number]
  have l: "?l \<le> length syscalls" "\<forall>i < ?l. sc_number (syscalls ! i) < number"
      "\<forall>i. ?l \<le> i \<longrightarrow> i < length syscalls \<longrightarrow> number \<le> sc_number (syscalls ! i)"
    by simp_all
  have "?l \<le> i" using l(2) i d by (metis not_le order_less_irrefl)
  then have "?l < length syscalls" using i by simp
  moreover have "sc_number (syscalls ! ?l) = number"
  proof (rule antisym)
    show "number \<le> sc_number (syscalls ! ?l)" using l(3) \<open>?l < length syscalls\<close> by simp
    show "sc_number (syscalls ! ?l) \<le> number"
      using sorted_numbers_mono [OF syscalls_sorted \<open>?l \<le> i\<close>] i d by simp
  qed
  ultimately have "?l = i"
    using sorted_index_unique [OF syscalls_sorted] i d by metis
  moreover have "0 \<le> number" "number < 512"
    using syscalls_okD [of d] d by (auto simp: descriptor_ok_def)
  ultimately show "sg_syscall_by_number number = Some d"
    using i d by (simp add: sg_syscall_by_number_def SG_SYSCALL_LIMIT_def Let_def)
qed

lemma find_name_Some_iff:
  "distinct (map sc_name ds) \<Longrightarrow> find_name ds name = Some d \<longleftrightarrow> d \<in> set ds \<and> sc_name d = name"
  by (induction ds) auto

lemma find_name_None_iff: "find_name ds name = None \<longleftrightarrow> name \<notin> sc_name ` set ds"
  by (induction ds) auto

lemma sg_syscall_by_name_Some_iff:
  "sg_syscall_by_name (Some name) = Some d \<longleftrightarrow> d \<in> set syscalls \<and> sc_name d = c_str name"
  by (simp add: sg_syscall_by_name_def find_name_Some_iff [OF syscalls_names_distinct])

lemma sg_syscall_by_name_None_iff:
  "sg_syscall_by_name (Some name) = None \<longleftrightarrow> c_str name \<notin> sc_name ` set syscalls"
  by (simp add: sg_syscall_by_name_def find_name_None_iff)

lemma sc_name_c_str: "d \<in> set syscalls \<Longrightarrow> c_str (sc_name d) = sc_name d"
  using syscalls_okD [of d] by (intro c_str_id) (auto simp: descriptor_ok_def list_all_iff)

section \<open>Classes\<close>

lemma class_by_name_from_iff:
  "class_by_name_from k name = Some m \<longleftrightarrow>
     (\<exists>i. k \<le> i \<and> i < 6 \<and> name = class_names ! i \<and> m = push_bit i 1 \<and>
          (\<forall>j. k \<le> j \<longrightarrow> j < i \<longrightarrow> class_names ! j \<noteq> name))"
proof (induction k name rule: class_by_name_from.induct)
  case (1 k name)
  show ?case
  proof (cases "k < 6")
    case True
    then have n: "sg_syscall_class_name k = Some (class_names ! k)"
      by (simp add: sg_syscall_class_name_def class_names_def)
    show ?thesis
    proof (cases "class_names ! k = name")
      case True
      with n \<open>k < 6\<close> show ?thesis
        by (subst class_by_name_from.simps) (auto simp: le_eq_less_or_eq)
    next
      case False
      have ge: "k \<le> i \<longleftrightarrow> i = k \<or> k + 1 \<le> i" for i by auto
      from 1 [OF True] False n have "class_by_name_from k name = Some m \<longleftrightarrow>
          (\<exists>i. k + 1 \<le> i \<and> i < 6 \<and> name = class_names ! i \<and> m = push_bit i 1 \<and>
            (\<forall>j. k + 1 \<le> j \<longrightarrow> j < i \<longrightarrow> class_names ! j \<noteq> name))"
        using True by (subst class_by_name_from.simps) simp
      with False show ?thesis unfolding ge [of _] by (metis ge)
    qed
  next
    case False
    then show ?thesis by (subst class_by_name_from.simps) auto
  qed
qed

lemma class_names_distinct: "distinct class_names"
  by (simp add: class_names_def)

lemma sg_syscall_class_by_name_iff:
  "sg_syscall_class_by_name (Some name) = Some m \<longleftrightarrow>
     (\<exists>i < 6. c_str name = class_names ! i \<and> m = push_bit i 1)"
proof -
  have "class_names ! j \<noteq> class_names ! i" if "j < i" "i < 6" for i j
    using class_names_distinct that by (subst nth_eq_iff_index_eq) (auto simp: class_names_def)
  then show ?thesis
    by (auto simp: sg_syscall_class_by_name_def class_by_name_from_iff)
qed

section \<open>The lookup interface\<close>

text \<open>
  What the filter, the statistics and the renderers rely on: a lookup by number and a lookup by
  name over one table, in which every entry is found under its own number and name.
\<close>

locale syscall_lookup =
  fixes table :: "sg_syscall_descriptor list"
    and by_number :: "int \<Rightarrow> sg_syscall_descriptor option"
    and by_name :: "string \<Rightarrow> sg_syscall_descriptor option"
  assumes by_number_iff: "by_number n = Some d \<longleftrightarrow> d \<in> set table \<and> sc_number d = n"
    and by_name_iff: "NUL \<notin> set s \<Longrightarrow> by_name s = Some d \<longleftrightarrow> d \<in> set table \<and> sc_name d = s"
    and names_printable: "d \<in> set table \<Longrightarrow> NUL \<notin> set (sc_name d)"
begin

lemma number_name_roundtrip:
  "by_number n = Some d \<Longrightarrow> by_name (sc_name d) = Some d"
  using by_number_iff by_name_iff names_printable by blast

lemma name_number_roundtrip:
  "NUL \<notin> set s \<Longrightarrow> by_name s = Some d \<Longrightarrow> by_number (sc_number d) = Some d"
  by (simp add: by_number_iff by_name_iff)

lemma by_number_None_iff: "by_number n = None \<longleftrightarrow> n \<notin> sc_number ` set table"
  by (metis (mono_tags, lifting) by_number_iff image_iff not_None_eq)

lemma numbers_inj: "d \<in> set table \<Longrightarrow> e \<in> set table \<Longrightarrow> sc_number d = sc_number e \<Longrightarrow> d = e"
  by (metis by_number_iff option.inject)

lemma names_inj: "d \<in> set table \<Longrightarrow> e \<in> set table \<Longrightarrow> sc_name d = sc_name e \<Longrightarrow> d = e"
  by (metis by_name_iff names_printable option.inject)

lemma by_number_eq_find: "by_number n = find (\<lambda>d. sc_number d = n) table"
proof (cases "find (\<lambda>d. sc_number d = n) table")
  case None
  then have "n \<notin> sc_number ` set table" by (auto simp: find_None_iff)
  with None show ?thesis by (simp add: by_number_None_iff)
next
  case (Some d)
  then have "d \<in> set table \<and> sc_number d = n" by (auto simp: find_Some_iff)
  with Some show ?thesis by (simp add: by_number_iff)
qed

end

interpretation catalog: syscall_lookup syscalls sg_syscall_by_number "\<lambda>s. sg_syscall_by_name (Some s)"
proof
  show "sg_syscall_by_number n = Some d \<longleftrightarrow> d \<in> set syscalls \<and> sc_number d = n" for n d
    by (rule sg_syscall_by_number_Some_iff)
  show "sg_syscall_by_name (Some s) = Some d \<longleftrightarrow> d \<in> set syscalls \<and> sc_name d = s"
    if "NUL \<notin> set s" for s d
    using that by (simp add: sg_syscall_by_name_Some_iff)
  show "NUL \<notin> set (sc_name d)" if "d \<in> set syscalls" for d
    using syscalls_okD [OF that] by (auto simp: descriptor_ok_def list_all_iff)
qed

section \<open>Properties\<close>

text \<open>
  C14. The binary search of \<open>sg_syscall_by_number\<close> returns, for every number (negative and
  out-of-range ones included), exactly what a scan of the whole table would return: the entry
  with this number, or nothing when the table has none.
\<close>

theorem by_number_is_linear_scan: "sg_syscall_by_number number = find_number number"
  unfolding find_number_def by (rule catalog.by_number_eq_find)

text \<open>
  C18. Names and numbers identify the same entries: a syscall found by its number is found again
  by its name, a syscall found by name is found again by its number, and its argument count is
  the arity of the entry, at most six.
\<close>

theorem catalog_roundtrip:
  "(sg_syscall_by_number n = Some d \<longrightarrow> sg_syscall_by_name (Some (sc_name d)) = Some d) \<and>
   (sg_syscall_by_name (Some s) = Some d \<longrightarrow> sg_syscall_by_number (sc_number d) = Some d \<and>
      sg_syscall_argument_count (sc_number d) = sc_arity d) \<and>
   sg_syscall_argument_count n \<le> 6"
proof (intro conjI impI)
  show "sg_syscall_by_name (Some (sc_name d)) = Some d" if "sg_syscall_by_number n = Some d"
    using that by (rule catalog.number_name_roundtrip)
  show "sg_syscall_by_number (sc_number d) = Some d" if "sg_syscall_by_name (Some s) = Some d"
    using that by (simp add: sg_syscall_by_name_Some_iff sg_syscall_by_number_Some_iff)
  then show "sg_syscall_argument_count (sc_number d) = sc_arity d"
    if "sg_syscall_by_name (Some s) = Some d"
    using that by (simp add: sg_syscall_argument_count_def)
  show "sg_syscall_argument_count n \<le> 6"
    using syscalls_okD sg_syscall_by_number_Some_iff
    by (fastforce simp: sg_syscall_argument_count_def descriptor_ok_def split: option.split)
qed

theorem catalog_roundtrip_witness:
  "\<exists>d. sg_syscall_by_name (Some ''execve'') = Some d \<and>
     sg_syscall_by_number (sc_number d) = Some d \<and> sc_number d = 59 \<and>
     sg_syscall_argument_count (sc_number d) = 3"
proof -
  define d where "d = SYSCALL 59 ''execve'' 3 (SG_CLASS_PROCESS OR SG_CLASS_FILE) RESULT_INTEGER
      [ARG ARG_STRING, ARG ARG_ARGV, ARG ARG_POINTER]"
  have "d \<in> set syscalls" by (simp add: d_def syscalls_def)
  then have "sg_syscall_by_name (Some ''execve'') = Some d"
    by (simp add: sg_syscall_by_name_Some_iff d_def SYSCALL_def c_str_def)
  with catalog_roundtrip [of 59 d "''execve''"] show ?thesis
    by (auto simp: d_def SYSCALL_def)
qed

end
