(* ===== verification/Syscall_Filter.thy ===== *)
theory Syscall_Filter
  imports Catalog
begin

text \<open>
  The syscall selection of \<open>src/filter.c\<close>: a bitmap of 512 syscall numbers in eight 64-bit words
  with the parser for \<open>-e trace=EXPR\<close>. The abstract view of a flt is the set of the numbers
  it contains (\<open>filter_set\<close>); every operation is related to an operation on sets, and the
  parser to the left-to-right evaluation of its terms.
\<close>

section \<open>The bitmap\<close>

definition SG_FILTER_WORD_BITS :: nat where "SG_FILTER_WORD_BITS = 64"
definition SG_FILTER_WORDS :: nat where "SG_FILTER_WORDS = SG_SYSCALL_LIMIT div SG_FILTER_WORD_BITS"

record sg_filter =
  words :: "u64 list"
  active :: bool

definition set_number :: "sg_filter \<Rightarrow> int \<Rightarrow> bool \<Rightarrow> sg_filter" where
  "set_number flt number enabled =
     (if number < 0 \<or> int SG_SYSCALL_LIMIT \<le> number then flt
      else let index = nat number div SG_FILTER_WORD_BITS;
               offset = nat number mod SG_FILTER_WORD_BITS;
               mask = push_bit offset 1
        in if enabled
           then flt\<lparr>words := (words flt)[index := words flt ! index OR mask]\<rparr>
           else flt\<lparr>words := (words flt)[index := words flt ! index AND NOT mask]\<rparr>)"

definition sg_filter_clear :: "sg_filter \<Rightarrow> sg_filter" where
  "sg_filter_clear flt = flt\<lparr>words := replicate SG_FILTER_WORDS 0, active := False\<rparr>"

definition sg_filter_fill :: "sg_filter \<Rightarrow> sg_filter" where
  "sg_filter_fill flt =
     flt\<lparr>words := replicate SG_FILTER_WORDS UINT64_MAX, active := True\<rparr>"

definition sg_filter_contains :: "sg_filter \<Rightarrow> int \<Rightarrow> bool" where
  "sg_filter_contains flt syscall_number =
     (if syscall_number < 0 \<or> int SG_SYSCALL_LIMIT \<le> syscall_number then False
      else let index = nat syscall_number div SG_FILTER_WORD_BITS;
               offset = nat syscall_number mod SG_FILTER_WORD_BITS
        in words flt ! index AND push_bit offset 1 \<noteq> 0)"

text \<open>The inner loop of \<open>sg_filter_count\<close>: clear the lowest set bit until none is left.\<close>

lemma word_and_minus_1_less: "w \<noteq> 0 \<Longrightarrow> unat (w AND (w - 1)) < unat w" for w :: "'a::len word"
proof -
  assume "w \<noteq> 0"
  have "w AND (w - 1) \<le> w - 1" by (rule word_and_le1)
  then have "unat (w AND (w - 1)) \<le> unat (w - 1)" by (simp add: word_le_nat_alt)
  also have "unat (w - 1) = unat w - 1" using \<open>w \<noteq> 0\<close> by (rule unat_minus_one)
  also have "\<dots> < unat w" using \<open>w \<noteq> 0\<close> by (simp add: unat_gt_0)
  finally show ?thesis .
qed

function count_bits :: "u64 \<Rightarrow> nat \<Rightarrow> nat" where
  "count_bits word acc =
     (if word \<noteq> 0 then count_bits (word AND (word - 1)) (acc + 1) else acc)"
  by pat_completeness auto
termination
  by (relation "measure (\<lambda>(word, acc). unat word)") (auto simp: word_and_minus_1_less)

declare count_bits.simps [simp del]

fun count_words :: "u64 list \<Rightarrow> nat \<Rightarrow> nat" where
  "count_words [] acc = acc"
| "count_words (w # ws) acc = count_words ws (count_bits w acc)"

definition sg_filter_count :: "sg_filter \<Rightarrow> nat" where
  "sg_filter_count flt = count_words (words flt) 0"

text \<open>\<open>apply_class\<close>: every catalog entry that has a bit of the mask.\<close>

fun apply_class_rows :: "sg_filter \<Rightarrow> u32 \<Rightarrow> bool \<Rightarrow> sg_syscall_descriptor list \<Rightarrow> sg_filter" where
  "apply_class_rows flt class_mask enabled [] = flt"
| "apply_class_rows flt class_mask enabled (d # ds) =
     apply_class_rows
       (if sc_classes d AND class_mask \<noteq> 0 then set_number flt (sc_number d) enabled else flt)
       class_mask enabled ds"

definition apply_class :: "sg_filter \<Rightarrow> u32 \<Rightarrow> bool \<Rightarrow> sg_filter" where
  "apply_class flt class_mask enabled =
     apply_class_rows flt class_mask enabled (fst sg_syscall_catalog)"

section \<open>The parser\<close>

datatype filter_error =
    Filter_Missing | Filter_Prefix | Filter_Empty | Filter_Empty_Term | Filter_Term_Too_Long
  | Unknown_Class string | Unknown_Syscall string

text \<open>The cursor is the rest of the expression; its end is the terminating NUL.\<close>

function has_positive_term :: "string \<Rightarrow> bool" where
  "has_positive_term [] = False"
| "has_positive_term (c # cs) =
     (if c \<noteq> CHR ''!'' \<and> c \<noteq> CHR '','' then True
      else case dropWhile (\<lambda>x. x \<noteq> CHR '','') (c # cs) of
             [] \<Rightarrow> False
           | comma # rest \<Rightarrow> has_positive_term rest)"
  by pat_completeness auto
termination
proof (relation "measure length", simp)
  fix c :: char and cs comma rest
  assume "dropWhile (\<lambda>x. x \<noteq> CHR '','') (c # cs) = comma # rest"
  then have "length (comma # rest) \<le> length (c # cs)" by (metis length_dropWhile_le)
  then show "(rest, c # cs) \<in> measure length" by simp
qed

text \<open>One term: the optional \<open>!\<close>, the length checks, then a class or a syscall name.\<close>

definition apply_term :: "sg_filter \<Rightarrow> string \<Rightarrow> filter_error + sg_filter" where
  "apply_term candidate text =
     (let enabled = (case text of [] \<Rightarrow> True | c # _ \<Rightarrow> c \<noteq> CHR ''!'');
          name = (if enabled then text else tl text)
      in if length name = 0 then Inl Filter_Empty_Term
         else if 128 \<le> length name then Inl Filter_Term_Too_Long
         else if hd name = CHR ''%''
           then (case sg_syscall_class_by_name (Some (tl name)) of
                   None \<Rightarrow> Inl (Unknown_Class name)
                 | Some class_mask \<Rightarrow> Inr (apply_class candidate class_mask enabled))
         else (case sg_syscall_by_name (Some name) of
                 None \<Rightarrow> Inl (Unknown_Syscall name)
               | Some descriptor \<Rightarrow> Inr (set_number candidate (sc_number descriptor) enabled)))"

text \<open>The loop of \<open>sg_filter_parse\<close> over the terms, with the cursor at the start of one.\<close>

function parse_terms :: "sg_filter \<Rightarrow> string \<Rightarrow> filter_error + sg_filter" where
  "parse_terms candidate cursor =
     (if cursor = [] then Inr candidate
      else case apply_term candidate (takeWhile (\<lambda>x. x \<noteq> CHR '','') cursor) of
             Inl e \<Rightarrow> Inl e
           | Inr candidate' \<Rightarrow>
               (case dropWhile (\<lambda>x. x \<noteq> CHR '','') cursor of
                  [] \<Rightarrow> Inr candidate'
                | comma # rest \<Rightarrow>
                    if rest = [] then Inl Filter_Empty_Term else parse_terms candidate' rest))"
  by pat_completeness auto
termination
proof (relation "measure (length \<circ> snd)", simp)
  fix candidate candidate' :: sg_filter and cursor :: string and comma rest
  assume "dropWhile (\<lambda>x. x \<noteq> CHR '','') cursor = comma # rest"
  then have "length (comma # rest) \<le> length cursor" by (metis length_dropWhile_le)
  then show "((candidate', rest), (candidate, cursor)) \<in> measure (length \<circ> snd)" by simp
qed

declare parse_terms.simps [simp del]

text \<open>
  \<open>sg_filter_parse\<close>: the destination and the specification may be null pointers. The result is
  the error, or unit, and the destination afterwards.
\<close>

definition sg_filter_parse ::
    "sg_filter option \<Rightarrow> string option \<Rightarrow> (filter_error + unit) \<times> sg_filter option" where
  "sg_filter_parse flt spec =
     (case (flt, spec) of
        (Some f, Some s) \<Rightarrow>
          (let s = c_str s; expression = drop 6 s
           in if take 6 s \<noteq> ''trace='' then (Inl Filter_Prefix, flt)
              else if expression = [] then (Inl Filter_Empty, flt)
              else let empty = \<lparr>words = replicate SG_FILTER_WORDS 0, active = False\<rparr>;
                       candidate = (if has_positive_term expression
                         then (sg_filter_clear empty)\<lparr>active := True\<rparr> else sg_filter_fill empty)
                in case parse_terms candidate expression of
                     Inl e \<Rightarrow> (Inl e, flt)
                   | Inr candidate' \<Rightarrow> (Inr (), Some candidate'))
      | _ \<Rightarrow> (Inl Filter_Missing, flt))"

section \<open>Filters as sets\<close>

definition filter_wf :: "sg_filter \<Rightarrow> bool" where
  "filter_wf f \<longleftrightarrow> length (words f) = SG_FILTER_WORDS"

definition filter_set :: "sg_filter \<Rightarrow> int set" where
  "filter_set f = {n. sg_filter_contains f n}"

abbreviation all_numbers :: "int set" where
  "all_numbers \<equiv> {0..<512}"

lemmas filter_consts = SG_SYSCALL_LIMIT_def SG_FILTER_WORD_BITS_def SG_FILTER_WORDS_def

lemma contains_iff_bit:
  "sg_filter_contains f n \<longleftrightarrow>
     0 \<le> n \<and> n < 512 \<and> bit (words f ! (nat n div 64)) (nat n mod 64)"
  by (auto simp: sg_filter_contains_def filter_consts Let_def push_bit_eq_mult
      and_exp_eq_0_iff_not_bit)

lemma filter_set_bounds: "filter_set f \<subseteq> all_numbers"
  by (auto simp: filter_set_def contains_iff_bit)

lemma filter_wf_set_number [simp]: "filter_wf (set_number f n e) = filter_wf f"
  by (simp add: set_number_def filter_wf_def Let_def)

lemma filter_active_update [simp]:
  "filter_wf (f\<lparr>active := e\<rparr>) = filter_wf f" "filter_set (f\<lparr>active := e\<rparr>) = filter_set f"
  by (simp_all add: filter_wf_def filter_set_def sg_filter_contains_def)

lemma active_set_number [simp]: "active (set_number f n e) = active f"
  by (simp add: set_number_def Let_def)

lemma same_bit_position: "(m div 64 = n div 64 \<and> m mod 64 = n mod 64) \<longleftrightarrow> m = n" for m n :: nat
  by (metis div_mult_mod_eq)

lemma filter_set_set_number:
  assumes "filter_wf f" and "n \<in> all_numbers"
  shows "filter_set (set_number f n e) = (if e then insert n (filter_set f) else filter_set f - {n})"
proof -
  have len: "length (words f) = 8" using assms(1) by (simp add: filter_wf_def filter_consts)
  have idx: "nat n div 64 < 8" using assms(2) by auto
  have "sg_filter_contains (set_number f n e) m \<longleftrightarrow>
      (if m = n then e else sg_filter_contains f m)" for m
  proof (cases "m \<in> all_numbers")
    case True
    have "m = n \<longleftrightarrow> nat m div 64 = nat n div 64 \<and> nat m mod 64 = nat n mod 64"
      using True assms(2) by (auto simp: same_bit_position)
    with True assms(2) len idx show ?thesis
      by (cases "nat m div 64 = nat n div 64")
        (auto simp: contains_iff_bit set_number_def filter_consts Let_def bit_simps)
  next
    case False
    with assms(2) show ?thesis by (auto simp: contains_iff_bit)
  qed
  with assms(2) show ?thesis by (auto simp: filter_set_def)
qed

lemma filter_clear [simp]:
  "filter_wf (sg_filter_clear f)" "filter_set (sg_filter_clear f) = {}" "\<not> active (sg_filter_clear f)"
  by (auto simp: sg_filter_clear_def filter_wf_def filter_set_def contains_iff_bit filter_consts)

lemma bit_UINT64_MAX: "i < 64 \<Longrightarrow> bit (18446744073709551615 :: int) i"
proof -
  have "(18446744073709551615 :: int) = mask 64" by (simp add: mask_eq_exp_minus_1)
  then show "i < 64 \<Longrightarrow> bit (18446744073709551615 :: int) i" by (simp only: bit_mask_iff) simp
qed

lemma filter_fill [simp]:
  "filter_wf (sg_filter_fill f)" "filter_set (sg_filter_fill f) = all_numbers"
  "active (sg_filter_fill f)"
  by (auto simp: sg_filter_fill_def filter_wf_def filter_set_def contains_iff_bit filter_consts
      bit_UINT64_MAX)

section \<open>Counting the set bits\<close>

lemma clear_lowest_bit:
  "0 < n \<Longrightarrow> \<exists>k. bit n k \<and> (\<forall>i. bit (n AND (n - 1)) i \<longleftrightarrow> bit n i \<and> i \<noteq> k)" for n :: nat
proof (induction n rule: less_induct)
  case (less n)
  show ?case
  proof (cases "odd n")
    case True
    then have "bit n 0" by (simp add: bit_0)
    moreover have "bit (n AND (n - 1)) i \<longleftrightarrow> bit n i \<and> i \<noteq> 0" for i
    proof (cases i)
      case (Suc j)
      have "(n - 1) div 2 = n div 2" using True by presburger
      with Suc show ?thesis unfolding bit_and_iff by (simp add: bit_Suc)
    qed (use True in \<open>simp add: bit_0 even_and_iff\<close>)
    ultimately show ?thesis by blast
  next
    case False
    then have half: "n div 2 < n" "0 < n div 2" and pred: "(n - 1) div 2 = n div 2 - 1"
      using less.prems by (auto elim!: evenE)
    from less.IH [OF half] obtain k where k: "bit (n div 2) k"
        "\<forall>i. bit (n div 2 AND (n div 2 - 1)) i \<longleftrightarrow> bit (n div 2) i \<and> i \<noteq> k" by blast
    have "bit (n AND (n - 1)) i \<longleftrightarrow> bit n i \<and> i \<noteq> Suc k" for i
    proof (cases i)
      case 0
      with False show ?thesis by (simp add: bit_0 even_and_iff)
    next
      case (Suc j)
      with k(2) [THEN spec, of j] pred show ?thesis unfolding bit_and_iff by (simp add: bit_Suc)
    qed
    moreover have "bit n (Suc k)" using k(1) by (simp add: bit_Suc)
    ultimately show ?thesis by blast
  qed
qed

lemma clear_lowest_bit_word:
  fixes w :: u64
  assumes "w \<noteq> 0"
  shows "\<exists>k. bit w k \<and> (\<forall>i. bit (w AND (w - 1)) i \<longleftrightarrow> bit w i \<and> i \<noteq> k)"
proof -
  have "0 < unat w" using assms by (simp add: unat_gt_0)
  then obtain k where k: "bit (unat w) k"
      "\<forall>i. bit (unat w AND (unat w - 1)) i \<longleftrightarrow> bit (unat w) i \<and> i \<noteq> k"
    using clear_lowest_bit by blast
  have "unat (w AND (w - 1)) = unat w AND (unat w - 1)"
    using assms by (simp add: unsigned_and_eq unat_minus_one)
  moreover have "bit (unat v) i \<longleftrightarrow> bit v i" for v :: u64 and i
    by (simp add: bit_unsigned_iff)
  ultimately show ?thesis using k by metis
qed

definition bits_of :: "u64 \<Rightarrow> nat set" where
  "bits_of w = {i. bit w i}"

lemma finite_bits_of [simp]: "finite (bits_of w)"
  by (rule finite_subset [of _ "{..<64}"]) (auto simp: bits_of_def dest: bit_imp_le_length)

lemma count_bits_card: "count_bits w n = n + card (bits_of w)"
proof (induction w n rule: count_bits.induct)
  case (1 w n)
  show ?case
  proof (cases "w = 0")
    case True
    then show ?thesis by (subst count_bits.simps) (simp add: bits_of_def)
  next
    case False
    then obtain k where k: "bit w k" "\<forall>i. bit (w AND (w - 1)) i \<longleftrightarrow> bit w i \<and> i \<noteq> k"
      using clear_lowest_bit_word by blast
    then have "bits_of (w AND (w - 1)) = bits_of w - {k}" "k \<in> bits_of w"
      by (auto simp: bits_of_def)
    then have "Suc (card (bits_of (w AND (w - 1)))) = card (bits_of w)"
      by (metis card.remove finite_bits_of)
    with 1 [OF False] False show ?thesis by (simp add: count_bits.simps [of w n])
  qed
qed

lemma count_words_sum: "count_words ws n = n + (\<Sum>w\<leftarrow>ws. card (bits_of w))"
  by (induction ws n rule: count_words.induct) (auto simp: count_bits_card)

lemma filter_set_image:
  assumes "filter_wf f"
  shows "filter_set f =
    (\<lambda>(k, i). int (64 * k + i)) ` (SIGMA k : {..<8}. bits_of (words f ! k))"
proof (intro equalityI subsetI)
  fix n assume "n \<in> filter_set f"
  then have n: "0 \<le> n" "n < 512" "bit (words f ! (nat n div 64)) (nat n mod 64)"
    by (auto simp: filter_set_def contains_iff_bit)
  from n(1) have "n = (\<lambda>(k, i). int (64 * k + i)) (nat n div 64, nat n mod 64)"
    by (simp only: prod.case mult_div_mod_eq int_nat_eq if_True)
  moreover from n have "(nat n div 64, nat n mod 64) \<in> (SIGMA k : {..<8}. bits_of (words f ! k))"
    by (auto simp: bits_of_def)
  ultimately show "n \<in> (\<lambda>(k, i). int (64 * k + i)) ` (SIGMA k : {..<8}. bits_of (words f ! k))"
    by (rule image_eqI)
next
  fix n assume "n \<in> (\<lambda>(k, i). int (64 * k + i)) ` (SIGMA k : {..<8}. bits_of (words f ! k))"
  then obtain k i where ki: "n = int (64 * k + i)" "k < 8" "bit (words f ! k) i"
    by (auto simp: bits_of_def)
  from ki(3) have "i < 64" by (auto dest: bit_imp_le_length)
  moreover have "nat n = 64 * k + i" unfolding ki(1) by (rule nat_int)
  ultimately have "nat n div 64 = k" "nat n mod 64 = i" by simp_all
  with ki \<open>i < 64\<close> show "n \<in> filter_set f"
    by (auto simp: filter_set_def contains_iff_bit)
qed

lemma filter_count_card:
  assumes "filter_wf f"
  shows "sg_filter_count f = card (filter_set f)"
proof -
  have inj: "inj_on (\<lambda>(k, i). int (64 * k + i)) (SIGMA k : {..<8}. bits_of (words f ! k))"
  proof (rule inj_onI, clarify)
    fix k i k' i'
    assume "i \<in> bits_of (words f ! k)" "i' \<in> bits_of (words f ! k')"
      and eq: "int (64 * k + i) = int (64 * k' + i')"
    then have "i < 64" "i' < 64" by (auto simp: bits_of_def dest: bit_imp_le_length)
    moreover from eq have "64 * k + i = 64 * k' + i'" by (simp only: of_nat_eq_iff)
    ultimately have "(64 * k + i) div 64 = k" "(64 * k + i) div 64 = k'" by simp_all
    with \<open>64 * k + i = 64 * k' + i'\<close> show "k = k' \<and> i = i'" by simp
  qed
  have len: "length (words f) = 8" using assms by (simp add: filter_wf_def filter_consts)
  have "sg_filter_count f = (\<Sum>w\<leftarrow>words f. card (bits_of w))"
    by (simp add: sg_filter_count_def count_words_sum)
  also have "\<dots> = (\<Sum>k<8. card (bits_of (words f ! k)))"
    using len by (simp add: sum_list_sum_nth atLeast0LessThan)
  also have "\<dots> = card (filter_set f)"
    unfolding filter_set_image [OF assms] card_image [OF inj] by simp
  finally show ?thesis .
qed

section \<open>What an expression denotes\<close>

text \<open>
  The reference semantics works on sets of numbers and on the list of the comma-separated
  terms: a term without \<open>!\<close> adds its numbers, a term with \<open>!\<close> removes them, from left to
  right, and the first bad term is the error.
\<close>

fun split_commas :: "string \<Rightarrow> string list" where
  "split_commas [] = [[]]"
| "split_commas (c # cs) =
     (if c = CHR '','' then [] # split_commas cs
      else (c # hd (split_commas cs)) # tl (split_commas cs))"

definition class_numbers :: "u32 \<Rightarrow> int set" where
  "class_numbers class_mask = sc_number ` {d \<in> set syscalls. sc_classes d AND class_mask \<noteq> 0}"

definition denote_name :: "string \<Rightarrow> filter_error + int set" where
  "denote_name name =
     (if name = [] then Inl Filter_Empty_Term
      else if 128 \<le> length name then Inl Filter_Term_Too_Long
      else if hd name = CHR ''%''
        then (case sg_syscall_class_by_name (Some (tl name)) of
                None \<Rightarrow> Inl (Unknown_Class name) | Some m \<Rightarrow> Inr (class_numbers m))
      else (case sg_syscall_by_name (Some name) of
              None \<Rightarrow> Inl (Unknown_Syscall name) | Some d \<Rightarrow> Inr {sc_number d}))"

definition negated :: "string \<Rightarrow> bool" where
  "negated text \<longleftrightarrow> text \<noteq> [] \<and> hd text = CHR ''!''"

fun denote_terms :: "int set \<Rightarrow> string list \<Rightarrow> filter_error + int set" where
  "denote_terms S [] = Inr S"
| "denote_terms S (t # ts) =
     (case denote_name (if negated t then tl t else t) of
        Inl e \<Rightarrow> Inl e
      | Inr N \<Rightarrow> denote_terms (if negated t then S - N else S \<union> N) ts)"

definition denote_expression :: "string \<Rightarrow> filter_error + int set" where
  "denote_expression expression =
     denote_terms
       (if \<exists>t \<in> set (split_commas expression). t \<noteq> [] \<and> \<not> negated t then {} else all_numbers)
       (split_commas expression)"

subsection \<open>The parser computes the denotation\<close>

lemma split_commas_not_Nil [simp]: "split_commas s \<noteq> []"
  by (cases s) auto

lemma split_commas_step:
  "split_commas s =
     takeWhile (\<lambda>x. x \<noteq> CHR '','') s #
       (case dropWhile (\<lambda>x. x \<noteq> CHR '','') s of [] \<Rightarrow> [] | comma # rest \<Rightarrow> split_commas rest)"
  by (induction s) (auto split: list.splits)

lemma has_positive_term_iff:
  "has_positive_term s \<longleftrightarrow> (\<exists>t \<in> set (split_commas s). t \<noteq> [] \<and> \<not> negated t)"
proof (induction s rule: has_positive_term.induct)
  case 1
  show ?case by simp
next
  case (2 c cs)
  show ?case
  proof (cases "c \<noteq> CHR ''!'' \<and> c \<noteq> CHR '',''")
    case True
    then show ?thesis by (simp add: negated_def)
  next
    case False
    define t where "t = takeWhile (\<lambda>x. x \<noteq> CHR '','') (c # cs)"
    have first: "negated t \<or> t = []" using False by (auto simp: negated_def t_def)
    note unfold = has_positive_term.simps(2) [of c cs] split_commas_step [of "c # cs", folded t_def]
    show ?thesis
    proof (cases "dropWhile (\<lambda>x. x \<noteq> CHR '','') (c # cs)")
      case Nil
      from False first show ?thesis unfolding unfold Nil by auto
    next
      case (Cons comma rest)
      from False first 2 [OF False Cons] show ?thesis unfolding unfold Cons by auto
    qed
  qed
qed

lemma numbers_in_range: "d \<in> set syscalls \<Longrightarrow> sc_number d \<in> all_numbers"
  using syscalls_okD by (auto simp: descriptor_ok_def)

lemma apply_class_rows_correct:
  assumes "filter_wf f" and "set ds \<subseteq> set syscalls"
  shows "filter_wf (apply_class_rows f m e ds) \<and>
     active (apply_class_rows f m e ds) = active f \<and>
     filter_set (apply_class_rows f m e ds) =
       (let N = sc_number ` {d \<in> set ds. sc_classes d AND m \<noteq> 0}
        in if e then filter_set f \<union> N else filter_set f - N)"
  using assms
proof (induction ds arbitrary: f)
  case (Cons d ds)
  from Cons.prems numbers_in_range have d: "sc_number d \<in> all_numbers" by auto
  show ?case
  proof (cases "sc_classes d AND m = 0")
    case True
    then have set: "{x \<in> set (d # ds). sc_classes x AND m \<noteq> 0} =
        {x \<in> set ds. sc_classes x AND m \<noteq> 0}" by auto
    show ?thesis unfolding set using True Cons by simp
  next
    case False
    then have set: "{x \<in> set (d # ds). sc_classes x AND m \<noteq> 0} =
        insert d {x \<in> set ds. sc_classes x AND m \<noteq> 0}" by auto
    from Cons.IH [of "set_number f (sc_number d) e"] Cons.prems
    show ?thesis unfolding set
      using False d by (auto simp: Let_def filter_set_set_number)
  qed
qed simp

lemma apply_class_correct:
  assumes "filter_wf f"
  shows "filter_wf (apply_class f m e)" and "active (apply_class f m e) = active f"
    and "filter_set (apply_class f m e) =
       (if e then filter_set f \<union> class_numbers m else filter_set f - class_numbers m)"
  using apply_class_rows_correct [OF assms order_refl, of m e]
  by (simp_all add: apply_class_def sg_syscall_catalog_def class_numbers_def Let_def)

text \<open>The relation between a parser state and a denotation.\<close>

definition denotes :: "filter_error + sg_filter \<Rightarrow> filter_error + int set \<Rightarrow> bool" where
  "denotes r D \<longleftrightarrow>
     (case (r, D) of
        (Inl e, Inl e') \<Rightarrow> e = e'
      | (Inr f, Inr S) \<Rightarrow> filter_wf f \<and> active f \<and> filter_set f = S
      | _ \<Rightarrow> False)"

lemma apply_term_denotes:
  assumes "filter_wf f" and "active f"
  shows "denotes (apply_term f t)
     (case denote_name (if negated t then tl t else t) of
        Inl e \<Rightarrow> Inl e
      | Inr N \<Rightarrow> Inr (if negated t then filter_set f - N else filter_set f \<union> N))"
proof -
  have enabled: "(case t of [] \<Rightarrow> True | c # _ \<Rightarrow> c \<noteq> CHR ''!'') = (\<not> negated t)"
    by (cases t) (auto simp: negated_def)
  have "sc_number d \<in> all_numbers" if "sg_syscall_by_name (Some n) = Some d" for n d
    using that numbers_in_range by (auto simp: sg_syscall_by_name_Some_iff)
  then show ?thesis
    using assms unfolding apply_term_def enabled denote_name_def denotes_def
    by (auto simp: Let_def apply_class_correct filter_set_set_number split: option.split)
qed

lemma parse_terms_denotes:
  assumes "filter_wf f" and "active f" and "cursor \<noteq> []"
  shows "denotes (parse_terms f cursor) (denote_terms (filter_set f) (split_commas cursor))"
  using assms
proof (induction f cursor rule: parse_terms.induct)
  case (1 f cursor)
  define t where "t = takeWhile (\<lambda>x. x \<noteq> CHR '','') cursor"
  define name where "name = (if negated t then tl t else t)"
  note first = apply_term_denotes [OF "1.prems"(1,2), of t, folded name_def]
  note unfold = parse_terms.simps [of f cursor, folded t_def] split_commas_step [of cursor, folded t_def]
  show ?case
  proof (cases "denote_name name")
    case (Inl e)
    with first have "apply_term f t = Inl e"
      by (auto simp: denotes_def split: sum.splits)
    with Inl "1.prems"(3) show ?thesis
      unfolding unfold by (simp add: denotes_def name_def)
  next
    case (Inr N)
    with first obtain f' where f': "apply_term f t = Inr f'" "filter_wf f'" "active f'"
        "filter_set f' = (if negated t then filter_set f - N else filter_set f \<union> N)"
      by (auto simp: denotes_def split: sum.splits)
    show ?thesis
    proof (cases "dropWhile (\<lambda>x. x \<noteq> CHR '','') cursor")
      case Nil
      from Inr f' "1.prems"(3) show ?thesis
        unfolding unfold Nil by (simp add: denotes_def name_def)
    next
      case (Cons comma rest)
      show ?thesis
      proof (cases "rest = []")
        case True
        from Inr f' "1.prems"(3) show ?thesis
          unfolding unfold Cons True
          by (simp add: denotes_def denote_name_def name_def negated_def)
      next
        case False
        from "1.IH" [OF "1.prems"(3) f'(1) [unfolded t_def] Cons False f'(2,3) False]
          Inr f' "1.prems"(3) False
        show ?thesis
          unfolding unfold Cons by (simp add: name_def)
      qed
    qed
  qed
qed

lemma filter_parse_denotes:
  assumes "c_str spec = ''trace='' @ expression" and "expression \<noteq> []"
  shows "case denote_expression expression of
      Inl e \<Rightarrow> sg_filter_parse (Some f) (Some spec) = (Inl e, Some f)
    | Inr S \<Rightarrow> (\<exists>f'. sg_filter_parse (Some f) (Some spec) = (Inr (), Some f') \<and>
        filter_wf f' \<and> active f' \<and> filter_set f' = S)"
proof -
  let ?empty = "\<lparr>words = replicate SG_FILTER_WORDS 0, active = False\<rparr>"
  define c where "c = (if has_positive_term expression
      then (sg_filter_clear ?empty)\<lparr>active := True\<rparr> else sg_filter_fill ?empty)"
  have wf: "filter_wf c" "active c"
    and set: "filter_set c = (if has_positive_term expression then {} else all_numbers)"
    by (simp_all add: c_def)
  from parse_terms_denotes [OF wf assms(2)]
  have "denotes (parse_terms c expression) (denote_expression expression)"
    by (simp add: set denote_expression_def has_positive_term_iff)
  moreover have "sg_filter_parse (Some f) (Some spec) =
      (case parse_terms c expression of Inl e \<Rightarrow> (Inl e, Some f) | Inr f' \<Rightarrow> (Inr (), Some f'))"
    using assms by (simp add: sg_filter_parse_def c_def Let_def split: sum.split)
  ultimately show ?thesis
    by (auto simp: denotes_def split: sum.splits)
qed

section \<open>The selection interface\<close>

text \<open>
  What the tracer relies on: membership in a finite range of numbers, switching one number on or
  off, and a count that is the number of members. The tracer's seccomp compiler walks the range
  and adds one number of its own; how many numbers it visits follows from these laws.
\<close>

locale selection =
  fixes wf :: "'f \<Rightarrow> bool"
    and contains :: "'f \<Rightarrow> int \<Rightarrow> bool"
    and update :: "'f \<Rightarrow> int \<Rightarrow> bool \<Rightarrow> 'f"
    and size_of :: "'f \<Rightarrow> nat"
    and limit :: nat
  assumes contains_range: "contains f n \<Longrightarrow> 0 \<le> n \<and> n < int limit"
    and wf_update: "wf f \<Longrightarrow> wf (update f n e)"
    and contains_update: "wf f \<Longrightarrow> 0 \<le> n \<Longrightarrow> n < int limit \<Longrightarrow>
      contains (update f n e) m \<longleftrightarrow> (if m = n then e else contains f m)"
    and size_of_card: "wf f \<Longrightarrow> size_of f = card {n. contains f n}"
begin

lemma finite_members: "finite {n. contains f n}"
  by (rule finite_subset [of _ "{0..<int limit}"]) (auto dest: contains_range)

lemma size_of_le_limit: "wf f \<Longrightarrow> size_of f \<le> limit"
proof -
  assume "wf f"
  have "card {n. contains f n} \<le> card {0..<int limit}"
    by (rule card_mono) (auto dest: contains_range)
  then show ?thesis using \<open>wf f\<close> by (simp add: size_of_card)
qed

lemma size_of_update:
  assumes "wf f" and "0 \<le> n" and "n < int limit"
  shows "size_of (update f n e) =
    (if e then (if contains f n then size_of f else size_of f + 1)
     else (if contains f n then size_of f - 1 else size_of f))"
proof -
  have "{m. contains (update f n e) m} =
      (if e then insert n {m. contains f m} else {m. contains f m} - {n})"
    using contains_update [OF assms] by auto
  then show ?thesis
    using assms(1) finite_members [of f]
    by (auto simp: size_of_card wf_update card_insert_if card_Diff_singleton_if insert_absorb)
qed

lemma selected_numbers:
  "wf f \<Longrightarrow> 0 \<le> extra \<Longrightarrow> extra < int limit \<Longrightarrow>
     length (filter (\<lambda>n. contains f n \<or> n = extra) (map int [0..<limit])) =
       size_of f + (if contains f extra then 0 else 1)"
proof -
  assume wf: "wf f" and extra: "0 \<le> extra" "extra < int limit"
  let ?xs = "filter (\<lambda>n. contains f n \<or> n = extra) (map int [0..<limit])"
  have "distinct ?xs" by (simp add: distinct_map)
  then have "length ?xs = card (set ?xs)" by (rule distinct_card [symmetric])
  also have "set ?xs = insert extra {n. contains f n}"
  proof -
    have "set (map int [0..<limit]) = {0..<int limit}"
      by (simp add: image_int_atLeastLessThan)
    then show ?thesis using extra by (auto dest: contains_range)
  qed
  finally show ?thesis
    using wf finite_members [of f] by (simp add: size_of_card card_insert_if)
qed

end

interpretation flt: selection filter_wf sg_filter_contains set_number sg_filter_count SG_SYSCALL_LIMIT
proof
  show "0 \<le> n \<and> n < int SG_SYSCALL_LIMIT" if "sg_filter_contains f n" for f n
    using that by (simp add: contains_iff_bit SG_SYSCALL_LIMIT_def)
  show "filter_wf (set_number f n e)" if "filter_wf f" for f n e
    using that by simp
  show "sg_filter_contains (set_number f n e) m \<longleftrightarrow> (if m = n then e else sg_filter_contains f m)"
    if "filter_wf f" "0 \<le> n" "n < int SG_SYSCALL_LIMIT" for f n e m
    using filter_set_set_number [OF that(1), of n e] that(2,3)
    by (auto simp: filter_set_def SG_SYSCALL_LIMIT_def set_eq_iff)
  show "sg_filter_count f = card {n. sg_filter_contains f n}" if "filter_wf f" for f
    using filter_count_card [OF that] by (simp add: filter_set_def)
qed

section \<open>Properties\<close>

text \<open>
  \<open>set_number\<close> switches exactly the given number of the bitmap and \<open>sg_filter_count\<close>
  follows: on a filter of eight words, with a number below the limit, membership of every other
  number is unchanged, and the count (computed by clearing lowest set bits) grows or shrinks by
  one exactly when the membership of the number changes.
\<close>

theorem set_number_and_count:
  assumes "filter_wf f" and "0 \<le> n" and "n < 512"
  shows "filter_wf (set_number f n e) \<and>
    (\<forall>m. sg_filter_contains (set_number f n e) m =
       (if m = n then e else sg_filter_contains f m)) \<and>
    sg_filter_count (set_number f n e) =
      (if e then (if sg_filter_contains f n then sg_filter_count f else sg_filter_count f + 1)
       else (if sg_filter_contains f n then sg_filter_count f - 1 else sg_filter_count f))"
  using flt.contains_update [OF assms(1,2), of e] flt.size_of_update [OF assms(1,2), of e] assms
  by (simp add: SG_SYSCALL_LIMIT_def)

theorem set_number_and_count_witness:
  "sg_filter_contains (set_number (sg_filter_clear \<lparr>words = [], active = True\<rparr>) 257 True) 257 \<and>
   \<not> sg_filter_contains (set_number (sg_filter_clear \<lparr>words = [], active = True\<rparr>) 257 True) 1 \<and>
   sg_filter_count (set_number (sg_filter_clear \<lparr>words = [], active = True\<rparr>) 257 True) = 1"
proof -
  let ?f = "sg_filter_clear \<lparr>words = [], active = True\<rparr>"
  have "filter_set ?f = {}" by simp
  then have empty: "\<not> sg_filter_contains ?f m" for m by (auto simp: filter_set_def)
  then have "sg_filter_count ?f = 0" by (simp add: filter_count_card filter_set_def)
  with set_number_and_count [of ?f 257 True] empty show ?thesis by simp
qed

text \<open>
  C19. \<open>sg_filter_count\<close> is the number of selected syscalls: the lowest-bit loop over the eight
  words counts the members of the filter, at most 512.
\<close>

theorem filter_count_is_cardinality:
  assumes "filter_wf f"
  shows "sg_filter_count f = card {n. sg_filter_contains f n} \<and> sg_filter_count f \<le> 512"
  using flt.size_of_card [OF assms] flt.size_of_le_limit [OF assms]
  by (simp add: SG_SYSCALL_LIMIT_def)

theorem filter_count_is_cardinality_witness:
  "sg_filter_count (sg_filter_fill \<lparr>words = [], active = False\<rparr>) = 512"
proof -
  let ?f = "sg_filter_fill \<lparr>words = [], active = False\<rparr>"
  have "{n. sg_filter_contains ?f n} = all_numbers"
    using filter_fill(2) by (simp add: filter_set_def)
  with filter_count_is_cardinality [of ?f] show ?thesis by simp
qed

text \<open>
  C11. The parser computes the denotation of its expression. For a specification
  \<open>trace=EXPR\<close> with a non-empty expression, \<open>sg_filter_parse\<close> reports exactly the error of the
  first bad term and leaves the destination alone, or it stores an active, well-formed filter
  whose members are the numbers the terms select, added and removed from left to right, starting
  from nothing when some term is positive and from everything otherwise.
\<close>

theorem filter_parse_correct:
  assumes "c_str spec = ''trace='' @ expression" and "expression \<noteq> []"
  shows "case denote_expression expression of
      Inl e \<Rightarrow> sg_filter_parse (Some f) (Some spec) = (Inl e, Some f)
    | Inr S \<Rightarrow> (\<exists>f'. sg_filter_parse (Some f) (Some spec) = (Inr (), Some f') \<and>
        filter_wf f' \<and> active f' \<and> filter_set f' = S)"
  using filter_parse_denotes [OF assms] .

text \<open>Looking one row up, for the concrete expressions below.\<close>

lemma by_name_row:
  assumes "SYSCALL n name a c r args \<in> set syscalls" and "NUL \<notin> set name"
  shows "sg_syscall_by_name (Some name) = Some (SYSCALL n name a c r args)"
  using assms by (simp add: sg_syscall_by_name_Some_iff SYSCALL_def)

lemma by_number_row:
  assumes "SYSCALL n name a c r args \<in> set syscalls"
  shows "sg_syscall_by_number n = Some (SYSCALL n name a c r args)"
  using assms by (simp add: sg_syscall_by_number_Some_iff SYSCALL_def)

lemma class_numbers_iff:
  assumes "e \<in> set syscalls"
  shows "sc_number e \<in> class_numbers m \<longleftrightarrow> sc_classes e AND m \<noteq> 0"
proof
  assume "sc_number e \<in> class_numbers m"
  then obtain d where d: "d \<in> set syscalls" "sc_classes d AND m \<noteq> 0" "sc_number d = sc_number e"
    unfolding class_numbers_def by auto
  from catalog.numbers_inj [OF d(1) assms d(3)] d(2) show "sc_classes e AND m \<noteq> 0" by simp
next
  assume "sc_classes e AND m \<noteq> 0"
  with assms show "sc_number e \<in> class_numbers m" unfolding class_numbers_def by blast
qed

lemma in_class_numbers:
  "SYSCALL n name a c r args \<in> set syscalls \<Longrightarrow> n \<in> class_numbers m \<longleftrightarrow> c AND m \<noteq> 0"
  using class_numbers_iff [of "SYSCALL n name a c r args" m] by (simp add: SYSCALL_def)

lemma row_read: "SYSCALL 0 ''read'' 3 SG_CLASS_FILE RESULT_INTEGER
    [ARG ARG_FD, ARG_AUX ARG_BUFFER_OUT 2, ARG ARG_SIZE] \<in> set syscalls"
  by (simp add: syscalls_def)

lemma row_open: "SYSCALL 2 ''open'' 3 0 RESULT_INTEGER
    [ARG ARG_STRING, ARG ARG_OPEN_FLAGS, ARG ARG_MODE] \<in> set syscalls"
  by (simp add: syscalls_def)

lemma row_openat: "SYSCALL 257 ''openat'' 4 SG_CLASS_FILE RESULT_INTEGER
    [ARG ARG_DIRFD, ARG ARG_STRING, ARG ARG_OPEN_FLAGS, ARG ARG_MODE] \<in> set syscalls"
  by (simp add: syscalls_def)

lemma class_file: "sg_syscall_class_by_name (Some ''file'') = Some 1"
  by (simp add: sg_syscall_class_by_name_def class_by_name_from.simps sg_syscall_class_name_def
      class_names_def)

lemmas expression_simps = denote_expression_def denote_name_def negated_def
  by_name_row [OF row_read, simplified] class_file

lemma denote_not_read_file:
  "denote_expression ''!read,%file'' = Inr (class_numbers 1)"
  by (simp add: expression_simps SYSCALL_def)

theorem filter_parse_correct_witness:
  "\<exists>f'. sg_filter_parse (Some \<lparr>words = [], active = False\<rparr>) (Some ''trace=read'') = (Inr (), Some f') \<and>
     filter_wf f' \<and> active f' \<and> filter_set f' = {0}"
proof -
  have "denote_expression ''read'' = Inr {0}"
    by (simp add: expression_simps SYSCALL_def)
  with filter_parse_correct [of "''trace=read''" "''read''"] show ?thesis by simp
qed


text \<open>
  The class \<open>%file\<close> selects \<open>openat\<close> and \<open>read\<close> but not \<open>open\<close>: the table gives \<open>open\<close> no
  class at all.
\<close>

theorem file_class_misses_open:
  "\<exists>f'. sg_filter_parse (Some f) (Some ''trace=%file'') = (Inr (), Some f') \<and>
     sg_filter_contains f' 257 \<and> sg_filter_contains f' 0 \<and> \<not> sg_filter_contains f' 2"
proof -
  have "denote_expression ''%file'' = Inr (class_numbers 1)"
    by (simp add: expression_simps)
  then obtain f' where "sg_filter_parse (Some f) (Some ''trace=%file'') = (Inr (), Some f')"
      "filter_set f' = class_numbers 1"
    using filter_parse_denotes [of "''trace=%file''" "''%file''" f] by auto
  then show ?thesis
    using in_class_numbers [OF row_read, of 1] in_class_numbers [OF row_openat, of 1]
      in_class_numbers [OF row_open, of 1]
    by (auto simp: filter_set_def class_bits)
qed

end
