(* ===== verification/Events.thy ===== *)
theory Events
  imports Prelude
begin

text \<open>
  The data that travels between the components: the syscall event and the tracee of
  \<open>include/sysgaze/event.h\<close> and \<open>include/sysgaze/tracee.h\<close>. Field names carry a prefix
  where HOL already uses the plain name.
\<close>

section \<open>Events\<close>

record timespec =
  tv_sec :: int
  tv_nsec :: int

record sg_syscall_event =
  ev_number :: int
  ev_arguments :: "u64 list"
  ev_result :: int
  ev_error_number :: int
  ev_entered_at :: timespec
  ev_exited_at :: timespec
  ev_decoded_arguments :: "string option list"
  ev_argument_count :: nat
  ev_completed :: bool

record sg_signal_event =
  signal_number :: int
  signal_code :: int
  fault_address :: u64

record sg_lifecycle_event =
  related_tid :: int
  status :: int
  ptrace_event :: u32
  signaled :: bool

text \<open>The tagged union \<open>sg_event\<close>: the kind is the constructor of the payload.\<close>

datatype sg_event_data =
    SG_EVENT_SYSCALL sg_syscall_event
  | SG_EVENT_SIGNAL sg_signal_event
  | SG_EVENT_PROCESS_START sg_lifecycle_event
  | SG_EVENT_PROCESS_EXIT sg_lifecycle_event

record sg_event =
  event_tid :: int
  event_tgid :: int
  observed_at :: timespec
  event_data :: sg_event_data

text \<open>The value that \<open>memset\<close> with zeroes leaves in a syscall event.\<close>

definition zero_timespec :: timespec where
  "zero_timespec = \<lparr>tv_sec = 0, tv_nsec = 0\<rparr>"

definition zero_syscall_event :: sg_syscall_event where
  "zero_syscall_event =
     \<lparr>ev_number = 0, ev_arguments = replicate 6 0, ev_result = 0, ev_error_number = 0,
      ev_entered_at = zero_timespec, ev_exited_at = zero_timespec,
      ev_decoded_arguments = replicate 6 None, ev_argument_count = 0, ev_completed = False\<rparr>"

section \<open>Tracees\<close>

datatype sg_tracee_phase =
    SG_TRACEE_NEW | SG_TRACEE_RUNNING | SG_TRACEE_STOPPED | SG_TRACEE_IN_SYSCALL
  | SG_TRACEE_GROUP_STOPPED | SG_TRACEE_EXITING | SG_TRACEE_GONE

record sg_tracee =
  tid :: int
  tgid :: int
  phase :: sg_tracee_phase
  pending_signal :: int
  attached :: bool
  newborn :: bool
  in_ptrace_stop :: bool
  options_installed :: bool
  has_pending_syscall :: bool
  has_interrupted_syscall :: bool
  interrupted_restart_ready :: bool
  pending_syscall :: sg_syscall_event
  interrupted_syscall :: sg_syscall_event

definition zero_tracee :: sg_tracee where
  "zero_tracee =
     \<lparr>tid = 0, tgid = 0, phase = SG_TRACEE_NEW, pending_signal = 0, attached = False,
      newborn = False, in_ptrace_stop = False, options_installed = False,
      has_pending_syscall = False, has_interrupted_syscall = False,
      interrupted_restart_ready = False, pending_syscall = zero_syscall_event,
      interrupted_syscall = zero_syscall_event\<rparr>"

end
