(* ===== verification/Tracee_Table.thy ===== *)
theory Tracee_Table
  imports Events
begin

text \<open>
  The open-addressing hash table of \<open>src/tracee_table.c\<close>, keyed by thread id: linear probing
  over a power-of-two array with tombstones, grown when occupied slots and tombstones together
  pass seven tenths of the capacity.

  The probe loop is a \<open>partial_function\<close>: it has no value on a table without an empty slot, where
  the C loop would not end. \<open>table_wf\<close> is the representation invariant, \<open>table_map\<close> the finite
  map the table stands for; the operations are proved to terminate, to keep the invariant and to
  implement lookup, insertion of a fresh tracee and deletion on that map.
\<close>

section \<open>The table and its operations\<close>

datatype sg_tracee_slot_state =
  SG_TRACEE_SLOT_EMPTY | SG_TRACEE_SLOT_OCCUPIED | SG_TRACEE_SLOT_TOMBSTONE

record sg_tracee_slot =
  slot_state :: sg_tracee_slot_state
  slot_tracee :: sg_tracee

record sg_tracee_table =
  slots :: "sg_tracee_slot list"
  capacity :: u64
  entries :: u64
  tombstones :: u64

definition SG_TRACEE_INITIAL_CAPACITY :: u64 where
  "SG_TRACEE_INITIAL_CAPACITY = 16"

text \<open>The size of \<open>struct sg_tracee_slot\<close> under the x86-64 ABI, used by \<open>calloc\<close>.\<close>

definition sizeof_slot :: nat where
  "sizeof_slot = 352"

definition hash_tid :: "int \<Rightarrow> u64" where
  "hash_tid t =
     (let v = (of_int t :: u64);
          v = v XOR drop_bit 33 v;
          v = v * 0xff51afd7ed558ccd
      in v XOR drop_bit 33 v)"

definition sg_tracee_table_init :: sg_tracee_table where
  "sg_tracee_table_init = \<lparr>slots = [], capacity = 0, entries = 0, tombstones = 0\<rparr>"

definition sg_tracee_table_destroy :: "sg_tracee_table \<Rightarrow> sg_tracee_table" where
  "sg_tracee_table_destroy table = sg_tracee_table_init"

text \<open>The probe loop from one index on; the result is \<open>(found, index)\<close>.\<close>

partial_function (option) find_slot_from ::
    "sg_tracee_table \<Rightarrow> int \<Rightarrow> u64 \<Rightarrow> u64 \<Rightarrow> (bool \<times> u64) option" where
  "find_slot_from table t index first_tombstone =
     (if unat index < length (slots table)
      then let slot = slots table ! unat index
        in if slot_state slot = SG_TRACEE_SLOT_EMPTY
           then Some (False, if first_tombstone = SIZE_MAX then index else first_tombstone)
           else if slot_state slot = SG_TRACEE_SLOT_OCCUPIED \<and> tid (slot_tracee slot) = t
           then Some (True, index)
           else find_slot_from table t ((index + 1) AND (capacity table - 1))
                  (if slot_state slot = SG_TRACEE_SLOT_TOMBSTONE \<and> first_tombstone = SIZE_MAX
                   then index else first_tombstone)
      else None)"

definition find_slot :: "sg_tracee_table \<Rightarrow> int \<Rightarrow> (bool \<times> u64) option" where
  "find_slot table t =
     find_slot_from table t (hash_tid t AND (capacity table - 1)) SIZE_MAX"

definition empty_slot :: sg_tracee_slot where
  "empty_slot = \<lparr>slot_state = SG_TRACEE_SLOT_EMPTY, slot_tracee = zero_tracee\<rparr>"

text \<open>The loop of \<open>resize_table\<close> that moves the occupied slots of the old array.\<close>

fun rehash :: "sg_tracee_table \<Rightarrow> sg_tracee_slot list \<Rightarrow> sg_tracee_table option" where
  "rehash table [] = Some table"
| "rehash table (old # olds) =
     (if slot_state old = SG_TRACEE_SLOT_OCCUPIED
      then (case find_slot table (tid (slot_tracee old)) of
              None \<Rightarrow> None
            | Some (found, destination) \<Rightarrow>
                rehash (table\<lparr>slots := (slots table)
                          [unat destination := old\<lparr>slot_state := SG_TRACEE_SLOT_OCCUPIED\<rparr>],
                        entries := entries table + 1\<rparr>) olds)
      else rehash table olds)"

definition resize_table ::
    "heap \<Rightarrow> sg_tracee_table \<Rightarrow> u64 \<Rightarrow> (bool \<times> heap \<times> sg_tracee_table) option" where
  "resize_table h table new_capacity =
     (case alloc h of (ok, h') \<Rightarrow>
        if \<not> ok \<or> 2 ^ 64 \<le> unat new_capacity * sizeof_slot then Some (False, h', table)
        else map_option (\<lambda>table'. (True, h', table'))
               (rehash \<lparr>slots = replicate (unat new_capacity) empty_slot,
                        capacity = new_capacity, entries = 0, tombstones = 0\<rparr>
                  (slots table)))"

definition ensure_capacity ::
    "heap \<Rightarrow> sg_tracee_table \<Rightarrow> (bool \<times> heap \<times> sg_tracee_table) option" where
  "ensure_capacity h table =
     (if capacity table = 0 then resize_table h table SG_TRACEE_INITIAL_CAPACITY
      else if (entries table + tombstones table + 1) * 10 < capacity table * 7
      then Some (True, h, table)
      else if capacity table > SIZE_MAX div 2 then Some (False, h, table)
      else resize_table h table (capacity table * 2))"

definition sg_tracee_table_get :: "sg_tracee_table \<Rightarrow> int \<Rightarrow> sg_tracee option option" where
  "sg_tracee_table_get table t =
     (if capacity table = 0 \<or> t \<le> 0 then Some None
      else case find_slot table t of
             None \<Rightarrow> None
           | Some (found, index) \<Rightarrow>
               Some (if found then Some (slot_tracee (slots table ! unat index)) else None))"

text \<open>
  Stores through the pointer that \<open>sg_tracee_table_get\<close> returned: the slot found for the
  thread id gets a new tracee.
\<close>

definition tracee_store ::
    "sg_tracee_table \<Rightarrow> int \<Rightarrow> (sg_tracee \<Rightarrow> sg_tracee) \<Rightarrow> sg_tracee_table option" where
  "tracee_store table t f =
     (if capacity table = 0 \<or> t \<le> 0 then None
      else case find_slot table t of
             Some (True, index) \<Rightarrow>
               (let slot = slots table ! unat index
                in Some (table\<lparr>slots := (slots table)
                     [unat index := slot\<lparr>slot_tracee := f (slot_tracee slot)\<rparr>]\<rparr>))
           | _ \<Rightarrow> None)"

definition fresh_tracee :: "int \<Rightarrow> int \<Rightarrow> bool \<Rightarrow> sg_tracee" where
  "fresh_tracee t tg att =
     zero_tracee\<lparr>tid := t, tgid := tg, attached := att, phase := SG_TRACEE_NEW\<rparr>"

text \<open>
  \<open>sg_tracee_table_insert\<close>: the first component is \<open>None\<close> when it returns false, otherwise the
  value of \<open>*inserted\<close>.
\<close>

definition sg_tracee_table_insert ::
    "heap \<Rightarrow> sg_tracee_table \<Rightarrow> int \<Rightarrow> int \<Rightarrow> bool \<Rightarrow>
     (bool option \<times> heap \<times> sg_tracee_table) option" where
  "sg_tracee_table_insert h table t tg att =
     (if t \<le> 0 \<or> tg \<le> 0 then Some (None, h, table)
      else case ensure_capacity h table of
             None \<Rightarrow> None
           | Some (False, h', table') \<Rightarrow> Some (None, h', table')
           | Some (True, h', table') \<Rightarrow>
               (case find_slot table' t of
                  None \<Rightarrow> None
                | Some (True, index) \<Rightarrow> Some (Some False, h', table')
                | Some (False, index) \<Rightarrow>
                    Some (Some True, h',
                      table'\<lparr>tombstones :=
                          (if slot_state (slots table' ! unat index) = SG_TRACEE_SLOT_TOMBSTONE
                           then tombstones table' - 1 else tombstones table'),
                        slots := (slots table')
                          [unat index := \<lparr>slot_state = SG_TRACEE_SLOT_OCCUPIED,
                                          slot_tracee = fresh_tracee t tg att\<rparr>],
                        entries := entries table' + 1\<rparr>)))"

definition sg_tracee_table_remove ::
    "sg_tracee_table \<Rightarrow> int \<Rightarrow> (sg_tracee option \<times> sg_tracee_table) option" where
  "sg_tracee_table_remove table t =
     (if capacity table = 0 \<or> t \<le> 0 then Some (None, table)
      else case find_slot table t of
             None \<Rightarrow> None
           | Some (False, index) \<Rightarrow> Some (None, table)
           | Some (True, index) \<Rightarrow>
               Some (Some (slot_tracee (slots table ! unat index)),
                 table\<lparr>slots := (slots table)
                         [unat index := \<lparr>slot_state = SG_TRACEE_SLOT_TOMBSTONE,
                                         slot_tracee = zero_tracee\<rparr>],
                       entries := entries table - 1,
                       tombstones := tombstones table + 1\<rparr>))"

section \<open>Slot arrays as maps\<close>

abbreviation is_empty_slot :: "sg_tracee_slot \<Rightarrow> bool" where
  "is_empty_slot s \<equiv> slot_state s = SG_TRACEE_SLOT_EMPTY"

abbreviation is_occupied :: "sg_tracee_slot \<Rightarrow> bool" where
  "is_occupied s \<equiv> slot_state s = SG_TRACEE_SLOT_OCCUPIED"

abbreviation is_tombstone :: "sg_tracee_slot \<Rightarrow> bool" where
  "is_tombstone s \<equiv> slot_state s = SG_TRACEE_SLOT_TOMBSTONE"

definition holds_tid :: "sg_tracee_slot \<Rightarrow> int \<Rightarrow> bool" where
  "holds_tid s t \<longleftrightarrow> is_occupied s \<and> tid (slot_tracee s) = t"

text \<open>The map a slot array stands for.\<close>

definition slots_map :: "sg_tracee_slot list \<Rightarrow> int \<Rightarrow> sg_tracee option" where
  "slots_map xs t = map_option slot_tracee (find (\<lambda>s. holds_tid s t) xs)"

definition distinct_tids :: "sg_tracee_slot list \<Rightarrow> bool" where
  "distinct_tids xs \<longleftrightarrow>
     (\<forall>i < length xs. \<forall>j < length xs. is_occupied (xs ! i) \<longrightarrow> is_occupied (xs ! j) \<longrightarrow>
        tid (slot_tracee (xs ! i)) = tid (slot_tracee (xs ! j)) \<longrightarrow> i = j)"

lemma distinct_tidsD:
  "distinct_tids xs \<Longrightarrow> i < length xs \<Longrightarrow> j < length xs \<Longrightarrow> holds_tid (xs ! i) t \<Longrightarrow>
     holds_tid (xs ! j) t \<Longrightarrow> i = j"
  unfolding distinct_tids_def holds_tid_def by blast

lemma distinct_tidsI:
  assumes "\<And>i j t. i < length xs \<Longrightarrow> j < length xs \<Longrightarrow> holds_tid (xs ! i) t \<Longrightarrow>
     holds_tid (xs ! j) t \<Longrightarrow> i = j"
  shows "distinct_tids xs"
  unfolding distinct_tids_def using assms by (simp add: holds_tid_def)

lemma find_update_skip:
  "i < length xs \<Longrightarrow> \<not> P (xs ! i) \<Longrightarrow> \<not> P s \<Longrightarrow> find P (xs[i := s]) = find P xs"
proof (induction xs arbitrary: i)
  case (Cons x xs)
  then show ?case by (cases i) auto
qed simp

lemma slots_map_update_skip:
  "i < length xs \<Longrightarrow> \<not> holds_tid (xs ! i) t \<Longrightarrow> \<not> holds_tid s t \<Longrightarrow>
     slots_map (xs[i := s]) t = slots_map xs t"
  by (simp add: slots_map_def find_update_skip)

lemma slots_map_None_iff:
  "slots_map xs t = None \<longleftrightarrow> (\<forall>i < length xs. \<not> holds_tid (xs ! i) t)"
  by (auto simp: slots_map_def find_None_iff in_set_conv_nth)

lemma slots_map_Some_iff:
  assumes "distinct_tids xs"
  shows "slots_map xs t = Some v \<longleftrightarrow>
    (\<exists>i < length xs. holds_tid (xs ! i) t \<and> slot_tracee (xs ! i) = v)"
proof
  assume "slots_map xs t = Some v"
  then show "\<exists>i < length xs. holds_tid (xs ! i) t \<and> slot_tracee (xs ! i) = v"
    by (auto simp: slots_map_def find_Some_iff)
next
  assume "\<exists>i < length xs. holds_tid (xs ! i) t \<and> slot_tracee (xs ! i) = v"
  then obtain i where i: "i < length xs" "holds_tid (xs ! i) t" "slot_tracee (xs ! i) = v" by blast
  have "\<not> holds_tid (xs ! j) t" if "j < i" for j
    using that i distinct_tidsD [OF assms, of j i t] by auto
  then have "find (\<lambda>s. holds_tid s t) xs = Some (xs ! i)"
    using i by (auto simp: find_Some_iff)
  with i(3) show "slots_map xs t = Some v" by (simp add: slots_map_def)
qed

lemma slots_map_eqI:
  assumes "distinct_tids xs" and "distinct_tids ys"
    and "\<And>t v. (\<exists>i < length xs. holds_tid (xs ! i) t \<and> slot_tracee (xs ! i) = v) \<longleftrightarrow>
           (\<exists>i < length ys. holds_tid (ys ! i) t \<and> slot_tracee (ys ! i) = v)"
  shows "slots_map xs = slots_map ys"
proof
  fix t
  have "slots_map xs t = Some v \<longleftrightarrow> slots_map ys t = Some v" for v
    using assms by (simp add: slots_map_Some_iff)
  then show "slots_map xs t = slots_map ys t"
    by (metis not_None_eq)
qed

text \<open>Writing an occupied slot over one that is not occupied, for an absent thread id.\<close>

lemma slots_put:
  assumes dist: "distinct_tids xs" and i: "i < length xs" and free: "\<not> is_occupied (xs ! i)"
    and absent: "slots_map xs (tid v) = None"
    and s: "is_occupied s" "slot_tracee s = v"
  shows "distinct_tids (xs[i := s])" and "slots_map (xs[i := s]) = (slots_map xs)(tid v \<mapsto> v)"
proof -
  have other: "\<not> holds_tid (xs ! j) (tid v)" if "j < length xs" for j
    using absent that by (simp add: slots_map_None_iff)
  show d: "distinct_tids (xs[i := s])"
  proof (rule distinct_tidsI)
    fix a b t
    assume "a < length (xs[i := s])" "b < length (xs[i := s])"
      "holds_tid (xs[i := s] ! a) t" "holds_tid (xs[i := s] ! b) t"
    moreover have "t = tid v" if "holds_tid s t" using that s by (simp add: holds_tid_def)
    ultimately show "a = b"
      using distinct_tidsD [OF dist, of a b t] other i
      by (auto simp: nth_list_update split: if_splits)
  qed
  show "slots_map (xs[i := s]) = (slots_map xs)(tid v \<mapsto> v)"
  proof
    fix t
    show "slots_map (xs[i := s]) t = ((slots_map xs)(tid v \<mapsto> v)) t"
    proof (cases "t = tid v")
      case True
      have "holds_tid (xs[i := s] ! i) t" "slot_tracee (xs[i := s] ! i) = v"
        using True s i by (simp_all add: holds_tid_def)
      then show ?thesis using True i by (auto simp: slots_map_Some_iff [OF d])
    next
      case False
      then have "\<not> holds_tid (xs ! i) t" "\<not> holds_tid s t"
        using free s by (auto simp: holds_tid_def)
      with False i show ?thesis by (simp add: slots_map_update_skip)
    qed
  qed
qed

text \<open>Writing a slot that is not occupied over the slot of a thread id.\<close>

lemma slots_drop:
  assumes dist: "distinct_tids xs" and i: "i < length xs" and held: "holds_tid (xs ! i) t"
    and s: "\<not> is_occupied s"
  shows "distinct_tids (xs[i := s])" and "slots_map (xs[i := s]) = (slots_map xs)(t := None)"
proof -
  have s': "\<not> holds_tid s u" for u using s by (simp add: holds_tid_def)
  show d: "distinct_tids (xs[i := s])"
    using distinct_tidsD [OF dist] s' i
    by (intro distinct_tidsI) (auto simp: nth_list_update split: if_splits)
  show "slots_map (xs[i := s]) = (slots_map xs)(t := None)"
  proof
    fix u
    show "slots_map (xs[i := s]) u = ((slots_map xs)(t := None)) u"
    proof (cases "u = t")
      case True
      have "\<not> holds_tid (xs[i := s] ! j) t" if "j < length xs" for j
        using distinct_tidsD [OF dist that i] held s' that i by (auto simp: nth_list_update)
      then show ?thesis using True by (simp add: slots_map_None_iff)
    next
      case False
      then have "\<not> holds_tid (xs ! i) u" using held by (auto simp: holds_tid_def)
      with False i s' show ?thesis by (simp add: slots_map_update_skip)
    qed
  qed
qed

text \<open>Changing the tracee of an occupied slot without changing its thread id.\<close>

lemma slots_modify:
  assumes dist: "distinct_tids xs" and i: "i < length xs" and held: "holds_tid (xs ! i) t"
    and s: "is_occupied s" "slot_tracee s = v" "tid v = t"
  shows "distinct_tids (xs[i := s])" and "slots_map (xs[i := s]) = (slots_map xs)(t \<mapsto> v)"
proof -
  let ?gap = "\<lparr>slot_state = SG_TRACEE_SLOT_TOMBSTONE, slot_tracee = zero_tracee\<rparr>"
  note gap = slots_drop [OF dist i held, of ?gap, simplified]
  have "\<not> is_occupied (xs[i := ?gap] ! i)" using i by simp
  from slots_put [OF gap(1) _ this _ s(1,2)] i gap(2) s(3)
  show "distinct_tids (xs[i := s])" and "slots_map (xs[i := s]) = (slots_map xs)(t \<mapsto> v)"
    by simp_all
qed

lemma filter_length_update:
  "i < length xs \<Longrightarrow>
     length (filter P (xs[i := v])) + of_bool (P (xs ! i)) = length (filter P xs) + of_bool (P v)"
proof (induction xs arbitrary: i)
  case (Cons x xs)
  then show ?case by (cases i) auto
qed simp

section \<open>Probe sequences\<close>

definition home :: "nat \<Rightarrow> int \<Rightarrow> nat" where
  "home n t = unat (hash_tid t) mod n"

definition probe :: "sg_tracee_slot list \<Rightarrow> int \<Rightarrow> nat \<Rightarrow> nat" where
  "probe xs t d = (home (length xs) t + d) mod length xs"

text \<open>Every slot before position \<open>i\<close> on the probe sequence of \<open>t\<close> is in use.\<close>

definition reached :: "sg_tracee_slot list \<Rightarrow> int \<Rightarrow> nat \<Rightarrow> bool" where
  "reached xs t i \<longleftrightarrow>
     (\<exists>d < length xs. probe xs t d = i \<and> (\<forall>e < d. \<not> is_empty_slot (xs ! probe xs t e)))"

definition slots_ok :: "sg_tracee_slot list \<Rightarrow> bool" where
  "slots_ok xs \<longleftrightarrow> distinct_tids xs \<and> (\<exists>i < length xs. is_empty_slot (xs ! i)) \<and>
     (\<forall>i < length xs. is_occupied (xs ! i) \<longrightarrow> reached xs (tid (slot_tracee (xs ! i))) i)"

lemma probe_less: "0 < length xs \<Longrightarrow> probe xs t d < length xs"
  by (simp add: probe_def)

lemma probe_surj:
  assumes "i < length xs"
  shows "\<exists>d < length xs. probe xs t d = i"
proof -
  let ?n = "length xs"
  let ?h = "home ?n t"
  have h: "?h < ?n" unfolding home_def using assms by (intro mod_less_divisor) linarith
  show ?thesis
  proof (cases "?h \<le> i")
    case True
    then have "probe xs t (i - ?h) = i" using assms by (simp add: probe_def)
    then show ?thesis using assms by (intro exI [of _ "i - ?h"]) auto
  next
    case False
    then have "probe xs t (?n + i - ?h) = i" using assms h by (simp add: probe_def)
    then show ?thesis using False assms h by (intro exI [of _ "?n + i - ?h"]) auto
  qed
qed

lemma probe_Suc: "probe xs t (Suc d) = Suc (probe xs t d) mod length xs"
  by (simp add: probe_def mod_Suc_eq)

text \<open>Masking with a power of two minus one is the remainder.\<close>

lemma unat_and_mask:
  fixes w c :: u64
  assumes "unat c = 2 ^ k" and "k < 64"
  shows "unat (w AND (c - 1)) = unat w mod 2 ^ k"
proof -
  have "c = of_nat (unat c)" by simp
  then have "c = 2 ^ k" by (simp add: assms(1))
  then have "c - 1 = mask k" by (simp add: mask_eq_exp_minus_1)
  then have "w AND (c - 1) = take_bit k w" by (simp add: take_bit_eq_mask)
  then have "unat (w AND (c - 1)) = take_bit k (unat w)" by (simp only: unsigned_take_bit_eq)
  then show ?thesis by (simp add: take_bit_eq_mod)
qed

text \<open>The shape of a table with an array: a power of two of slots, small enough for \<open>calloc\<close>.\<close>

definition table_shape :: "sg_tracee_table \<Rightarrow> nat \<Rightarrow> bool" where
  "table_shape tb k \<longleftrightarrow>
     4 \<le> k \<and> k \<le> 55 \<and> unat (capacity tb) = 2 ^ k \<and> length (slots tb) = 2 ^ k"

lemma probe_in_range: "table_shape tb k \<Longrightarrow> probe (slots tb) t d < length (slots tb)"
  by (rule probe_less) (simp add: table_shape_def)

lemma next_index:
  assumes "table_shape tb k" and "unat index = probe (slots tb) t d"
  shows "unat ((index + 1) AND (capacity tb - 1)) = probe (slots tb) t (Suc d)"
proof -
  have k: "k < 64" "unat (capacity tb) = 2 ^ k" "length (slots tb) = 2 ^ k"
    using assms(1) by (auto simp: table_shape_def)
  have "unat index < 2 ^ k" using assms(2) k(3) probe_in_range [OF assms(1)] by metis
  moreover have "(2::nat) ^ k \<le> 2 ^ 55"
    using assms(1) by (intro power_increasing) (auto simp: table_shape_def)
  ultimately have "unat (index + 1) = Suc (unat index)"
    by (subst unat_add_no_wrap) auto
  then show ?thesis
    using k by (simp add: unat_and_mask [OF k(2,1)] assms(2) probe_Suc)
qed

section \<open>The probe loop ends and is right\<close>

lemma find_slot_from_correct:
  fixes tb t
  defines "at \<equiv> \<lambda>d. slots tb ! probe (slots tb) t d"
  assumes shape: "table_shape tb k"
    and stop: "is_empty_slot (at D) \<or> holds_tid (at D) t"
    and before: "\<And>e. e < D \<Longrightarrow> \<not> is_empty_slot (at e) \<and> \<not> holds_tid (at e) t"
  shows "d \<le> D \<Longrightarrow> unat index = probe (slots tb) t d \<Longrightarrow>
     first \<noteq> SIZE_MAX \<longrightarrow> (\<exists>e < d. unat first = probe (slots tb) t e \<and> is_tombstone (at e)) \<Longrightarrow>
     \<exists>i. find_slot_from tb t index first = Some (holds_tid (at D) t, i) \<and>
       (if holds_tid (at D) t then unat i = probe (slots tb) t D
        else \<exists>e \<le> D. unat i = probe (slots tb) t e \<and> \<not> is_occupied (at e))"
proof (induction "D - d" arbitrary: d index first)
  case 0
  then have d: "d = D" by simp
  have "unat index < length (slots tb)"
    using 0(3) probe_in_range [OF shape] by metis
  then have eq: "find_slot_from tb t index first =
      (if is_empty_slot (at D) then Some (False, if first = SIZE_MAX then index else first)
       else Some (True, index))"
    using stop 0(3) d by (subst find_slot_from.simps) (auto simp: Let_def at_def holds_tid_def)
  show ?case
  proof (cases "is_empty_slot (at D)")
    case True
    then have "\<not> holds_tid (at D) t" by (simp add: holds_tid_def)
    moreover have "\<exists>e \<le> D. unat (if first = SIZE_MAX then index else first) =
        probe (slots tb) t e \<and> \<not> is_occupied (at e)"
    proof (cases "first = SIZE_MAX")
      case False
      with 0(4) obtain e where "e < d" "unat first = probe (slots tb) t e" "is_tombstone (at e)"
        by auto
      with False d show ?thesis by (intro exI [of _ e]) auto
    qed (use True 0(3) d in auto)
    ultimately show ?thesis using eq True by simp
  next
    case False
    with stop eq 0(3) d show ?thesis by simp
  qed
next
  case (Suc x)
  then have d: "d < D" by simp
  let ?first = "if is_tombstone (at d) \<and> first = SIZE_MAX then index else first"
  let ?next = "(index + 1) AND (capacity tb - 1)"
  have in_range: "unat index < length (slots tb)"
    using Suc.prems(2) probe_in_range [OF shape] by metis
  have eq: "find_slot_from tb t index first = find_slot_from tb t ?next ?first"
    using before [OF d] in_range Suc.prems(2)
    by (subst find_slot_from.simps) (auto simp: Let_def at_def holds_tid_def)
  have "?first \<noteq> SIZE_MAX \<longrightarrow>
      (\<exists>e < Suc d. unat ?first = probe (slots tb) t e \<and> is_tombstone (at e))"
    using Suc.prems(2,3) by (auto intro: less_SucI)
  from Suc.hyps(1) [of "Suc d" ?next ?first, OF _ _ next_index [OF shape Suc.prems(2)] this]
  show ?case using Suc.hyps(2) d eq by simp
qed

text \<open>The result of \<open>find_slot\<close> on a table whose slots are in order.\<close>

lemma find_slot_correct:
  assumes shape: "table_shape tb k" and ok: "slots_ok (slots tb)"
  obtains found i where "find_slot tb t = Some (found, i)" and "unat i < length (slots tb)"
    and "found \<Longrightarrow> holds_tid (slots tb ! unat i) t"
    and "\<not> found \<Longrightarrow> slots_map (slots tb) t = None \<and> \<not> is_occupied (slots tb ! unat i) \<and>
           reached (slots tb) t (unat i)"
proof -
  let ?xs = "slots tb"
  let ?at = "\<lambda>d. ?xs ! probe ?xs t d"
  let ?stop = "\<lambda>d. is_empty_slot (?at d) \<or> holds_tid (?at d) t"
  have len: "0 < length ?xs" using shape by (simp add: table_shape_def)
  from ok obtain j where j: "j < length ?xs" "is_empty_slot (?xs ! j)"
    by (auto simp: slots_ok_def)
  then obtain d0 where d0: "d0 < length ?xs" "?stop d0" using probe_surj [of j ?xs t] by auto
  define D where "D = (LEAST d. ?stop d)"
  have D: "?stop D" unfolding D_def using d0(2) by (rule LeastI)
  have D_le: "D \<le> d0" unfolding D_def using d0(2) by (rule Least_le)
  have D_least: "\<not> ?stop e" if "e < D" for e using that unfolding D_def by (rule not_less_Least)
  have start: "unat (hash_tid t AND (capacity tb - 1)) = probe ?xs t 0"
    using shape by (simp add: table_shape_def unat_and_mask probe_def home_def)
  have before: "\<And>e. e < D \<Longrightarrow> \<not> is_empty_slot (?at e) \<and> \<not> holds_tid (?at e) t"
    using D_least by blast
  obtain i where i: "find_slot tb t = Some (holds_tid (?at D) t, i)"
      "if holds_tid (?at D) t then unat i = probe ?xs t D
       else \<exists>e \<le> D. unat i = probe ?xs t e \<and> \<not> is_occupied (?at e)"
    using find_slot_from_correct [OF shape D before, of 0 _ SIZE_MAX] start
    by (auto simp: find_slot_def)
  show thesis
  proof (rule that [OF i(1)])
    show "unat i < length ?xs"
      using i(2) probe_less [OF len] by (auto split: if_splits)
    show "holds_tid (?xs ! unat i) t" if "holds_tid (?at D) t"
      using that i(2) by simp
    show "slots_map ?xs t = None \<and> \<not> is_occupied (?xs ! unat i) \<and> reached ?xs t (unat i)"
      if new: "\<not> holds_tid (?at D) t"
    proof (intro conjI)
      from new i(2) obtain e where e: "e \<le> D" "unat i = probe ?xs t e" "\<not> is_occupied (?at e)"
        by auto
      then show "\<not> is_occupied (?xs ! unat i)" by simp
      have "e < length ?xs" using e(1) D_le d0(1) by simp
      moreover have "\<forall>e' < e. \<not> is_empty_slot (?at e')" using before e(1) by auto
      ultimately show "reached ?xs t (unat i)"
        unfolding reached_def e(2) by (intro exI [of _ e] conjI) simp_all
      show "slots_map ?xs t = None"
        unfolding slots_map_None_iff
      proof (intro allI impI notI)
        fix m assume m: "m < length ?xs" "holds_tid (?xs ! m) t"
        with ok have "reached ?xs t m" by (auto simp: slots_ok_def holds_tid_def)
        then obtain d where d: "probe ?xs t d = m" "\<forall>e < d. \<not> is_empty_slot (?at e)"
          by (auto simp: reached_def)
        have "D \<le> d" using D_least [of d] m(2) d(1) by (metis not_le)
        moreover have "D \<noteq> d" using new m(2) d(1) by auto
        ultimately have "\<not> is_empty_slot (?at D)" using d(2) by auto
        with D new show False by simp
      qed
    qed
  qed
qed

section \<open>The invariant of a table\<close>

definition n_occupied :: "sg_tracee_slot list \<Rightarrow> nat" where
  "n_occupied xs = length (filter is_occupied xs)"

definition n_tombstones :: "sg_tracee_slot list \<Rightarrow> nat" where
  "n_tombstones xs = length (filter is_tombstone xs)"

definition linked :: "sg_tracee_slot list \<Rightarrow> bool" where
  "linked xs \<longleftrightarrow> distinct_tids xs \<and>
     (\<forall>i < length xs. is_occupied (xs ! i) \<longrightarrow>
        0 < tid (slot_tracee (xs ! i)) \<and> reached xs (tid (slot_tracee (xs ! i))) i)"

definition table_inv :: "sg_tracee_table \<Rightarrow> nat \<Rightarrow> bool" where
  "table_inv tb k \<longleftrightarrow> table_shape tb k \<and> linked (slots tb) \<and>
     unat (entries tb) = n_occupied (slots tb) \<and>
     unat (tombstones tb) = n_tombstones (slots tb) \<and>
     n_occupied (slots tb) + n_tombstones (slots tb) < 2 ^ k"

definition table_wf :: "sg_tracee_table \<Rightarrow> bool" where
  "table_wf tb \<longleftrightarrow> tb = sg_tracee_table_init \<or> (\<exists>k. table_inv tb k)"

definition table_map :: "sg_tracee_table \<Rightarrow> int \<Rightarrow> sg_tracee option" where
  "table_map tb = slots_map (slots tb)"

lemma slot_counts:
  "n_occupied xs + n_tombstones xs + length (filter is_empty_slot xs) = length xs"
  by (induction xs) (auto simp: n_occupied_def n_tombstones_def intro: sg_tracee_slot_state.exhaust)

lemma empty_slot_exists:
  assumes "n_occupied xs + n_tombstones xs < length xs"
  shows "\<exists>i < length xs. is_empty_slot (xs ! i)"
proof -
  have "filter is_empty_slot xs \<noteq> []" using assms slot_counts [of xs] by auto
  then show ?thesis by (auto simp: filter_empty_conv in_set_conv_nth)
qed

lemma table_inv_slots_ok: "table_inv tb k \<Longrightarrow> slots_ok (slots tb)"
  unfolding slots_ok_def table_inv_def table_shape_def linked_def
  using empty_slot_exists [of "slots tb"] by auto

lemma table_inv_capacity: "table_inv tb k \<Longrightarrow> capacity tb \<noteq> 0"
  by (auto simp: table_inv_def table_shape_def)

lemma table_inv_map_pos: "table_inv tb k \<Longrightarrow> t \<le> 0 \<Longrightarrow> table_map tb t = None"
  by (auto simp: table_map_def slots_map_None_iff table_inv_def linked_def holds_tid_def)

lemma table_map_init [simp]: "table_map sg_tracee_table_init = Map.empty"
  by (simp add: table_map_def sg_tracee_table_init_def slots_map_def fun_eq_iff)

lemma find_slot_inv:
  assumes "table_inv tb k"
  obtains found i where "find_slot tb t = Some (found, i)" and "unat i < length (slots tb)"
    and "found \<Longrightarrow> holds_tid (slots tb ! unat i) t"
    and "\<not> found \<Longrightarrow> table_map tb t = None \<and> \<not> is_occupied (slots tb ! unat i) \<and>
           reached (slots tb) t (unat i)"
  using find_slot_correct [of tb k t] assms table_inv_slots_ok [OF assms]
  unfolding table_map_def table_inv_def by blast

lemma reached_mono:
  assumes "reached xs t i" and "length ys = length xs"
    and "\<And>j. j < length xs \<Longrightarrow> \<not> is_empty_slot (xs ! j) \<Longrightarrow> \<not> is_empty_slot (ys ! j)"
  shows "reached ys t i"
proof -
  from assms(1) obtain d where d: "d < length xs" "probe xs t d = i"
      "\<forall>e < d. \<not> is_empty_slot (xs ! probe xs t e)"
    by (auto simp: reached_def)
  have same: "probe ys t e = probe xs t e" for e by (simp add: probe_def assms(2))
  have "\<not> is_empty_slot (ys ! probe ys t e)" if "e < d" for e
  proof -
    have "probe xs t e < length xs" using d(1) by (intro probe_less) linarith
    from assms(3) [OF this] d(3) that show ?thesis by (simp add: same)
  qed
  then show ?thesis
    unfolding reached_def using d(1,2) assms(2) same by auto
qed

lemma linked_update:
  assumes "linked xs" and "i < length xs" and "distinct_tids (xs[i := s])" and "\<not> is_empty_slot s"
    and "is_occupied s \<Longrightarrow> 0 < tid (slot_tracee s) \<and> reached xs (tid (slot_tracee s)) i"
  shows "linked (xs[i := s])"
  unfolding linked_def
proof (intro conjI allI impI)
  show "distinct_tids (xs[i := s])" by fact
  fix j
  assume j: "j < length (xs[i := s])" "is_occupied (xs[i := s] ! j)"
  then have "0 < tid (slot_tracee (xs[i := s] ! j)) \<and> reached xs (tid (slot_tracee (xs[i := s] ! j))) j"
    using assms(1,2,5) by (cases "j = i") (auto simp: linked_def)
  then show "0 < tid (slot_tracee (xs[i := s] ! j))"
    and "reached (xs[i := s]) (tid (slot_tracee (xs[i := s] ! j))) j"
    using assms(2,4) by (auto elim!: reached_mono simp: nth_list_update split: if_splits)
qed

lemma n_occupied_update:
  "i < length xs \<Longrightarrow> n_occupied (xs[i := s]) + of_bool (is_occupied (xs ! i)) =
     n_occupied xs + of_bool (is_occupied s)"
  unfolding n_occupied_def by (rule filter_length_update)

lemma n_tombstones_update:
  "i < length xs \<Longrightarrow> n_tombstones (xs[i := s]) + of_bool (is_tombstone (xs ! i)) =
     n_tombstones xs + of_bool (is_tombstone s)"
  unfolding n_tombstones_def by (rule filter_length_update)

text \<open>Counters stay far below the word size, so their increments do not wrap.\<close>

lemma shape_small: "table_shape tb k \<Longrightarrow> (2::nat) ^ k \<le> 2 ^ 55"
  by (intro power_increasing) (auto simp: table_shape_def)

lemma unat_Suc: "unat w < 2 ^ 55 \<Longrightarrow> unat (w + 1) = unat w + 1" for w :: u64
  by (subst unat_add_no_wrap) auto

lemma unat_pred: "0 < unat w \<Longrightarrow> unat (w - 1) = unat w - 1" for w :: u64
  by (subst unat_sub_no_wrap) auto

lemma slots_map_Nil [simp]: "slots_map [] = Map.empty"
  by (simp add: slots_map_def fun_eq_iff)

lemma slots_map_Cons:
  "slots_map (s # xs) =
     (if is_occupied s then (slots_map xs)(tid (slot_tracee s) \<mapsto> slot_tracee s)
      else slots_map xs)"
  by (auto simp: slots_map_def holds_tid_def fun_eq_iff)

lemma distinct_tids_ConsD:
  assumes "distinct_tids (s # xs)"
  shows "distinct_tids xs" and "is_occupied s \<Longrightarrow> slots_map xs (tid (slot_tracee s)) = None"
proof -
  show "distinct_tids xs"
  proof (rule distinct_tidsI)
    fix i j t
    assume "i < length xs" "j < length xs" "holds_tid (xs ! i) t" "holds_tid (xs ! j) t"
    then show "i = j" using distinct_tidsD [OF assms, of "Suc i" "Suc j" t] by simp
  qed
  show "slots_map xs (tid (slot_tracee s)) = None" if "is_occupied s"
    unfolding slots_map_None_iff
    using that distinct_tidsD [OF assms, of 0 "Suc _" "tid (slot_tracee s)"]
    by (auto simp: holds_tid_def)
qed

lemma card_dom_slots_map: "distinct_tids xs \<Longrightarrow> card (dom (slots_map xs)) = n_occupied xs"
proof (induction xs)
  case (Cons s xs)
  have fin: "finite (dom (slots_map ys))" for ys
    by (induction ys) (simp_all add: slots_map_Cons)
  note split = distinct_tids_ConsD [OF Cons.prems]
  show ?case
  proof (cases "is_occupied s")
    case True
    then have "tid (slot_tracee s) \<notin> dom (slots_map xs)" using split(2) by auto
    with True Cons.IH [OF split(1)] fin [of xs] show ?thesis
      by (simp add: slots_map_Cons n_occupied_def del: fun_upd_apply)
  qed (use Cons.IH [OF split(1)] in \<open>simp add: slots_map_Cons n_occupied_def\<close>)
qed (simp add: n_occupied_def)

lemma linked_put:
  assumes "linked xs" and "i < length xs" and "\<not> is_occupied (xs ! i)"
    and "slots_map xs (tid v) = None" and "reached xs (tid v) i" and "0 < tid v"
    and "is_occupied s" and "slot_tracee s = v"
  shows "linked (xs[i := s])"
proof (rule linked_update [OF assms(1,2)])
  show "distinct_tids (xs[i := s])"
    using slots_put(1) [of xs i v s] assms by (simp add: linked_def)
qed (use assms in auto)

section \<open>Writing one slot of a table\<close>

lemma table_put:
  assumes inv: "table_inv tb k" and find: "find_slot tb (tid v) = Some (False, i)"
    and pos: "0 < tid v" and s: "is_occupied s" "slot_tracee s = v"
    and room: "n_occupied (slots tb) + n_tombstones (slots tb) + 1 < 2 ^ k"
    and tb': "slots tb' = (slots tb)[unat i := s]" "capacity tb' = capacity tb"
      "entries tb' = entries tb + 1"
      "tombstones tb' = (if is_tombstone (slots tb ! unat i) then tombstones tb - 1 else tombstones tb)"
  shows "table_inv tb' k" and "table_map tb' = (table_map tb)(tid v \<mapsto> v)"
    and "n_occupied (slots tb') = n_occupied (slots tb) + 1"
    and "n_tombstones (slots tb') \<le> n_tombstones (slots tb)"
proof -
  let ?xs = "slots tb"
  have i: "unat i < length ?xs" and free: "\<not> is_occupied (?xs ! unat i)"
    and absent: "slots_map ?xs (tid v) = None" and way: "reached ?xs (tid v) (unat i)"
    using find find_slot_inv [OF inv, of "tid v"] by (force simp: table_map_def)+
  have shape: "table_shape tb k" and linked: "linked ?xs"
    and e: "unat (entries tb) = n_occupied ?xs" and t: "unat (tombstones tb) = n_tombstones ?xs"
    using inv by (auto simp: table_inv_def)
  show occ: "n_occupied (slots tb') = n_occupied ?xs + 1"
    using n_occupied_update [OF i, of s] free s by (simp add: tb')
  have tomb: "n_tombstones (slots tb') + of_bool (is_tombstone (?xs ! unat i)) = n_tombstones ?xs"
    using n_tombstones_update [OF i, of s] s by (simp add: tb')
  then show "n_tombstones (slots tb') \<le> n_tombstones ?xs" by linarith
  have "unat (entries tb') = n_occupied (slots tb')"
    using e occ room shape_small [OF shape] by (simp add: tb' unat_Suc)
  moreover have "unat (tombstones tb') = n_tombstones (slots tb')"
    using t tomb by (auto simp: tb'(4) unat_pred split: if_splits)
  moreover have "table_shape tb' k" using shape by (simp add: table_shape_def tb')
  moreover have "linked (slots tb')"
    unfolding tb' using linked i free absent way pos s by (rule linked_put)
  ultimately show "table_inv tb' k"
    unfolding table_inv_def using occ tomb room by simp
  show "table_map tb' = (table_map tb)(tid v \<mapsto> v)"
    unfolding table_map_def tb' using linked
    by (intro slots_put(2) i free absent s) (simp add: linked_def)
qed

lemma table_drop:
  assumes inv: "table_inv tb k" and find: "find_slot tb t = Some (True, i)"
    and s: "is_tombstone s"
    and tb': "slots tb' = (slots tb)[unat i := s]" "capacity tb' = capacity tb"
      "entries tb' = entries tb - 1" "tombstones tb' = tombstones tb + 1"
  shows "table_inv tb' k" and "table_map tb' = (table_map tb)(t := None)"
proof -
  let ?xs = "slots tb"
  have i: "unat i < length ?xs" and held: "holds_tid (?xs ! unat i) t"
    using find find_slot_inv [OF inv, of t] by force+
  have occ: "is_occupied (?xs ! unat i)" using held by (simp add: holds_tid_def)
  have shape: "table_shape tb k" and linked: "linked ?xs"
    and e: "unat (entries tb) = n_occupied ?xs" and t: "unat (tombstones tb) = n_tombstones ?xs"
    and sum: "n_occupied ?xs + n_tombstones ?xs < 2 ^ k"
    using inv by (auto simp: table_inv_def)
  have o': "n_occupied (slots tb') + 1 = n_occupied ?xs"
    using n_occupied_update [OF i, of s] occ s by (simp add: tb')
  have t': "n_tombstones (slots tb') = n_tombstones ?xs + 1"
    using n_tombstones_update [OF i, of s] occ s by (simp add: tb')
  have dist: "distinct_tids ?xs" using linked by (simp add: linked_def)
  note drop = slots_drop [OF dist i held, of s]
  have "unat (entries tb') = n_occupied (slots tb')"
    using e o' by (simp add: tb' unat_pred)
  moreover have "unat (tombstones tb') = n_tombstones (slots tb')"
    using t t' sum shape_small [OF shape] by (simp add: tb' unat_Suc)
  moreover have "table_shape tb' k" using shape by (simp add: table_shape_def tb')
  moreover have "linked (slots tb')"
    unfolding tb' using linked i drop(1) s by (intro linked_update) auto
  ultimately show "table_inv tb' k" unfolding table_inv_def using o' t' sum by simp
  show "table_map tb' = (table_map tb)(t := None)"
    unfolding table_map_def tb' using drop(2) s by simp
qed

section \<open>Growing the table\<close>

lemma rehash_correct:
  assumes "table_inv tb k" and "n_tombstones (slots tb) = 0" and "distinct_tids olds"
    and "\<And>s. s \<in> set olds \<Longrightarrow> is_occupied s \<Longrightarrow>
           0 < tid (slot_tracee s) \<and> table_map tb (tid (slot_tracee s)) = None"
    and "n_occupied (slots tb) + n_occupied olds < 2 ^ k"
  shows "\<exists>tb'. rehash tb olds = Some tb' \<and> table_inv tb' k \<and> n_tombstones (slots tb') = 0 \<and>
    n_occupied (slots tb') = n_occupied (slots tb) + n_occupied olds \<and>
    table_map tb' = table_map tb ++ slots_map olds"
  using assms
proof (induction olds arbitrary: tb)
  case Nil
  then show ?case by (simp add: n_occupied_def)
next
  case (Cons s olds)
  note split = distinct_tids_ConsD [OF Cons.prems(3)]
  show ?case
  proof (cases "is_occupied s")
    case False
    then have "n_occupied (s # olds) = n_occupied olds" by (simp add: n_occupied_def)
    with False Cons.IH [OF Cons.prems(1,2) split(1)] Cons.prems(4,5) show ?thesis
      by (simp add: slots_map_Cons)
  next
    case True
    let ?v = "slot_tracee s"
    have more: "n_occupied (s # olds) = n_occupied olds + 1" using True by (simp add: n_occupied_def)
    have v: "0 < tid ?v" "table_map tb (tid ?v) = None" using Cons.prems(4) True by auto
    obtain found i where find: "find_slot tb (tid ?v) = Some (found, i)"
        "unat i < length (slots tb)" "found \<Longrightarrow> holds_tid (slots tb ! unat i) (tid ?v)"
      using find_slot_inv [OF Cons.prems(1), of "tid ?v"] by blast
    then have "\<not> found" using v(2) by (auto simp: table_map_def slots_map_None_iff)
    with find have find: "find_slot tb (tid ?v) = Some (False, i)" "unat i < length (slots tb)"
      by simp_all
    let ?s = "s\<lparr>slot_state := SG_TRACEE_SLOT_OCCUPIED\<rparr>"
    let ?tb = "tb\<lparr>slots := (slots tb)[unat i := ?s], entries := entries tb + 1\<rparr>"
    have "\<not> is_tombstone (slots tb ! unat i)"
      using Cons.prems(2) find(2) by (auto simp: n_tombstones_def filter_empty_conv)
    then have put: "table_inv ?tb k" "table_map ?tb = (table_map tb)(tid ?v \<mapsto> ?v)"
        "n_occupied (slots ?tb) = n_occupied (slots tb) + 1" "n_tombstones (slots ?tb) = 0"
      using table_put [OF Cons.prems(1) find(1) v(1), of ?s ?tb] Cons.prems(2,5) more
      by (simp_all del: fun_upd_apply)
    have fresh: "0 < tid (slot_tracee s') \<and> table_map ?tb (tid (slot_tracee s')) = None"
      if "s' \<in> set olds" "is_occupied s'" for s'
      using that Cons.prems(4) [of s'] split(2) [OF True]
      by (auto simp: put(2) slots_map_None_iff in_set_conv_nth holds_tid_def)
    from Cons.IH [OF put(1,4) split(1) fresh] Cons.prems(5) more put(3)
    obtain tb' where tb': "rehash ?tb olds = Some tb'" "table_inv tb' k"
        "n_tombstones (slots tb') = 0"
        "n_occupied (slots tb') = n_occupied (slots ?tb) + n_occupied olds"
        "table_map tb' = table_map ?tb ++ slots_map olds"
      by auto
    have "table_map tb' = table_map tb ++ slots_map (s # olds)"
      unfolding tb'(5) put(2) using split(2) [OF True] True
      by (auto simp: slots_map_Cons fun_eq_iff map_add_def split: option.splits)
    with tb' put(3) more True find(1) show ?thesis by simp
  qed
qed

lemma fresh_table_inv:
  assumes "unat new_capacity = 2 ^ k" and "4 \<le> k" and "k \<le> 55"
  defines "tb \<equiv> \<lparr>slots = replicate (unat new_capacity) empty_slot, capacity = new_capacity,
                  entries = 0, tombstones = 0\<rparr>"
  shows "table_inv tb k" and "n_occupied (slots tb) = 0" and "n_tombstones (slots tb) = 0"
    and "table_map tb = Map.empty"
proof -
  show occ: "n_occupied (slots tb) = 0" and tomb: "n_tombstones (slots tb) = 0"
    by (auto simp: tb_def n_occupied_def n_tombstones_def empty_slot_def)
  show "table_map tb = Map.empty"
    by (auto simp: tb_def table_map_def slots_map_None_iff holds_tid_def empty_slot_def fun_eq_iff)
  have "linked (slots tb)"
    by (auto simp: tb_def linked_def empty_slot_def holds_tid_def intro!: distinct_tidsI)
  with occ tomb assms show "table_inv tb k"
    by (simp add: table_inv_def table_shape_def)
qed

lemma calloc_limit: "(2::nat) ^ k * sizeof_slot < 2 ^ 64 \<Longrightarrow> k \<le> 55"
proof (rule ccontr)
  assume "2 ^ k * sizeof_slot < 2 ^ 64" and "\<not> k \<le> 55"
  then have "(2::nat) ^ 56 \<le> 2 ^ k" by (intro power_increasing) auto
  then have "(2::nat) ^ 56 * sizeof_slot \<le> 2 ^ k * sizeof_slot" by (rule mult_le_mono1)
  with \<open>2 ^ k * sizeof_slot < 2 ^ 64\<close> show False by (simp add: sizeof_slot_def)
qed

lemma calloc_grants: "k \<le> 55 \<Longrightarrow> (2::nat) ^ k * sizeof_slot < 2 ^ 64"
proof -
  assume "k \<le> 55"
  then have "(2::nat) ^ k \<le> 2 ^ 55" by (intro power_increasing) auto
  then have "(2::nat) ^ k * sizeof_slot \<le> 2 ^ 55 * sizeof_slot" by (rule mult_le_mono1)
  also have "\<dots> < 2 ^ 64" by (simp add: sizeof_slot_def)
  finally show ?thesis .
qed

lemma resize_table_correct:
  assumes wf: "table_wf tb" and cap: "unat new_capacity = 2 ^ k" and k: "4 \<le> k"
    and fits: "n_occupied (slots tb) < 2 ^ k"
  shows "\<exists>ok h' tb'. resize_table h tb new_capacity = Some (ok, h', tb') \<and>
    (if ok then table_inv tb' k \<and> n_tombstones (slots tb') = 0 \<and>
         n_occupied (slots tb') = n_occupied (slots tb) \<and> table_map tb' = table_map tb
     else tb' = tb \<and> (False \<in> set h \<or> 55 < k))"
proof -
  obtain ok h' where al: "alloc h = (ok, h')" by (cases "alloc h")
  have refused: "False \<in> set h" if "\<not> ok" using al that by (cases h) auto
  show ?thesis
  proof (cases "ok \<and> 2 ^ k * sizeof_slot < 2 ^ 64")
    case False
    then have "resize_table h tb new_capacity = Some (False, h', tb)"
      using al cap by (auto simp: resize_table_def)
    moreover have "False \<in> set h \<or> 55 < k"
      using False refused calloc_grants [of k] by (cases ok) auto
    ultimately show ?thesis by (intro exI [of _ False]) simp
  next
    case True
    then have k55: "k \<le> 55" by (intro calloc_limit) simp
    note fresh = fresh_table_inv [OF cap k k55]
    have d: "distinct_tids (slots tb)"
      and pos: "\<And>s. s \<in> set (slots tb) \<Longrightarrow> is_occupied s \<Longrightarrow> 0 < tid (slot_tracee s)"
      using wf by (auto simp: table_wf_def table_inv_def linked_def sg_tracee_table_init_def
          in_set_conv_nth intro: distinct_tidsI)
    from rehash_correct [OF fresh(1,3) d] pos fresh(2,4) fits True al cap show ?thesis
      by (auto simp: resize_table_def table_map_def)
  qed
qed

text \<open>The load test does not wrap: below \<open>2 ^ 55\<close> slots both products fit in 64 bits.\<close>

lemma load_test:
  assumes "table_inv tb k"
  shows "(entries tb + tombstones tb + 1) * 10 < capacity tb * 7 \<longleftrightarrow>
    (n_occupied (slots tb) + n_tombstones (slots tb) + 1) * 10 < 2 ^ k * 7"
proof -
  let ?n = "n_occupied (slots tb) + n_tombstones (slots tb)"
  have small: "?n < 2 ^ k" "(2::nat) ^ k \<le> 2 ^ 55" "unat (capacity tb) = 2 ^ k"
    using assms shape_small [of tb k] by (auto simp: table_inv_def table_shape_def)
  have "unat (entries tb + tombstones tb) = ?n"
    using assms small by (subst unat_add_no_wrap) (auto simp: table_inv_def)
  then have sum: "unat (entries tb + tombstones tb + 1) = ?n + 1"
    using small by (simp add: unat_Suc)
  have "unat ((entries tb + tombstones tb + 1) * 10) = (?n + 1) * 10"
    using small sum by (subst unat_mult_no_wrap) simp_all
  moreover have "unat (capacity tb * 7) = 2 ^ k * 7"
    using small by (subst unat_mult_no_wrap) simp_all
  ultimately show ?thesis by (simp only: word_less_nat_alt)
qed

lemma load_arith: "(a + 1) * 10 < b * 7 \<Longrightarrow> a + 1 < b" for a b :: nat
  by simp

text \<open>What \<open>ensure_capacity\<close> promises: a table with room for one more entry, or no change.\<close>

definition capacity_ensured :: "heap \<Rightarrow> sg_tracee_table \<Rightarrow> bool \<Rightarrow> sg_tracee_table \<Rightarrow> bool" where
  "capacity_ensured h tb ok tb' \<longleftrightarrow>
     (if ok then \<exists>k. table_inv tb' k \<and> table_map tb' = table_map tb \<and>
          n_occupied (slots tb') + n_tombstones (slots tb') + 1 < 2 ^ k
      else tb' = tb \<and> (False \<in> set h \<or> 2 ^ 55 \<le> unat (capacity tb)))"

lemma resize_ensures:
  assumes wf: "table_wf tb" and "unat new_capacity = 2 ^ k" and "4 \<le> k"
    and "n_occupied (slots tb) + 1 < 2 ^ k" and "55 < k \<Longrightarrow> 2 ^ 55 \<le> unat (capacity tb)"
  shows "\<exists>ok h' tb'. resize_table h tb new_capacity = Some (ok, h', tb') \<and>
    capacity_ensured h tb ok tb'"
proof -
  obtain ok h' tb' where r: "resize_table h tb new_capacity = Some (ok, h', tb')"
    "if ok then table_inv tb' k \<and> n_tombstones (slots tb') = 0 \<and>
         n_occupied (slots tb') = n_occupied (slots tb) \<and> table_map tb' = table_map tb
     else tb' = tb \<and> (False \<in> set h \<or> 55 < k)"
    using resize_table_correct [OF assms(1-3), of h] assms(4) by auto
  have "capacity_ensured h tb ok tb'"
    using r(2) assms(4,5) by (cases ok) (auto simp: capacity_ensured_def)
  with r(1) show ?thesis by blast
qed

lemma ensure_capacity_correct:
  assumes "table_wf tb"
  shows "\<exists>ok h' tb'. ensure_capacity h tb = Some (ok, h', tb') \<and> capacity_ensured h tb ok tb'"
proof (cases "capacity tb = 0")
  case True
  with assms have tb: "tb = sg_tracee_table_init"
    using table_inv_capacity by (auto simp: table_wf_def)
  then have "n_occupied (slots tb) = 0" by (simp add: sg_tracee_table_init_def n_occupied_def)
  moreover have "ensure_capacity h tb = resize_table h tb SG_TRACEE_INITIAL_CAPACITY"
    using True by (simp add: ensure_capacity_def)
  ultimately show ?thesis
    using resize_ensures [OF assms, of SG_TRACEE_INITIAL_CAPACITY 4 h]
    by (simp add: SG_TRACEE_INITIAL_CAPACITY_def)
next
  case False
  with assms obtain k where inv: "table_inv tb k"
    by (auto simp: table_wf_def sg_tracee_table_init_def)
  let ?n = "n_occupied (slots tb) + n_tombstones (slots tb)"
  have small: "?n < 2 ^ k" "(2::nat) ^ k \<le> 2 ^ 55" "unat (capacity tb) = 2 ^ k" "4 \<le> k" "k \<le> 55"
    using inv shape_small [of tb k] by (auto simp: table_inv_def table_shape_def)
  show ?thesis
  proof (cases "(?n + 1) * 10 < 2 ^ k * 7")
    case True
    then have "ensure_capacity h tb = Some (True, h, tb)"
      using False load_test [OF inv] by (simp add: ensure_capacity_def)
    moreover have "?n + 1 < 2 ^ k" using True load_arith by blast
    ultimately show ?thesis using inv by (auto simp: capacity_ensured_def)
  next
    case heavy: False
    have "\<not> capacity tb > SIZE_MAX div 2"
      using small(2,3) by (simp add: word_less_nat_alt unat_div)
    then have eq: "ensure_capacity h tb = resize_table h tb (capacity tb * 2)"
      using False load_test [OF inv] heavy by (simp add: ensure_capacity_def)
    have "unat (capacity tb * 2) = 2 ^ Suc k"
      using small(2,3) by (subst unat_mult_no_wrap) simp_all
    moreover have "(16::nat) \<le> 2 ^ k" using power_increasing [OF small(4), of "2::nat"] by simp
    then have "n_occupied (slots tb) + 1 < 2 ^ Suc k" using small(1) by simp
    moreover have "k = 55" if "55 < Suc k" using that small(5) by simp
    ultimately show ?thesis
      unfolding eq using small(3,4) by (intro resize_ensures [OF assms, of _ "Suc k"]) auto
  qed
qed

section \<open>The operations on the abstract map\<close>

lemma table_get_correct:
  assumes "table_wf tb"
  shows "sg_tracee_table_get tb t = Some (table_map tb t)"
proof (cases "tb = sg_tracee_table_init")
  case True
  then show ?thesis by (simp add: sg_tracee_table_get_def sg_tracee_table_init_def table_map_def)
next
  case False
  with assms obtain k where inv: "table_inv tb k" by (auto simp: table_wf_def)
  obtain found i where find: "find_slot tb t = Some (found, i)" "unat i < length (slots tb)"
      "found \<Longrightarrow> holds_tid (slots tb ! unat i) t" "\<not> found \<Longrightarrow> table_map tb t = None"
    using find_slot_inv [OF inv, of t] by blast
  have "table_map tb t = Some (slot_tracee (slots tb ! unat i))" if found
    using that find inv
    by (auto simp: table_map_def table_inv_def linked_def slots_map_Some_iff)
  then show ?thesis
    using find(1,4) table_inv_capacity [OF inv] table_inv_map_pos [OF inv, of t]
    by (auto simp: sg_tracee_table_get_def)
qed

lemma table_insert_correct:
  assumes "table_wf tb"
  shows "\<exists>r h' tb'. sg_tracee_table_insert h tb t tg att = Some (r, h', tb') \<and> table_wf tb' \<and>
    (case r of
       None \<Rightarrow> tb' = tb \<and> (t \<le> 0 \<or> tg \<le> 0 \<or> False \<in> set h \<or> 2 ^ 55 \<le> unat (capacity tb))
     | Some False \<Rightarrow> 0 < t \<and> 0 < tg \<and> t \<in> dom (table_map tb) \<and> table_map tb' = table_map tb
     | Some True \<Rightarrow> 0 < t \<and> 0 < tg \<and> t \<notin> dom (table_map tb) \<and>
         table_map tb' = (table_map tb)(t \<mapsto> fresh_tracee t tg att))"
proof (cases "t \<le> 0 \<or> tg \<le> 0")
  case True
  then show ?thesis using assms by (auto simp: sg_tracee_table_insert_def)
next
  case pos: False
  obtain ok h' tb1 where cap: "ensure_capacity h tb = Some (ok, h', tb1)"
      "capacity_ensured h tb ok tb1"
    using ensure_capacity_correct [OF assms, of h] by blast
  show ?thesis
  proof (cases ok)
    case False
    with pos cap assms show ?thesis
      by (auto simp: sg_tracee_table_insert_def capacity_ensured_def)
  next
    case True
    with cap(2) obtain k where inv: "table_inv tb1 k" and same: "table_map tb1 = table_map tb"
      and room: "n_occupied (slots tb1) + n_tombstones (slots tb1) + 1 < 2 ^ k"
      by (auto simp: capacity_ensured_def)
    obtain found i where find: "find_slot tb1 t = Some (found, i)" "unat i < length (slots tb1)"
        "found \<Longrightarrow> holds_tid (slots tb1 ! unat i) t" "\<not> found \<Longrightarrow> table_map tb1 t = None"
      using find_slot_inv [OF inv, of t] by blast
    show ?thesis
    proof (cases found)
      case True
      then have "table_map tb1 t \<noteq> None"
        using find by (auto simp: table_map_def slots_map_None_iff)
      with True \<open>ok\<close> cap(1) pos find(1) inv same show ?thesis
        by (auto simp: sg_tracee_table_insert_def table_wf_def)
    next
      case False
      let ?v = "fresh_tracee t tg att"
      let ?s = "\<lparr>slot_state = SG_TRACEE_SLOT_OCCUPIED, slot_tracee = ?v\<rparr>"
      define tb' where "tb' = tb1\<lparr>tombstones := (if is_tombstone (slots tb1 ! unat i)
          then tombstones tb1 - 1 else tombstones tb1),
        slots := (slots tb1)[unat i := ?s], entries := entries tb1 + 1\<rparr>"
      have v: "tid ?v = t" by (simp add: fresh_tracee_def)
      have "table_inv tb' k" "table_map tb' = (table_map tb1)(t \<mapsto> ?v)"
        using table_put [OF inv, of ?v i ?s tb'] find(1) False pos room
        by (simp_all add: tb'_def v del: fun_upd_apply)
      moreover have "sg_tracee_table_insert h tb t tg att = Some (Some True, h', tb')"
        using pos cap(1) \<open>ok\<close> find(1) False by (simp add: sg_tracee_table_insert_def tb'_def)
      ultimately show ?thesis using same find(4) False pos by (auto simp: table_wf_def)
    qed
  qed
qed

lemma table_remove_correct:
  assumes "table_wf tb"
  shows "\<exists>tb'. sg_tracee_table_remove tb t = Some (table_map tb t, tb') \<and> table_wf tb' \<and>
    table_map tb' = (table_map tb)(t := None)"
proof (cases "tb = sg_tracee_table_init")
  case True
  then show ?thesis
    by (auto simp: sg_tracee_table_remove_def sg_tracee_table_init_def table_map_def table_wf_def)
next
  case False
  with assms obtain k where inv: "table_inv tb k" by (auto simp: table_wf_def)
  have get: "sg_tracee_table_get tb t = Some (table_map tb t)" using assms by (rule table_get_correct)
  show ?thesis
  proof (cases "table_map tb t")
    case None
    then have "sg_tracee_table_remove tb t = Some (None, tb)"
      using get table_inv_capacity [OF inv]
      by (auto simp: sg_tracee_table_remove_def sg_tracee_table_get_def split: option.splits if_splits bool.splits)
    with None assms show ?thesis by (auto simp: fun_upd_idem)
  next
    case (Some v)
    then obtain i where i: "find_slot tb t = Some (True, i)" "slot_tracee (slots tb ! unat i) = v"
        and pos: "\<not> t \<le> 0"
      using get by (auto simp: sg_tracee_table_get_def split: option.splits if_splits)
    define tb' where "tb' = tb\<lparr>slots := (slots tb)[unat i := \<lparr>slot_state = SG_TRACEE_SLOT_TOMBSTONE,
        slot_tracee = zero_tracee\<rparr>], entries := entries tb - 1, tombstones := tombstones tb + 1\<rparr>"
    have "table_inv tb' k" "table_map tb' = (table_map tb)(t := None)"
      using table_drop [OF inv i(1), of _ tb'] by (simp_all add: tb'_def del: fun_upd_apply)
    moreover have "sg_tracee_table_remove tb t = Some (Some v, tb')"
      using i pos table_inv_capacity [OF inv] by (simp add: sg_tracee_table_remove_def tb'_def)
    ultimately show ?thesis using Some by (auto simp: table_wf_def)
  qed
qed

lemma tracee_store_correct:
  assumes "table_wf tb" and "table_map tb t = Some v" and "tid (f v) = t"
  shows "\<exists>tb'. tracee_store tb t f = Some tb' \<and> table_wf tb' \<and> table_map tb' = (table_map tb)(t \<mapsto> f v)"
proof -
  obtain k where inv: "table_inv tb k"
    using assms(1,2) by (auto simp: table_wf_def)
  from table_get_correct [OF assms(1), of t] assms(2) obtain i
    where i: "find_slot tb t = Some (True, i)" "slot_tracee (slots tb ! unat i) = v"
      and pos: "\<not> t \<le> 0"
    by (auto simp: sg_tracee_table_get_def split: option.splits if_splits)
  have lt: "unat i < length (slots tb)" and held: "holds_tid (slots tb ! unat i) t"
    using i(1) find_slot_inv [OF inv, of t] by force+
  let ?s = "(slots tb ! unat i)\<lparr>slot_tracee := f v\<rparr>"
  let ?xs = "(slots tb)[unat i := ?s]"
  have linked: "linked (slots tb)" using inv by (simp add: table_inv_def)
  have s: "is_occupied ?s" using held by (simp add: holds_tid_def)
  note modify = slots_modify [OF _ lt held s, of "f v"]
  have d: "distinct_tids ?xs" using modify(1) linked assms(3) by (simp add: linked_def)
  have m: "slots_map ?xs = (slots_map (slots tb))(t \<mapsto> f v)"
    using modify(2) linked assms(3) by (simp add: linked_def)
  have "linked ?xs"
    using linked lt d
  proof (rule linked_update)
    show "0 < tid (slot_tracee ?s) \<and> reached (slots tb) (tid (slot_tracee ?s)) (unat i)"
      using linked lt held assms(3) by (auto simp: linked_def holds_tid_def)
  qed (use s in simp)
  moreover have "n_occupied ?xs = n_occupied (slots tb)" "n_tombstones ?xs = n_tombstones (slots tb)"
    using n_occupied_update [OF lt, of ?s] n_tombstones_update [OF lt, of ?s] held
    by (simp_all add: holds_tid_def)
  ultimately have "table_inv (tb\<lparr>slots := ?xs\<rparr>) k"
    using inv by (simp add: table_inv_def table_shape_def)
  moreover have "tracee_store tb t f = Some (tb\<lparr>slots := ?xs\<rparr>)"
    using i pos table_inv_capacity [OF inv] by (simp add: tracee_store_def)
  ultimately show ?thesis using m by (auto simp: table_wf_def table_map_def)
qed

section \<open>The interface of the table\<close>

text \<open>
  What \<open>trace.c\<close> relies on: total operations on a map from thread ids to tracees. The client
  lemmas are the equations the tracer uses: a lookup after an insertion, a removal or a store.
\<close>

locale tid_map =
  fixes wf :: "'t \<Rightarrow> bool"
    and contents :: "'t \<Rightarrow> int \<Rightarrow> sg_tracee option"
    and lookup :: "'t \<Rightarrow> int \<Rightarrow> sg_tracee option option"
    and enter :: "heap \<Rightarrow> 't \<Rightarrow> int \<Rightarrow> int \<Rightarrow> bool \<Rightarrow> (bool option \<times> heap \<times> 't) option"
    and delete :: "'t \<Rightarrow> int \<Rightarrow> (sg_tracee option \<times> 't) option"
    and modify :: "'t \<Rightarrow> int \<Rightarrow> (sg_tracee \<Rightarrow> sg_tracee) \<Rightarrow> 't option"
  assumes lookup_law: "wf tb \<Longrightarrow> lookup tb t = Some (contents tb t)"
    and enter_total: "wf tb \<Longrightarrow> \<exists>r h' tb'. enter h tb t tg att = Some (r, h', tb')"
    and enter_law: "wf tb \<Longrightarrow> enter h tb t tg att = Some (r, h', tb') \<Longrightarrow> wf tb' \<and>
      contents tb' = (if r = Some True then (contents tb)(t \<mapsto> fresh_tracee t tg att)
                      else contents tb) \<and>
      (r = Some True \<longrightarrow> contents tb t = None) \<and> (r = Some False \<longrightarrow> contents tb t \<noteq> None)"
    and delete_law: "wf tb \<Longrightarrow> \<exists>tb'. delete tb t = Some (contents tb t, tb') \<and> wf tb' \<and>
      contents tb' = (contents tb)(t := None)"
    and modify_law: "wf tb \<Longrightarrow> contents tb t = Some v \<Longrightarrow> tid (f v) = t \<Longrightarrow>
      \<exists>tb'. modify tb t f = Some tb' \<and> wf tb' \<and> contents tb' = (contents tb)(t \<mapsto> f v)"
begin

lemma lookup_enter:
  assumes "wf tb" and "enter h tb t tg att = Some (Some fresh, h', tb')"
  shows "lookup tb' u =
    Some (if fresh \<and> u = t then Some (fresh_tracee t tg att) else contents tb u)"
  using enter_law [OF assms] lookup_law [of tb' u] by auto

lemma enter_refused:
  assumes "wf tb" and "enter h tb t tg att = Some (None, h', tb')"
  shows "lookup tb' u = lookup tb u"
  using enter_law [OF assms] lookup_law assms(1) by auto

lemma lookup_delete:
  assumes "wf tb" and "delete tb t = Some (v, tb')"
  shows "lookup tb' u = (if u = t then Some None else lookup tb u)" and "lookup tb t = Some v"
  using delete_law [OF assms(1), of t] assms lookup_law by auto

lemma enter_delete:
  assumes "wf tb" and "enter h tb t tg att = Some (Some True, h', tb')"
  shows "\<exists>tb''. delete tb' t = Some (Some (fresh_tracee t tg att), tb'') \<and>
    contents tb'' = contents tb"
  using enter_law [OF assms] delete_law [of tb' t] by (auto simp: fun_upd_idem)

lemma lookup_modify:
  assumes "wf tb" and "lookup tb t = Some (Some v)" and "tid (f v) = t"
    and "modify tb t f = Some tb'"
  shows "lookup tb' u = (if u = t then Some (Some (f v)) else lookup tb u)"
  using modify_law [of tb t v f] assms lookup_law by auto

end

lemma table_wf_init [simp]: "table_wf sg_tracee_table_init"
  by (simp add: table_wf_def)

interpretation tab: tid_map table_wf table_map sg_tracee_table_get sg_tracee_table_insert
  sg_tracee_table_remove tracee_store
proof unfold_locales
  fix tb h t tg att r h' tb'
  assume wf: "table_wf tb"
  show "\<exists>r h' tb'. sg_tracee_table_insert h tb t tg att = Some (r, h', tb')"
    using table_insert_correct [OF wf] by blast
  assume "sg_tracee_table_insert h tb t tg att = Some (r, h', tb')"
  then show "table_wf tb' \<and>
      table_map tb' = (if r = Some True then (table_map tb)(t \<mapsto> fresh_tracee t tg att)
                      else table_map tb) \<and>
      (r = Some True \<longrightarrow> table_map tb t = None) \<and> (r = Some False \<longrightarrow> table_map tb t \<noteq> None)"
    using table_insert_correct [OF wf, of h t tg att]
    by (auto split: option.splits bool.splits simp del: fun_upd_apply)
qed (use table_get_correct table_remove_correct tracee_store_correct in auto)

section \<open>Sequences of operations\<close>

datatype table_op = Insert_op int int bool | Remove_op int | Get_op int

datatype table_answer =
  Inserted "bool option" | Removed "sg_tracee option" | Got "sg_tracee option"

fun table_step :: "heap \<Rightarrow> sg_tracee_table \<Rightarrow> table_op \<Rightarrow>
    (table_answer \<times> heap \<times> sg_tracee_table) option" where
  "table_step h tb (Insert_op t tg att) =
     map_option (\<lambda>(r, h', tb'). (Inserted r, h', tb')) (sg_tracee_table_insert h tb t tg att)"
| "table_step h tb (Remove_op t) =
     map_option (\<lambda>(r, tb'). (Removed r, h, tb')) (sg_tracee_table_remove tb t)"
| "table_step h tb (Get_op t) =
     map_option (\<lambda>r. (Got r, h, tb)) (sg_tracee_table_get tb t)"

fun run_ops :: "heap \<Rightarrow> sg_tracee_table \<Rightarrow> table_op list \<Rightarrow>
    (table_answer list \<times> sg_tracee_table) option" where
  "run_ops h tb [] = Some ([], tb)"
| "run_ops h tb (op # ops) =
     (case table_step h tb op of
        None \<Rightarrow> None
      | Some (a, h', tb') \<Rightarrow>
          map_option (\<lambda>(as, tb''). (a # as, tb'')) (run_ops h' tb' ops))"

text \<open>The same operations on a map. An insertion may be refused, and then changes nothing.\<close>

inductive map_run ::
    "(int \<Rightarrow> sg_tracee option) \<Rightarrow> table_op list \<Rightarrow> table_answer list \<Rightarrow>
     (int \<Rightarrow> sg_tracee option) \<Rightarrow> bool" where
  done_ops: "map_run m [] [] m"
| insert_new: "m t = None \<Longrightarrow> map_run (m(t \<mapsto> fresh_tracee t tg att)) ops as m' \<Longrightarrow>
    map_run m (Insert_op t tg att # ops) (Inserted (Some True) # as) m'"
| insert_old: "m t \<noteq> None \<Longrightarrow> map_run m ops as m' \<Longrightarrow>
    map_run m (Insert_op t tg att # ops) (Inserted (Some False) # as) m'"
| insert_refused: "map_run m ops as m' \<Longrightarrow>
    map_run m (Insert_op t tg att # ops) (Inserted None # as) m'"
| remove_op: "map_run (m(t := None)) ops as m' \<Longrightarrow>
    map_run m (Remove_op t # ops) (Removed (m t) # as) m'"
| get_op: "map_run m ops as m' \<Longrightarrow> map_run m (Get_op t # ops) (Got (m t) # as) m'"

lemma table_step_correct:
  assumes "table_wf tb"
  obtains a h' tb' where "table_step h tb op = Some (a, h', tb')" and "table_wf tb'"
    and "\<And>ops as m'. map_run (table_map tb') ops as m' \<Longrightarrow>
           map_run (table_map tb) (op # ops) (a # as) m'"
proof (cases op)
  case (Insert_op t tg att)
  obtain r h' tb' where r: "sg_tracee_table_insert h tb t tg att = Some (r, h', tb')"
    using tab.enter_total [OF assms] by blast
  note law = tab.enter_law [OF assms r]
  show ?thesis
  proof (rule that [of "Inserted r" h' tb'])
    show "map_run (table_map tb) (op # ops) (Inserted r # as) m'"
      if "map_run (table_map tb') ops as m'" for ops as m'
      using that law unfolding Insert_op
      by (cases r rule: option.exhaust [case_names None Some])
        (auto intro: map_run.intros split: if_splits)
  qed (use r law Insert_op in auto)
next
  case (Remove_op t)
  from tab.delete_law [OF assms, of t] obtain tb' where
      "sg_tracee_table_remove tb t = Some (table_map tb t, tb')" "table_wf tb'"
      "table_map tb' = (table_map tb)(t := None)"
    by blast
  then show ?thesis
    by (intro that [of "Removed (table_map tb t)" h tb'])
      (simp_all add: Remove_op map_run.remove_op)
next
  case (Get_op t)
  with tab.lookup_law [OF assms, of t] show ?thesis
    using that assms by (auto intro: map_run.intros)
qed

lemma run_ops_correct:
  "table_wf tb \<Longrightarrow> \<exists>as tb'. run_ops h tb ops = Some (as, tb') \<and> table_wf tb' \<and>
     map_run (table_map tb) ops as (table_map tb')"
proof (induction ops arbitrary: h tb)
  case Nil
  then show ?case by (simp add: map_run.intros)
next
  case (Cons op ops)
  obtain a h' tb' where step: "table_step h tb op = Some (a, h', tb')" "table_wf tb'"
      "\<And>ops as m'. map_run (table_map tb') ops as m' \<Longrightarrow>
         map_run (table_map tb) (op # ops) (a # as) m'"
    using table_step_correct [OF Cons.prems, of h op] by blast
  from Cons.IH [OF step(2), of h'] obtain as tb'' where
      "run_ops h' tb' ops = Some (as, tb'')" "table_wf tb''"
      "map_run (table_map tb') ops as (table_map tb'')"
    by blast
  with step(1,3) show ?case by auto
qed

section \<open>Properties\<close>

text \<open>
  C10. Every sequence of insertions, removals and lookups on a freshly initialised table returns
  (no probe loop runs forever and no slot is read outside the array, however often memory is
  refused), ends in a well-formed table, and gives exactly the answers of the same operations on
  a map from thread ids to tracees.
\<close>

theorem table_refines_map:
  "\<exists>as tb. run_ops h sg_tracee_table_init ops = Some (as, tb) \<and> table_wf tb \<and>
     map_run Map.empty ops as (table_map tb)"
  using run_ops_correct [OF table_wf_init, of h ops] by simp

text \<open>
  C12. An insertion either adds a zeroed tracee with the given ids in phase NEW for a thread id
  that was absent, or reports that the thread id was already there, or is refused. It is refused
  only for ids that are not positive, when memory was refused, or at a capacity of 2^55 slots; a
  refused insertion leaves the table as it was.
\<close>

theorem table_insert_outcomes:
  assumes "table_wf tb"
  shows "\<exists>r h' tb'. sg_tracee_table_insert h tb t tg att = Some (r, h', tb') \<and> table_wf tb' \<and>
    (case r of
       None \<Rightarrow> tb' = tb \<and> (t \<le> 0 \<or> tg \<le> 0 \<or> False \<in> set h \<or> 2 ^ 55 \<le> unat (capacity tb))
     | Some False \<Rightarrow> 0 < t \<and> 0 < tg \<and> t \<in> dom (table_map tb) \<and> table_map tb' = table_map tb
     | Some True \<Rightarrow> 0 < t \<and> 0 < tg \<and> t \<notin> dom (table_map tb) \<and>
         table_map tb' = (table_map tb)(t \<mapsto> fresh_tracee t tg att))"
  using assms by (rule table_insert_correct)

theorem table_insert_outcomes_witness:
  "\<exists>tb'. sg_tracee_table_insert [] sg_tracee_table_init 41 40 True = Some (Some True, [], tb') \<and>
     table_wf tb' \<and> table_map tb' = [41 \<mapsto> fresh_tracee 41 40 True]"
proof -
  have "capacity sg_tracee_table_init = 0" by (simp add: sg_tracee_table_init_def)
  with table_insert_outcomes [OF table_wf_init, of "[]" 41 40 True]
  obtain r h' tb' where r: "sg_tracee_table_insert [] sg_tracee_table_init 41 40 True =
      Some (r, h', tb')" "table_wf tb'" "r = Some True"
      "table_map tb' = [41 \<mapsto> fresh_tracee 41 40 True]"
    by (auto split: option.splits bool.splits)
  have "h' = []"
    using r(1) by (auto simp: sg_tracee_table_insert_def ensure_capacity_def resize_table_def
        sg_tracee_table_init_def split: option.splits if_splits bool.splits)
  with r show ?thesis by auto
qed

text \<open>
  C15. In every well-formed table with an array the probe loop ends at a slot of the array; it
  reports the thread id as found exactly when the table holds it, and the counter of entries is
  the number of thread ids held.
\<close>

theorem find_slot_ends:
  assumes "table_wf tb" and "capacity tb \<noteq> 0"
  shows "\<exists>found i. find_slot tb t = Some (found, i) \<and> unat i < unat (capacity tb) \<and>
    (found \<longleftrightarrow> t \<in> dom (table_map tb)) \<and> unat (entries tb) = card (dom (table_map tb))"
proof -
  obtain k where inv: "table_inv tb k"
    using assms by (auto simp: table_wf_def sg_tracee_table_init_def)
  obtain found i where find: "find_slot tb t = Some (found, i)" "unat i < length (slots tb)"
      "found \<Longrightarrow> holds_tid (slots tb ! unat i) t" "\<not> found \<Longrightarrow> table_map tb t = None"
    using find_slot_inv [OF inv, of t] by blast
  have "found \<longleftrightarrow> t \<in> dom (table_map tb)"
    using find by (auto simp: table_map_def domIff slots_map_None_iff)
  moreover have "unat (entries tb) = card (dom (table_map tb))"
    using inv card_dom_slots_map by (auto simp: table_inv_def linked_def table_map_def)
  ultimately show ?thesis
    using find(1,2) inv by (auto simp: table_inv_def table_shape_def)
qed

lemma one_entry_table:
  "\<exists>tb. table_wf tb \<and> capacity tb \<noteq> 0 \<and> table_map tb = [41 \<mapsto> fresh_tracee 41 40 True]"
proof -
  obtain r h' tb where r: "sg_tracee_table_insert [] sg_tracee_table_init 41 40 True = Some (r, h', tb)"
    using tab.enter_total [OF table_wf_init] by blast
  have "capacity sg_tracee_table_init = 0" by (simp add: sg_tracee_table_init_def)
  then have "r = Some True"
    using table_insert_correct [OF table_wf_init, of "[]" 41 40 True] r
    by (auto split: option.splits bool.splits)
  with tab.enter_law [OF table_wf_init r]
  have tb: "table_wf tb" "table_map tb = [41 \<mapsto> fresh_tracee 41 40 True]" by simp_all
  then have "tb \<noteq> sg_tracee_table_init" by (metis map_upd_nonempty table_map_init)
  with tb(1) have "capacity tb \<noteq> 0" using table_inv_capacity by (auto simp: table_wf_def)
  with tb show ?thesis by blast
qed

theorem find_slot_ends_witness:
  "\<exists>tb i. table_wf tb \<and> find_slot tb 41 = Some (True, i) \<and> unat (entries tb) = 1"
proof -
  obtain tb where tb: "table_wf tb" "capacity tb \<noteq> 0" "table_map tb = [41 \<mapsto> fresh_tracee 41 40 True]"
    using one_entry_table by blast
  from find_slot_ends [OF tb(1,2), of 41] tb show ?thesis by auto
qed

text \<open>
  C16. Removing a thread id returns the tracee it had, and afterwards a lookup of that id finds
  nothing while every other lookup is unchanged: the tombstone left behind hides no other entry.
\<close>

theorem table_remove_lookup:
  assumes "table_wf tb"
  shows "\<exists>tb'. sg_tracee_table_remove tb t = Some (table_map tb t, tb') \<and> table_wf tb' \<and>
    sg_tracee_table_get tb t = Some (table_map tb t) \<and>
    (\<forall>u. sg_tracee_table_get tb' u = (if u = t then Some None else sg_tracee_table_get tb u))"
  using tab.delete_law [OF assms, of t] tab.lookup_delete(1) [OF assms] tab.lookup_law [OF assms]
  by blast

theorem table_remove_lookup_witness:
  "\<exists>tb tb'. sg_tracee_table_remove tb 41 = Some (Some (fresh_tracee 41 40 True), tb') \<and>
     sg_tracee_table_get tb' 41 = Some None"
proof -
  obtain tb where tb: "table_wf tb" "table_map tb = [41 \<mapsto> fresh_tracee 41 40 True]"
    using one_entry_table by blast
  from table_remove_lookup [OF tb(1), of 41] tb(2)
  have "\<exists>tb'. sg_tracee_table_remove tb 41 = Some (Some (fresh_tracee 41 40 True), tb') \<and>
      sg_tracee_table_get tb' 41 = Some None" by auto
  then show ?thesis by blast
qed

end
