(* ===== verification/Stats.thy ===== *)
theory Stats
  imports Events Catalog
begin

text \<open>
  The counters behind the \<open>-c\<close> summary, \<open>src/stats.c\<close>: one row per system call number in an
  array that doubles, totals over all rows, and a sorted copy for the report.

  \<open>stats_wf\<close> ties the totals to the rows; \<open>tally\<close> is the abstract view, the calls, errors and
  nanoseconds counted for each number. Recording an event is proved to add exactly that event to
  the tally or to leave it alone, and the sorted copy is the only arrangement of the rows that
  the comparison function accepts.
\<close>

section \<open>Durations\<close>

definition INT64_ok :: "int \<Rightarrow> bool" where
  "INT64_ok i \<longleftrightarrow> LONG_MIN \<le> i \<and> i \<le> LONG_MAX"

text \<open>
  \<open>elapsed_nanoseconds\<close>: the returned flag and \<open>*result\<close>. A difference outside \<open>int64_t\<close> has no
  defined result in C.
\<close>

definition elapsed_nanoseconds :: "sg_syscall_event \<Rightarrow> (bool \<times> u64) option" where
  "elapsed_nanoseconds event =
     (let seconds = tv_sec (ev_exited_at event) - tv_sec (ev_entered_at event);
          nanoseconds = tv_nsec (ev_exited_at event) - tv_nsec (ev_entered_at event)
      in if \<not> INT64_ok seconds \<or> \<not> INT64_ok nanoseconds then None
         else if seconds < 0 \<or> (seconds = 0 \<and> nanoseconds < 0) then Some (True, 0)
         else let (seconds, nanoseconds) =
                (if nanoseconds < 0 then (seconds - 1, nanoseconds + 1000000000)
                 else (seconds, nanoseconds))
           in if (of_int seconds :: u64) > UINT64_MAX div 1000000000 then Some (False, 0)
              else Some (True, of_int seconds * 1000000000 + of_int nanoseconds))"

section \<open>Rows and totals\<close>

record sg_syscall_stat =
  st_number :: int
  calls :: u64
  errors :: u64
  nanoseconds :: u64

text \<open>\<open>st_rows\<close> holds the rows below \<open>st_count\<close>; \<open>st_capacity\<close> is the size of the array.\<close>

record sg_stats =
  st_rows :: "sg_syscall_stat list"
  st_count :: u64
  st_capacity :: u64
  total_calls :: u64
  total_errors :: u64
  total_nanoseconds :: u64

definition sizeof_stat :: u64 where
  "sizeof_stat = 32"

definition sg_stats_init :: sg_stats where
  "sg_stats_init = \<lparr>st_rows = [], st_count = 0, st_capacity = 0, total_calls = 0,
     total_errors = 0, total_nanoseconds = 0\<rparr>"

definition sg_stats_destroy :: "sg_stats \<Rightarrow> sg_stats" where
  "sg_stats_destroy stats = sg_stats_init"

text \<open>The index of the row of a number.\<close>

fun find_row_from :: "sg_syscall_stat list \<Rightarrow> int \<Rightarrow> nat \<Rightarrow> nat option" where
  "find_row_from [] number index = None"
| "find_row_from (row # rows) number index =
     (if st_number row = number then Some index else find_row_from rows number (Suc index))"

definition find_row :: "sg_stats \<Rightarrow> int \<Rightarrow> nat option" where
  "find_row stats number = find_row_from (st_rows stats) number 0"

definition zero_stat :: "int \<Rightarrow> sg_syscall_stat" where
  "zero_stat number = \<lparr>st_number = number, calls = 0, errors = 0, nanoseconds = 0\<rparr>"

text \<open>\<open>add_row\<close>: the index of the new row, or \<open>None\<close> for a null pointer.\<close>

definition add_row :: "heap \<Rightarrow> sg_stats \<Rightarrow> int \<Rightarrow> (nat option \<times> heap \<times> sg_stats) option" where
  "add_row h stats number =
     (let grown =
        (if st_count stats = st_capacity stats
         then let capacity = (if st_capacity stats = 0 then 16 else st_capacity stats * 2)
           in if capacity < st_capacity stats \<or> capacity > SIZE_MAX div sizeof_stat
              then (False, h, stats)
              else case alloc h of (ok, h') \<Rightarrow>
                (if ok then (True, h', stats\<lparr>st_capacity := capacity\<rparr>) else (False, h', stats))
         else (True, h, stats))
      in case grown of (ok, h', stats') \<Rightarrow>
           if \<not> ok then Some (None, h', stats')
           else if unat (st_count stats') < unat (st_capacity stats')
           then Some (Some (unat (st_count stats')), h',
                  stats'\<lparr>st_rows := st_rows stats' @ [zero_stat number],
                         st_count := st_count stats' + 1\<rparr>)
           else None)"

text \<open>The counting part of \<open>sg_stats_record\<close>, once the row is known.\<close>

definition bump :: "sg_stats \<Rightarrow> nat \<Rightarrow> bool \<Rightarrow> u64 \<Rightarrow> bool \<times> sg_stats" where
  "bump stats index error ns =
     (let row = st_rows stats ! index
      in if calls row = UINT64_MAX \<or> nanoseconds row > UINT64_MAX - ns \<or>
            (error \<and> errors row = UINT64_MAX)
         then (False, stats)
         else (True, stats\<lparr>
           st_rows := (st_rows stats)[index := row\<lparr>calls := calls row + 1,
             errors := errors row + (if error then 1 else 0),
             nanoseconds := nanoseconds row + ns\<rparr>],
           total_calls := total_calls stats + 1,
           total_errors := total_errors stats + (if error then 1 else 0),
           total_nanoseconds := total_nanoseconds stats + ns\<rparr>))"

definition sg_stats_record ::
    "heap \<Rightarrow> sg_stats \<Rightarrow> sg_syscall_event \<Rightarrow> (bool \<times> heap \<times> sg_stats) option" where
  "sg_stats_record h stats event =
     (if \<not> ev_completed event then Some (False, h, stats)
      else case elapsed_nanoseconds event of
        None \<Rightarrow> None
      | Some (ok, ns) \<Rightarrow>
          if \<not> ok \<or> total_calls stats = UINT64_MAX \<or> total_nanoseconds stats > UINT64_MAX - ns
          then Some (False, h, stats)
          else let error = (ev_error_number event \<noteq> 0)
            in if error \<and> total_errors stats = UINT64_MAX then Some (False, h, stats)
               else case find_row stats (ev_number event) of
                 Some index \<Rightarrow>
                   (case bump stats index error ns of (ok, stats') \<Rightarrow> Some (ok, h, stats'))
               | None \<Rightarrow>
                   (case add_row h stats (ev_number event) of
                      None \<Rightarrow> None
                    | Some (None, h', stats') \<Rightarrow> Some (False, h', stats')
                    | Some (Some index, h', stats') \<Rightarrow>
                        (case bump stats' index error ns of
                           (ok, stats'') \<Rightarrow> Some (ok, h', stats''))))"

section \<open>The report order\<close>

text \<open>\<open>strcmp\<close> compares unsigned bytes; the sign of its answer is what C fixes.\<close>

fun strcmp :: "string \<Rightarrow> string \<Rightarrow> int" where
  "strcmp [] [] = 0"
| "strcmp [] (y # ys) = - 1"
| "strcmp (x # xs) [] = 1"
| "strcmp (x # xs) (y # ys) =
     (if x = y then strcmp xs ys
      else if (of_char x :: nat) < of_char y then - 1 else 1)"

definition compare_rows :: "sg_syscall_stat \<Rightarrow> sg_syscall_stat \<Rightarrow> int" where
  "compare_rows l r =
     (if nanoseconds l \<noteq> nanoseconds r
      then (if nanoseconds l > nanoseconds r then - 1 else 1)
      else let numbers =
          (if st_number l = st_number r then 0 else if st_number l < st_number r then - 1 else 1)
        in case (sg_syscall_by_number (st_number l), sg_syscall_by_number (st_number r)) of
             (Some ld, Some rd) \<Rightarrow>
               (let names = strcmp (sc_name ld) (sc_name rd)
                in if names \<noteq> 0 then names else numbers)
           | (Some ld, None) \<Rightarrow> - 1
           | (None, Some rd) \<Rightarrow> 1
           | (None, None) \<Rightarrow> numbers)"

text \<open>
  \<open>qsort\<close>, as an insertion sort over the comparison function. The C library may use any
  algorithm; \<open>sorted_copy_unique\<close> below shows that all give the same array here.
\<close>

fun insert_row :: "(sg_syscall_stat \<Rightarrow> sg_syscall_stat \<Rightarrow> int) \<Rightarrow> sg_syscall_stat \<Rightarrow>
    sg_syscall_stat list \<Rightarrow> sg_syscall_stat list" where
  "insert_row cmp r [] = [r]"
| "insert_row cmp r (s # rows) =
     (if cmp r s \<le> 0 then r # s # rows else s # insert_row cmp r rows)"

definition qsort :: "(sg_syscall_stat \<Rightarrow> sg_syscall_stat \<Rightarrow> int) \<Rightarrow> sg_syscall_stat list \<Rightarrow>
    sg_syscall_stat list" where
  "qsort cmp rows = foldr (insert_row cmp) rows []"

text \<open>\<open>sg_stats_sorted_copy\<close>: the returned flag, \<open>*rows\<close> (empty for a null pointer), \<open>*count\<close>.\<close>

definition sg_stats_sorted_copy ::
    "heap \<Rightarrow> sg_stats \<Rightarrow> (bool \<times> sg_syscall_stat list \<times> u64) \<times> heap" where
  "sg_stats_sorted_copy h stats =
     (if st_count stats = 0 then ((True, [], 0), h)
      else if st_count stats > SIZE_MAX div sizeof_stat then ((False, [], st_count stats), h)
      else case alloc h of (ok, h') \<Rightarrow>
        (if ok then ((True, qsort compare_rows (st_rows stats), st_count stats), h')
         else ((False, [], st_count stats), h')))"

section \<open>What a duration is\<close>

definition valid_times :: "sg_syscall_event \<Rightarrow> bool" where
  "valid_times e \<longleftrightarrow>
     0 \<le> tv_sec (ev_entered_at e) \<and> tv_sec (ev_entered_at e) \<le> LONG_MAX \<and>
     0 \<le> tv_sec (ev_exited_at e) \<and> tv_sec (ev_exited_at e) \<le> LONG_MAX \<and>
     0 \<le> tv_nsec (ev_entered_at e) \<and> tv_nsec (ev_entered_at e) < 1000000000 \<and>
     0 \<le> tv_nsec (ev_exited_at e) \<and> tv_nsec (ev_exited_at e) < 1000000000"

definition duration :: "sg_syscall_event \<Rightarrow> int" where
  "duration e =
     (tv_sec (ev_exited_at e) * 1000000000 + tv_nsec (ev_exited_at e)) -
     (tv_sec (ev_entered_at e) * 1000000000 + tv_nsec (ev_entered_at e))"

lemma unat_of_int: "0 \<le> i \<Longrightarrow> i < 18446744073709551616 \<Longrightarrow> unat (of_int i :: u64) = nat i"
  using unat_of_nat_u64 [of "nat i"] by simp

lemma seconds_guard:
  assumes "0 \<le> i" and "i \<le> LONG_MAX"
  shows "(of_int i :: u64) > UINT64_MAX div 1000000000 \<longleftrightarrow> 18446744073 < i"
proof -
  have "unat (of_int i :: u64) = nat i" using assms by (intro unat_of_int) auto
  then show ?thesis using assms by (auto simp: word_less_nat_alt unat_div)
qed

lemma elapsed_spec:
  assumes "valid_times e"
  shows "elapsed_nanoseconds e =
    (if duration e < 0 then Some (True, 0)
     else if 18446744074000000000 \<le> duration e then Some (False, 0)
     else Some (True, of_int (duration e)))"
proof -
  define x where "x = tv_sec (ev_exited_at e) - tv_sec (ev_entered_at e)"
  define n where "n = tv_nsec (ev_exited_at e) - tv_nsec (ev_entered_at e)"
  have d: "duration e = x * 1000000000 + n" by (simp add: duration_def x_def n_def algebra_simps)
  have r: "- LONG_MAX \<le> x" "x \<le> LONG_MAX" "- 1000000000 < n" "n < 1000000000"
    using assms by (auto simp: valid_times_def x_def n_def)
  then have ok: "INT64_ok x" "INT64_ok n" by (auto simp: INT64_ok_def)
  show ?thesis
  proof (cases "x < 0 \<or> (x = 0 \<and> n < 0)")
    case True
    then have "duration e < 0" using d r by auto
    with True ok show ?thesis by (simp add: elapsed_nanoseconds_def Let_def flip: x_def n_def)
  next
    case False
    define y m where "y = (if n < 0 then x - 1 else x)"
      and "m = (if n < 0 then n + 1000000000 else n)"
    have ym: "duration e = y * 1000000000 + m" "0 \<le> y" "y \<le> LONG_MAX" "0 \<le> m" "m < 1000000000"
      using False r d by (auto simp: y_def m_def)
    have "elapsed_nanoseconds e =
        (if (of_int y :: u64) > UINT64_MAX div 1000000000 then Some (False, 0)
         else Some (True, of_int y * 1000000000 + of_int m))"
      using False ok
      by (simp add: elapsed_nanoseconds_def Let_def y_def m_def flip: x_def n_def)
    moreover have "(of_int y * 1000000000 + of_int m :: u64) = of_int (duration e)"
      by (simp add: ym(1))
    moreover have "18446744073 < y \<longleftrightarrow> 18446744074000000000 \<le> duration e"
      using ym by linarith
    moreover have "\<not> duration e < 0" using ym by simp
    ultimately show ?thesis using seconds_guard [OF ym(2,3)] by simp
  qed
qed

section \<open>Invariant and tally\<close>

definition stats_wf :: "sg_stats \<Rightarrow> bool" where
  "stats_wf st \<longleftrightarrow>
     unat (st_count st) = length (st_rows st) \<and> length (st_rows st) \<le> unat (st_capacity st) \<and>
     distinct (map st_number (st_rows st)) \<and>
     (\<forall>r \<in> set (st_rows st). unat (errors r) \<le> unat (calls r)) \<and>
     unat (total_calls st) = sum_list (map (unat \<circ> calls) (st_rows st)) \<and>
     unat (total_errors st) = sum_list (map (unat \<circ> errors) (st_rows st)) \<and>
     unat (total_nanoseconds st) = sum_list (map (unat \<circ> nanoseconds) (st_rows st))"

type_synonym row_tally = "nat \<times> nat \<times> nat"

definition row_tally :: "sg_syscall_stat \<Rightarrow> row_tally" where
  "row_tally r = (unat (calls r), unat (errors r), unat (nanoseconds r))"

definition tally :: "sg_stats \<Rightarrow> int \<Rightarrow> row_tally" where
  "tally st n =
     (case find (\<lambda>r. st_number r = n) (st_rows st) of None \<Rightarrow> (0, 0, 0) | Some r \<Rightarrow> row_tally r)"

definition tally_add :: "bool \<Rightarrow> nat \<Rightarrow> row_tally \<Rightarrow> row_tally" where
  "tally_add error ns t = (case t of (c, e, m) \<Rightarrow> (c + 1, e + of_bool error, m + ns))"

lemma stats_wf_init [simp]: "stats_wf sg_stats_init"
  by (simp add: stats_wf_def sg_stats_init_def)

lemma tally_init [simp]: "tally sg_stats_init n = (0, 0, 0)"
  by (simp add: tally_def sg_stats_init_def)

lemma find_row_from_Some:
  "find_row_from rows n k = Some i \<Longrightarrow>
     k \<le> i \<and> i - k < length rows \<and> st_number (rows ! (i - k)) = n"
proof (induction rows n k rule: find_row_from.induct)
  case (2 row rows n k)
  then show ?case by (cases "st_number row = n") (auto simp: nth_Cons')
qed simp

lemma find_row_from_None: "find_row_from rows n k = None \<longleftrightarrow> n \<notin> set (map st_number rows)"
  by (induction rows n k rule: find_row_from.induct) auto

lemma find_row_Some:
  "find_row st n = Some i \<Longrightarrow> i < length (st_rows st) \<and> st_number (st_rows st ! i) = n"
  using find_row_from_Some [of "st_rows st" n 0 i] by (simp add: find_row_def)

lemma find_row_None: "find_row st n = None \<longleftrightarrow> n \<notin> set (map st_number (st_rows st))"
  by (simp add: find_row_def find_row_from_None)

lemma tally_row:
  assumes "distinct (map st_number (st_rows st))" and "i < length (st_rows st)"
  shows "tally st (st_number (st_rows st ! i)) = row_tally (st_rows st ! i)"
proof -
  have "st_number (st_rows st ! j) \<noteq> st_number (st_rows st ! i)" if "j < i" for j
    using that assms by (simp add: distinct_conv_nth)
  then have "find (\<lambda>r. st_number r = st_number (st_rows st ! i)) (st_rows st) = Some (st_rows st ! i)"
    using assms(2) by (auto simp: find_Some_iff)
  then show ?thesis by (simp add: tally_def)
qed

lemma tally_absent: "n \<notin> set (map st_number (st_rows st)) \<Longrightarrow> tally st n = (0, 0, 0)"
proof -
  assume "n \<notin> set (map st_number (st_rows st))"
  then have "find (\<lambda>r. st_number r = n) (st_rows st) = None" by (auto simp: find_None_iff)
  then show ?thesis by (simp add: tally_def)
qed

lemma tally_row_update:
  assumes "distinct (map st_number (st_rows st))" and i: "i < length (st_rows st)"
    and same: "st_number r = st_number (st_rows st ! i)"
    and st': "st_rows st' = (st_rows st)[i := r]"
  shows "tally st' = (tally st)(st_number r := row_tally r)"
proof
  fix n
  have numbers: "map st_number (st_rows st') = map st_number (st_rows st)"
    unfolding st' map_update same using i by (simp add: list_update_same_conv)
  then have d: "distinct (map st_number (st_rows st'))" using assms(1) by simp
  have len: "length (st_rows st') = length (st_rows st)" by (simp add: st')
  show "tally st' n = ((tally st)(st_number r := row_tally r)) n"
  proof (cases "n \<in> set (map st_number (st_rows st))")
    case False
    moreover have "st_number r \<in> set (map st_number (st_rows st))" using same i by simp
    ultimately show ?thesis
      using tally_absent [of n st] tally_absent [of n st'] numbers by auto
  next
    case True
    then obtain j where j: "j < length (st_rows st)" "st_number (st_rows st ! j) = n"
      by (auto simp: in_set_conv_nth)
    have n': "st_number (st_rows st' ! j) = n"
      using j same i by (cases "j = i") (auto simp: st')
    have t: "tally st n = row_tally (st_rows st ! j)" "tally st' n = row_tally (st_rows st' ! j)"
      using tally_row [OF assms(1) j(1)] tally_row [OF d, of j] j n' len by simp_all
    show ?thesis
    proof (cases "j = i")
      case True
      then show ?thesis using t(2) j(2) same i by (simp add: st')
    next
      case False
      then have "n \<noteq> st_number r"
        using j i same nth_eq_iff_index_eq [OF assms(1), of i j] by auto
      then show ?thesis using t False by (simp add: st')
    qed
  qed
qed

lemma sum_list_update_nat:
  "i < length xs \<Longrightarrow>
     sum_list (map f (xs[i := y])) + f (xs ! i) = sum_list (map f xs) + (f y :: nat)"
proof (induction xs arbitrary: i)
  case (Cons x xs)
  then show ?case by (cases i) auto
qed simp

lemma member_le_sum: "i < length xs \<Longrightarrow> f (xs ! i) \<le> sum_list (map f xs)" for f :: "'a \<Rightarrow> nat"
  by (rule elem_le_sum_list [of i "map f xs", simplified])

section \<open>Recording\<close>

lemma word_not_max: "w \<noteq> UINT64_MAX \<longleftrightarrow> unat w + 1 < 2 ^ 64" for w :: u64
  using unat_lt_u64 [of w] by (auto simp: word_nat)

lemma word_room: "\<not> w > UINT64_MAX - ns \<longleftrightarrow> unat w + unat ns < 2 ^ 64" for w ns :: u64
proof -
  have "unat (UINT64_MAX - ns) = 18446744073709551615 - unat ns"
    using unat_le_u64 [of ns] by (subst unat_sub_no_wrap) simp_all
  then show ?thesis using unat_le_u64 [of ns] by (auto simp: word_less_nat_alt)
qed

lemma bump_correct:
  assumes wf: "stats_wf st" and i: "i < length (st_rows st)"
    and room: "unat (total_calls st) + 1 < 2 ^ 64" "unat (total_nanoseconds st) + unat ns < 2 ^ 64"
  shows "\<exists>st'. bump st i error ns = (True, st') \<and> stats_wf st' \<and>
    tally st' = (tally st)(st_number (st_rows st ! i) :=
      tally_add error (unat ns) (tally st (st_number (st_rows st ! i))))"
proof -
  let ?r = "st_rows st ! i"
  have small: "unat (calls ?r) \<le> unat (total_calls st)"
      "unat (errors ?r) \<le> unat (total_errors st)"
      "unat (nanoseconds ?r) \<le> unat (total_nanoseconds st)"
    using wf member_le_sum [OF i, of "unat \<circ> calls"] member_le_sum [OF i, of "unat \<circ> errors"]
      member_le_sum [OF i, of "unat \<circ> nanoseconds"]
    by (simp_all add: stats_wf_def)
  have "sum_list (map (unat \<circ> errors) (st_rows st)) \<le> sum_list (map (unat \<circ> calls) (st_rows st))"
    using wf by (intro sum_list_mono) (simp add: stats_wf_def)
  then have e: "unat (total_errors st) + 1 < 2 ^ 64" using wf room by (simp add: stats_wf_def)
  define r' where "r' = ?r\<lparr>calls := calls ?r + 1, errors := errors ?r + (if error then 1 else 0),
      nanoseconds := nanoseconds ?r + ns\<rparr>"
  have r': "unat (calls r') = unat (calls ?r) + 1" "st_number r' = st_number ?r"
      "unat (errors r') = unat (errors ?r) + of_bool error"
      "unat (nanoseconds r') = unat (nanoseconds ?r) + unat ns"
    using small room e by (auto simp: r'_def unat_add_no_wrap)
  define st' where "st' = st\<lparr>st_rows := (st_rows st)[i := r'], total_calls := total_calls st + 1,
      total_errors := total_errors st + (if error then 1 else 0),
      total_nanoseconds := total_nanoseconds st + ns\<rparr>"
  have totals: "unat (total_calls st') = unat (total_calls st) + 1"
      "unat (total_errors st') = unat (total_errors st) + of_bool error"
      "unat (total_nanoseconds st') = unat (total_nanoseconds st) + unat ns"
    using room e by (auto simp: st'_def unat_add_no_wrap)
  have guard: "calls ?r \<noteq> UINT64_MAX" "\<not> nanoseconds ?r > UINT64_MAX - ns" "errors ?r \<noteq> UINT64_MAX"
    unfolding word_not_max word_room using small room e by simp_all
  then have res: "bump st i error ns = (True, st')"
    by (simp add: bump_def Let_def st'_def r'_def)
  have rows: "st_rows st' = (st_rows st)[i := r']" by (simp add: st'_def)
  have numbers: "map st_number (st_rows st') = map st_number (st_rows st)"
    unfolding rows map_update r'(2) using i by (simp add: list_update_same_conv)
  have "unat (errors x) \<le> unat (calls x)" if "x \<in> set (st_rows st')" for x
  proof (cases "x = r'")
    case True
    have "unat (errors ?r) \<le> unat (calls ?r)" using wf i by (simp add: stats_wf_def)
    with True show ?thesis using r' by simp
  next
    case False
    then have "x \<in> set (st_rows st)" using that set_update_subset_insert [of "st_rows st" i r']
      by (auto simp: rows)
    then show ?thesis using wf by (simp add: stats_wf_def)
  qed
  moreover have "unat (total_calls st') = sum_list (map (unat \<circ> calls) (st_rows st'))"
      "unat (total_errors st') = sum_list (map (unat \<circ> errors) (st_rows st'))"
      "unat (total_nanoseconds st') = sum_list (map (unat \<circ> nanoseconds) (st_rows st'))"
    using totals r' wf sum_list_update_nat [OF i, of "unat \<circ> calls" r']
      sum_list_update_nat [OF i, of "unat \<circ> errors" r']
      sum_list_update_nat [OF i, of "unat \<circ> nanoseconds" r']
    by (simp_all add: rows stats_wf_def)
  moreover have "st_count st' = st_count st" "st_capacity st' = st_capacity st"
    by (simp_all add: st'_def)
  ultimately have "stats_wf st'"
    using wf numbers unfolding stats_wf_def by (simp add: rows)
  moreover have "tally st' = (tally st)(st_number ?r := row_tally r')"
    using tally_row_update [OF _ i r'(2) rows] wf r'(2) by (simp add: stats_wf_def)
  moreover have "row_tally r' = tally_add error (unat ns) (tally st (st_number ?r))"
    using tally_row [OF _ i] wf by (simp add: stats_wf_def row_tally_def tally_add_def r')
  ultimately show ?thesis using res by auto
qed

lemma doubled_capacity:
  fixes c :: u64
  defines "c' \<equiv> (if c = 0 then 16 else c * 2)"
  shows "\<not> (c' < c \<or> c' > SIZE_MAX div sizeof_stat) \<Longrightarrow> unat c < unat c'"
    and "c' < c \<or> c' > SIZE_MAX div sizeof_stat \<Longrightarrow> 2 ^ 58 \<le> unat c"
proof -
  have limit: "unat (SIZE_MAX div sizeof_stat) = 576460752303423487"
    by (simp add: sizeof_stat_def unat_div)
  have c': "c \<noteq> 0 \<Longrightarrow> unat c' = unat c * 2 mod 2 ^ 64"
    by (simp add: c'_def unat_word_ariths)
  show "unat c < unat c'" if no: "\<not> (c' < c \<or> c' > SIZE_MAX div sizeof_stat)"
  proof (cases "c = 0")
    case False
    then have pos: "0 < unat c" by (simp add: unat_gt_0)
    have "unat c \<le> unat c'" using no by (simp add: word_less_nat_alt)
    moreover have "unat c * 2 mod 2 ^ 64 \<noteq> unat c"
    proof (cases "unat c * 2 < 2 ^ 64")
      case False
      then have "unat c * 2 mod 2 ^ 64 = unat c * 2 - 2 ^ 64"
        using unat_lt_u64 [of c] by (simp add: mod_if)
      then show ?thesis using False unat_lt_u64 [of c] by simp
    qed (use pos in simp)
    ultimately show ?thesis using c' [OF False] by simp
  qed (simp add: c'_def)
  show "2 ^ 58 \<le> unat c" if over: "c' < c \<or> c' > SIZE_MAX div sizeof_stat"
  proof (rule ccontr)
    assume "\<not> 2 ^ 58 \<le> unat c"
    then have "unat c' = (if c = 0 then 16 else unat c * 2)"
      using c' by (auto simp: c'_def [of])
    with over limit \<open>\<not> 2 ^ 58 \<le> unat c\<close> show False
      by (auto simp: word_less_nat_alt split: if_splits)
  qed
qed

lemma find_append: "find P (xs @ ys) = (case find P xs of None \<Rightarrow> find P ys | Some x \<Rightarrow> Some x)"
  by (induction xs) auto

lemma add_row_correct:
  assumes wf: "stats_wf st" and new: "n \<notin> set (map st_number (st_rows st))"
  shows "\<exists>r h' st'. add_row h st n = Some (r, h', st') \<and>
    (case r of
       None \<Rightarrow> st' = st \<and> (False \<in> set h \<or> 2 ^ 58 \<le> unat (st_count st))
     | Some i \<Rightarrow> stats_wf st' \<and> i < length (st_rows st') \<and> st_number (st_rows st' ! i) = n \<and>
         tally st' = tally st \<and> total_calls st' = total_calls st \<and>
         total_nanoseconds st' = total_nanoseconds st)"
proof -
  let ?c = "if st_capacity st = 0 then 16 else st_capacity st * 2"
  let ?over = "?c < st_capacity st \<or> ?c > SIZE_MAX div sizeof_stat"
  obtain ok h' where al: "alloc h = (ok, h')" by (cases "alloc h")
  have len: "unat (st_count st) = length (st_rows st)" "length (st_rows st) \<le> unat (st_capacity st)"
    using wf by (auto simp: stats_wf_def)
  show ?thesis
  proof (cases "st_count st = st_capacity st \<and> (?over \<or> \<not> ok)")
    case True
    then have "add_row h st n = Some (None, if ?over then h else h', st)"
      unfolding add_row_def Let_def using al by (auto split: if_splits)
    moreover have "False \<in> set h \<or> 2 ^ 58 \<le> unat (st_count st)"
      using True al doubled_capacity(2) [of "st_capacity st"] by (cases h) auto
    ultimately show ?thesis by auto
  next
    case False
    define h2 where "h2 = (if st_count st = st_capacity st then h' else h)"
    define cap where "cap = (if st_count st = st_capacity st then ?c else st_capacity st)"
    define st' where "st' = st\<lparr>st_capacity := cap, st_rows := st_rows st @ [zero_stat n],
      st_count := st_count st + 1\<rparr>"
    have room: "unat (st_count st) < unat cap"
    proof (cases "st_count st = st_capacity st")
      case True
      with False doubled_capacity(1) [of "st_capacity st"] show ?thesis by (simp add: cap_def)
    next
      case neq: False
      with len show ?thesis by (auto simp: cap_def word_nat)
    qed
    have res: "add_row h st n = Some (Some (length (st_rows st)), h2, st')"
    proof (cases "st_count st = st_capacity st")
      case True
      with False room al len(1) show ?thesis
        unfolding add_row_def Let_def st'_def h2_def cap_def by simp
    next
      case neq: False
      then have "cap = st_capacity st" "h2 = h" by (simp_all add: cap_def h2_def)
      with neq room len(1) show ?thesis
        unfolding add_row_def Let_def st'_def by (cases st) simp
    qed
    have suc: "unat (st_count st + 1) = unat (st_count st) + 1"
      using room unat_lt_u64 [of cap] by (subst unat_add_no_wrap) auto
    have "stats_wf st'"
      using wf new suc len room by (auto simp: stats_wf_def st'_def zero_stat_def)
    moreover have "tally st' m = tally st m" for m
      using new by (auto simp: tally_def st'_def find_append zero_stat_def row_tally_def
          split: option.splits)
    ultimately show ?thesis
      using res by (auto simp: st'_def zero_stat_def)
  qed
qed

text \<open>What \<open>sg_stats_record\<close> does with an event whose duration is defined.\<close>

lemma stats_record_correct:
  assumes wf: "stats_wf st" and el: "elapsed_nanoseconds e = Some (fits, ns)"
  shows "\<exists>ok h' st'. sg_stats_record h st e = Some (ok, h', st') \<and> stats_wf st' \<and>
    (if ok then ev_completed e \<and> fits \<and>
        tally st' = (tally st)(ev_number e :=
          tally_add (ev_error_number e \<noteq> 0) (unat ns) (tally st (ev_number e)))
     else st' = st \<and>
       (\<not> ev_completed e \<or> \<not> fits \<or> unat (total_calls st) + 1 = 2 ^ 64 \<or>
        2 ^ 64 \<le> unat (total_nanoseconds st) + unat ns \<or> False \<in> set h \<or>
        2 ^ 58 \<le> unat (st_count st)))"
proof (cases "ev_completed e \<and> fits \<and> total_calls st \<noteq> UINT64_MAX \<and>
    \<not> total_nanoseconds st > UINT64_MAX - ns")
  case False
  then have "sg_stats_record h st e = Some (False, h, st)"
    using el by (auto simp: sg_stats_record_def Let_def)
  moreover have "\<not> ev_completed e \<or> \<not> fits \<or> unat (total_calls st) + 1 = 2 ^ 64 \<or>
      2 ^ 64 \<le> unat (total_nanoseconds st) + unat ns"
    using False unat_lt_u64 [of "total_calls st"] unfolding word_not_max word_room by auto
  ultimately show ?thesis using wf by (intro exI [of _ False]) auto
next
  case True
  let ?error = "ev_error_number e \<noteq> 0"
  have room: "unat (total_calls st) + 1 < 2 ^ 64" "unat (total_nanoseconds st) + unat ns < 2 ^ 64"
    using True unfolding word_not_max word_room by auto
  have "sum_list (map (unat \<circ> errors) (st_rows st)) \<le> sum_list (map (unat \<circ> calls) (st_rows st))"
    using wf by (intro sum_list_mono) (simp add: stats_wf_def)
  then have "unat (total_errors st) + 1 < 2 ^ 64" using wf room by (simp add: stats_wf_def)
  then have "total_errors st \<noteq> UINT64_MAX" by (simp only: word_not_max)
  then have eq: "sg_stats_record h st e = (case find_row st (ev_number e) of
        Some index \<Rightarrow> (case bump st index ?error ns of (ok, st') \<Rightarrow> Some (ok, h, st'))
      | None \<Rightarrow> (case add_row h st (ev_number e) of
            None \<Rightarrow> None
          | Some (None, h', st') \<Rightarrow> Some (False, h', st')
          | Some (Some index, h', st') \<Rightarrow>
              (case bump st' index ?error ns of (ok, st'') \<Rightarrow> Some (ok, h', st''))))"
    using True el by (simp add: sg_stats_record_def Let_def)
  show ?thesis
  proof (cases "find_row st (ev_number e)")
    case (Some i)
    with find_row_Some [OF Some] bump_correct [OF wf _ room, of i ?error] eq True
    show ?thesis by auto
  next
    case None
    then obtain r h' st1 where add: "add_row h st (ev_number e) = Some (r, h', st1)"
      "case r of
       None \<Rightarrow> st1 = st \<and> (False \<in> set h \<or> 2 ^ 58 \<le> unat (st_count st))
     | Some i \<Rightarrow> stats_wf st1 \<and> i < length (st_rows st1) \<and> st_number (st_rows st1 ! i) = ev_number e \<and>
         tally st1 = tally st \<and> total_calls st1 = total_calls st \<and>
         total_nanoseconds st1 = total_nanoseconds st"
      using add_row_correct [OF wf, of "ev_number e" h] by (auto simp: find_row_None)
    show ?thesis
    proof (cases r)
      case r: None
      with add None eq wf show ?thesis by (intro exI [of _ False]) auto
    next
      case (Some i)
      with add bump_correct [of st1 i ns ?error] room
      obtain st2 where "bump st1 i ?error ns = (True, st2)" "stats_wf st2"
        "tally st2 = (tally st)(ev_number e := tally_add ?error (unat ns) (tally st (ev_number e)))"
        by auto
      with Some None add(1) eq True show ?thesis by (intro exI [of _ True]) auto
    qed
  qed
qed

section \<open>Sequences of events\<close>

fun record_all :: "heap \<Rightarrow> sg_stats \<Rightarrow> sg_syscall_event list \<Rightarrow> (bool list \<times> sg_stats) option" where
  "record_all h st [] = Some ([], st)"
| "record_all h st (e # es) =
     (case sg_stats_record h st e of
        None \<Rightarrow> None
      | Some (ok, h', st') \<Rightarrow> map_option (\<lambda>(oks, st''). (ok # oks, st'')) (record_all h' st' es))"

text \<open>The events among \<open>es\<close> that were recorded, and their share for one number.\<close>

definition recorded :: "sg_syscall_event list \<Rightarrow> bool list \<Rightarrow> sg_syscall_event list" where
  "recorded es oks = map fst (filter snd (zip es oks))"

definition event_ns :: "sg_syscall_event \<Rightarrow> nat" where
  "event_ns e = (case elapsed_nanoseconds e of Some (fits, ns) \<Rightarrow> unat ns | None \<Rightarrow> 0)"

definition share :: "sg_syscall_event list \<Rightarrow> int \<Rightarrow> row_tally" where
  "share es n =
     (let mine = filter (\<lambda>e. ev_number e = n) es
      in (length mine, length (filter (\<lambda>e. ev_error_number e \<noteq> 0) mine),
          sum_list (map event_ns mine)))"

definition tally_plus :: "row_tally \<Rightarrow> row_tally \<Rightarrow> row_tally" where
  "tally_plus s t = (case (s, t) of ((a, b, c), (d, e, f)) \<Rightarrow> (a + d, b + e, c + f))"

lemma recorded_Nil [simp]: "recorded [] oks = []"
  by (simp add: recorded_def)

lemma recorded_Cons [simp]:
  "recorded (e # es) (ok # oks) = (if ok then e # recorded es oks else recorded es oks)"
  by (simp add: recorded_def)

lemma share_Cons:
  "tally_plus t (share (e # es) n) =
     tally_plus (if ev_number e = n then tally_add (ev_error_number e \<noteq> 0) (event_ns e) t else t)
       (share es n)"
  by (auto simp: share_def tally_plus_def tally_add_def Let_def split: prod.splits)

lemma record_all_correct:
  assumes "stats_wf st" and "\<And>e. e \<in> set es \<Longrightarrow> valid_times e"
  shows "\<exists>oks st'. record_all h st es = Some (oks, st') \<and> length oks = length es \<and> stats_wf st' \<and>
    (\<forall>n. tally st' n = tally_plus (tally st n) (share (recorded es oks) n))"
  using assms
proof (induction es arbitrary: h st)
  case Nil
  then show ?case by (auto simp: share_def tally_plus_def split: prod.splits)
next
  case (Cons e es)
  obtain fits ns where el: "elapsed_nanoseconds e = Some (fits, ns)"
    using elapsed_spec [of e] Cons.prems(2) by (auto split: if_splits)
  obtain ok h' st1 where r: "sg_stats_record h st e = Some (ok, h', st1)" "stats_wf st1"
      "ok \<Longrightarrow> tally st1 = (tally st)(ev_number e :=
          tally_add (ev_error_number e \<noteq> 0) (unat ns) (tally st (ev_number e)))"
      "\<not> ok \<Longrightarrow> st1 = st"
    using stats_record_correct [OF Cons.prems(1) el, of h] by (auto split: if_splits)
  from Cons.IH [OF r(2), of h'] Cons.prems(2) obtain oks st' where ih:
      "record_all h' st1 es = Some (oks, st')" "length oks = length es" "stats_wf st'"
      "\<forall>n. tally st' n = tally_plus (tally st1 n) (share (recorded es oks) n)"
    by auto
  have "tally st' n = tally_plus (tally st n) (share (recorded (e # es) (ok # oks)) n)" for n
  proof (cases ok)
    case True
    with r(3) ih(4) el show ?thesis by (simp add: share_Cons event_ns_def)
  qed (use r(4) ih(4) in simp)
  with r ih show ?case by auto
qed

section \<open>Sorting with a comparison function\<close>

text \<open>
  The contract of \<open>qsort\<close>'s callback: swapping the arguments changes the sign, and "not after"
  is transitive. Under it the result is sorted and a permutation; where only equal rows compare
  as equal, it is the only sorted permutation, so the algorithm inside \<open>qsort\<close> does not matter.
\<close>

locale comparator =
  fixes cmp :: "sg_syscall_stat \<Rightarrow> sg_syscall_stat \<Rightarrow> int"
  assumes flip: "cmp b a = - cmp a b"
    and le_trans: "cmp a b \<le> 0 \<Longrightarrow> cmp b c \<le> 0 \<Longrightarrow> cmp a c \<le> 0"
begin

lemma mset_insert_row: "mset (insert_row cmp r rows) = add_mset r (mset rows)"
  by (induction rows) auto

lemma mset_qsort: "mset (qsort cmp rows) = mset rows"
  by (induction rows) (simp_all add: qsort_def mset_insert_row)

lemma set_insert_row: "set (insert_row cmp r rows) = insert r (set rows)"
  using mset_insert_row [of r rows] by (metis set_mset_add_mset_insert set_mset_mset)

lemma sorted_insert_row:
  "sorted_wrt (\<lambda>a b. cmp a b \<le> 0) rows \<Longrightarrow> sorted_wrt (\<lambda>a b. cmp a b \<le> 0) (insert_row cmp r rows)"
proof (induction rows)
  case (Cons s rows)
  have "cmp s r \<le> 0" if "\<not> cmp r s \<le> 0" using that flip [of s r] by simp
  with Cons show ?case by (auto simp: set_insert_row dest: le_trans)
qed simp

lemma sorted_qsort: "sorted_wrt (\<lambda>a b. cmp a b \<le> 0) (qsort cmp rows)"
  by (induction rows) (simp_all add: qsort_def sorted_insert_row)

lemma sorted_unique:
  assumes "sorted_wrt (\<lambda>a b. cmp a b \<le> 0) xs" and "sorted_wrt (\<lambda>a b. cmp a b \<le> 0) ys"
    and "mset xs = mset ys"
    and "\<And>a b. a \<in> set xs \<Longrightarrow> b \<in> set xs \<Longrightarrow> cmp a b = 0 \<Longrightarrow> a = b"
  shows "xs = ys"
  using assms
proof (induction xs arbitrary: ys)
  case (Cons x xs)
  then obtain y zs where ys: "ys = y # zs" by (cases ys) auto
  have sets: "set (x # xs) = set (y # zs)"
    using Cons.prems(3) ys by (metis set_mset_mset)
  have "x = y"
  proof (cases "x \<in> set zs \<and> y \<in> set xs")
    case True
    then have "cmp x y \<le> 0" "cmp y x \<le> 0" using Cons.prems(1,2) ys by auto
    then have "cmp x y = 0" using flip [of x y] by simp
    then show ?thesis using Cons.prems(4) True by simp
  qed (use sets in auto)
  moreover have "xs = zs"
    using Cons.prems ys \<open>x = y\<close> by (intro Cons.IH) auto
  ultimately show ?case using ys by simp
qed simp

lemma qsort_unique:
  assumes "mset ys = mset rows" and "sorted_wrt (\<lambda>a b. cmp a b \<le> 0) ys"
    and "\<And>a b. a \<in> set rows \<Longrightarrow> b \<in> set rows \<Longrightarrow> cmp a b = 0 \<Longrightarrow> a = b"
  shows "ys = qsort cmp rows"
proof (rule sorted_unique [OF assms(2) sorted_qsort])
  show "mset ys = mset (qsort cmp rows)" by (simp add: assms(1) mset_qsort)
qed (use assms mset_eq_setD [OF assms(1)] in auto)

end

section \<open>The comparison of the report\<close>

lemma strcmp_flip: "strcmp t s = - strcmp s t"
  by (induction s t rule: strcmp.induct) auto

lemma strcmp_zero: "strcmp s t = 0 \<longleftrightarrow> s = t"
  by (induction s t rule: strcmp.induct) auto

lemma strcmp_trans: "strcmp s t \<le> 0 \<Longrightarrow> strcmp t u \<le> 0 \<Longrightarrow> strcmp s u \<le> 0"
proof (induction s t arbitrary: u rule: strcmp.induct)
  case (4 x xs y ys)
  then obtain z zs where u: "u = z # zs" by (cases u) auto
  have eq: "(of_char a :: nat) = of_char b \<longleftrightarrow> a = b" for a b :: char by simp
  from 4 show ?case unfolding u
    by (auto split: if_splits dest: eq [THEN iffD1, rotated] intro: ccontr)
next
  case 1
  then show ?case by simp
next
  case (2 y ys)
  then show ?case by (cases u) auto
qed simp

text \<open>Comparisons chained as the C code chains them: the next one decides ties.\<close>

definition then_by :: "int \<Rightarrow> int \<Rightarrow> int" where
  "then_by c d = (if c \<noteq> 0 then c else d)"

lemma comparator_then_by:
  assumes "comparator f" and "comparator g"
  shows "comparator (\<lambda>a b. then_by (f a b) (g a b))"
proof
  note f = comparator.flip [OF assms(1)] comparator.le_trans [OF assms(1)]
  note g = comparator.flip [OF assms(2)] comparator.le_trans [OF assms(2)]
  show "then_by (f b a) (g b a) = - then_by (f a b) (g a b)" for a b
    using f(1) [of b a] g(1) [of b a] by (simp add: then_by_def)
  show "then_by (f a c) (g a c) \<le> 0"
    if "then_by (f a b) (g a b) \<le> 0" and "then_by (f b c) (g b c) \<le> 0" for a b c
  proof -
    have le: "f a b \<le> 0" "f b c \<le> 0" using that by (auto simp: then_by_def split: if_splits)
    then have ac: "f a c \<le> 0" by (rule f(2))
    show ?thesis
    proof (cases "f a c = 0")
      case False
      with ac show ?thesis by (simp add: then_by_def)
    next
      case True
      then have "f c a \<le> 0" using f(1) [of c a] by simp
      then have "f c b \<le> 0" "f b a \<le> 0" using le f(2) by blast+
      then have "f a b = 0" "f b c = 0" using le f(1) [of b a] f(1) [of c b] by simp_all
      then show ?thesis using that True g(2) [of a b c] by (simp add: then_by_def)
    qed
  qed
qed

definition by_time :: "sg_syscall_stat \<Rightarrow> sg_syscall_stat \<Rightarrow> int" where
  "by_time l r = (if nanoseconds l = nanoseconds r then 0
     else if nanoseconds l > nanoseconds r then - 1 else 1)"

definition by_name :: "sg_syscall_stat \<Rightarrow> sg_syscall_stat \<Rightarrow> int" where
  "by_name l r = (case (sg_syscall_by_number (st_number l), sg_syscall_by_number (st_number r)) of
       (Some ld, Some rd) \<Rightarrow> strcmp (sc_name ld) (sc_name rd)
     | (Some ld, None) \<Rightarrow> - 1 | (None, Some rd) \<Rightarrow> 1 | (None, None) \<Rightarrow> 0)"

definition by_num :: "sg_syscall_stat \<Rightarrow> sg_syscall_stat \<Rightarrow> int" where
  "by_num l r = (if st_number l = st_number r then 0 else if st_number l < st_number r then - 1 else 1)"

lemma compare_rows_chain:
  "compare_rows l r = then_by (by_time l r) (then_by (by_name l r) (by_num l r))"
  by (simp add: compare_rows_def then_by_def by_time_def by_name_def by_num_def Let_def
      split: option.split)

lemma comparator_by_time: "comparator by_time"
  by unfold_locales (auto simp: by_time_def split: if_splits)

lemma comparator_by_num: "comparator by_num"
  by unfold_locales (auto simp: by_num_def split: if_splits)

lemma comparator_by_name: "comparator by_name"
proof
  show "by_name b a = - by_name a b" for a b
    by (simp add: by_name_def split: option.split) (blast intro: strcmp_flip)
  show "by_name a c \<le> 0" if "by_name a b \<le> 0" and "by_name b c \<le> 0" for a b c
    using that strcmp_trans by (auto simp: by_name_def split: option.splits)
qed

interpretation cmp: comparator compare_rows
  using comparator_then_by [OF comparator_by_time comparator_then_by [OF comparator_by_name comparator_by_num]]
  by (simp add: compare_rows_chain [abs_def])

lemma compare_rows_zero: "compare_rows l r = 0 \<Longrightarrow> st_number l = st_number r"
  by (auto simp: compare_rows_chain then_by_def by_num_def split: if_splits)

lemma rows_zero_eq:
  assumes "stats_wf st" and "a \<in> set (st_rows st)" and "b \<in> set (st_rows st)"
    and "compare_rows a b = 0"
  shows "a = b"
  using assms compare_rows_zero [OF assms(4)] by (auto simp: stats_wf_def distinct_map inj_on_def)

section \<open>Properties\<close>

text \<open>
  C27. Recording any sequence of events with valid clock readings, starting from empty statistics
  and however memory behaves, always returns. In the end the calls, errors and nanoseconds of
  every system call number are exactly those of the recorded events with that number, and the
  totals are the sums over the rows.
\<close>

theorem stats_count_events:
  assumes "\<forall>e \<in> set es. valid_times e"
  shows "\<exists>oks st. record_all h sg_stats_init es = Some (oks, st) \<and> length oks = length es \<and>
    (\<forall>n. tally st n = share (recorded es oks) n) \<and>
    unat (total_calls st) = sum_list (map (unat \<circ> calls) (st_rows st)) \<and>
    unat (total_errors st) = sum_list (map (unat \<circ> errors) (st_rows st)) \<and>
    unat (total_nanoseconds st) = sum_list (map (unat \<circ> nanoseconds) (st_rows st))"
proof -
  obtain oks st where r: "record_all h sg_stats_init es = Some (oks, st)" "length oks = length es"
      "stats_wf st" "\<forall>n. tally st n = tally_plus (0, 0, 0) (share (recorded es oks) n)"
    using record_all_correct [OF stats_wf_init, of es h] assms by auto
  have "tally_plus (0, 0, 0) t = t" for t by (simp add: tally_plus_def split: prod.splits)
  with r show ?thesis by (auto simp: stats_wf_def)
qed

definition demo_event :: sg_syscall_event where
  "demo_event = zero_syscall_event\<lparr>ev_number := 2, ev_error_number := 13, ev_completed := True,
     ev_exited_at := \<lparr>tv_sec = 1, tv_nsec = 5\<rparr>\<rparr>"

lemma demo_event_valid: "valid_times demo_event"
  by (simp add: demo_event_def valid_times_def zero_syscall_event_def zero_timespec_def)

theorem stats_count_events_witness:
  "\<exists>oks st. record_all [] sg_stats_init [demo_event, demo_event] = Some (oks, st) \<and>
     tally st 2 = share (recorded [demo_event, demo_event] oks) 2"
  using stats_count_events [of "[demo_event, demo_event]" "[]"] demo_event_valid by auto

text \<open>
  C28. One call of \<open>sg_stats_record\<close> on well-formed statistics either adds the event to the row of
  its number, or changes nothing. It refuses only an event that is not completed, a duration that
  is out of range, a total that would overflow, refused memory, or 2^58 rows: no row can overflow
  before the totals do.
\<close>

theorem stats_record_step:
  assumes "stats_wf st" and "elapsed_nanoseconds e = Some (fits, ns)"
  shows "\<exists>ok h' st'. sg_stats_record h st e = Some (ok, h', st') \<and> stats_wf st' \<and>
    (if ok then ev_completed e \<and> fits \<and>
        tally st' = (tally st)(ev_number e :=
          tally_add (ev_error_number e \<noteq> 0) (unat ns) (tally st (ev_number e)))
     else st' = st \<and>
       (\<not> ev_completed e \<or> \<not> fits \<or> unat (total_calls st) + 1 = 2 ^ 64 \<or>
        2 ^ 64 \<le> unat (total_nanoseconds st) + unat ns \<or> False \<in> set h \<or>
        2 ^ 58 \<le> unat (st_count st)))"
  using assms by (rule stats_record_correct)

theorem stats_record_step_witness:
  "\<exists>h' st'. sg_stats_record [] sg_stats_init demo_event = Some (True, h', st') \<and>
     tally st' 2 = (1, 1, 1000000005)"
proof -
  have d: "duration demo_event = 1000000005"
    by (simp add: demo_event_def duration_def zero_syscall_event_def zero_timespec_def)
  then have el: "elapsed_nanoseconds demo_event = Some (True, 1000000005)"
    using elapsed_spec [OF demo_event_valid] by simp
  have c: "ev_completed demo_event" "ev_number demo_event = 2" "ev_error_number demo_event = 13"
    by (simp_all add: demo_event_def)
  have z: "total_calls sg_stats_init = 0" "total_nanoseconds sg_stats_init = 0"
      "st_count sg_stats_init = 0"
    by (simp_all add: sg_stats_init_def)
  obtain ok h' st' where r: "sg_stats_record [] sg_stats_init demo_event = Some (ok, h', st')"
      "ok" "tally st' = (tally sg_stats_init)(2 := tally_add True 1000000005 (tally sg_stats_init 2))"
    using stats_record_step [OF stats_wf_init el, of "[]"] c z by (auto split: if_splits)
  then show ?thesis by (auto simp: tally_add_def)
qed

text \<open>
  C30. For valid clock readings the duration is computed without undefined behaviour: negative
  durations count as zero, durations below 2^64 nanoseconds are exact, and only durations of at
  least 18446744074 seconds are refused. Between the two limits the 64-bit sum wraps around.
\<close>

theorem elapsed_nanoseconds_exact:
  assumes "valid_times e"
  shows "\<exists>fits ns. elapsed_nanoseconds e = Some (fits, ns) \<and>
    (fits \<longleftrightarrow> duration e < 18446744074000000000) \<and>
    (fits \<longrightarrow> int (unat ns) = (if duration e < 0 then 0 else duration e mod 2 ^ 64)) \<and>
    (fits \<and> duration e < 2 ^ 64 \<longrightarrow> int (unat ns) = max 0 (duration e))"
proof -
  have "int (unat (of_int d :: u64)) = d mod 2 ^ 64" for d
    by (simp add: unsigned_of_int take_bit_eq_mod)
  then show ?thesis using elapsed_spec [OF assms] by auto
qed

theorem elapsed_nanoseconds_exact_witness:
  "\<exists>ns. elapsed_nanoseconds demo_event = Some (True, ns) \<and> int (unat ns) = 1000000005"
proof -
  have d: "duration demo_event = 1000000005"
    by (simp add: demo_event_def duration_def zero_syscall_event_def zero_timespec_def)
  from elapsed_nanoseconds_exact [OF demo_event_valid] d show ?thesis by auto
qed



end
