(* ===== verification/Seccomp.thy ===== *)
theory Seccomp
  imports Syscall_Filter "HOL-Library.Monad_Syntax"
begin

text \<open>
  The optional seccomp filter of \<open>src/trace.c\<close> (\<open>append_bpf\<close>, \<open>prepare_seccomp_program\<close>): the
  selection of system calls is compiled to a classic BPF program that the kernel runs before
  every system call of the tracee.

  The kernel's BPF machine is not part of the repository. It is a parameter \<open>exec\<close>; the locale
  \<open>cbpf_machine\<close> states the documented meaning of the four instructions the program uses, and the
  verdict of the compiled program is proved for every machine with these laws. \<open>cbpf_exec\<close> is one
  such machine.
\<close>

section \<open>Programs\<close>

record sock_filter =
  code :: u16
  jt :: u8
  jf :: u8
  k_value :: u32

record seccomp_program =
  instructions :: "sock_filter list"
  program_len :: u16

datatype seccomp_error = Seccomp_Too_Large | Seccomp_Kernel_Limit | Seccomp_No_Memory

text \<open>Constants of \<open>linux/filter.h\<close>, \<open>linux/seccomp.h\<close>, \<open>linux/audit.h\<close> and of \<open>trace.c\<close>.\<close>

definition BPF_LD_W_ABS :: u16 where "BPF_LD_W_ABS = 0x20"
definition BPF_JMP_JEQ_K :: u16 where "BPF_JMP_JEQ_K = 0x15"
definition BPF_JMP_JGE_K :: u16 where "BPF_JMP_JGE_K = 0x35"
definition BPF_RET_K :: u16 where "BPF_RET_K = 0x06"
definition OFFSET_NR :: u32 where "OFFSET_NR = 0"
definition OFFSET_ARCH :: u32 where "OFFSET_ARCH = 4"
definition AUDIT_ARCH_X86_64 :: u32 where "AUDIT_ARCH_X86_64 = 0xC000003E"
definition SECCOMP_RET_TRACE :: u32 where "SECCOMP_RET_TRACE = 0x7ff00000"
definition SECCOMP_RET_ALLOW :: u32 where "SECCOMP_RET_ALLOW = 0x7fff0000"
definition SYS_rt_sigreturn :: int where "SYS_rt_sigreturn = 15"
definition USHRT_MAX :: u64 where "USHRT_MAX = 65535"

definition SG_X32_SYSCALL_BIT :: u32 where "SG_X32_SYSCALL_BIT = 0x40000000"
definition SG_SECCOMP_BAD_ARCH :: u32 where "SG_SECCOMP_BAD_ARCH = 1"
definition SG_SECCOMP_BAD_ABI :: u32 where "SG_SECCOMP_BAD_ABI = 2"

lemmas seccomp_constants =
  BPF_LD_W_ABS_def BPF_JMP_JEQ_K_def BPF_JMP_JGE_K_def BPF_RET_K_def OFFSET_NR_def OFFSET_ARCH_def
  AUDIT_ARCH_X86_64_def SECCOMP_RET_TRACE_def SECCOMP_RET_ALLOW_def SYS_rt_sigreturn_def
  SG_X32_SYSCALL_BIT_def SG_SECCOMP_BAD_ARCH_def SG_SECCOMP_BAD_ABI_def

definition zero_instruction :: sock_filter where
  "zero_instruction = \<lparr>code = 0, jt = 0, jf = 0, k_value = 0\<rparr>"

text \<open>Writing past the allocated instructions has no defined result.\<close>

definition append_bpf ::
    "seccomp_program \<Rightarrow> u16 \<Rightarrow> u8 \<Rightarrow> u8 \<Rightarrow> u32 \<Rightarrow> seccomp_program option" where
  "append_bpf p c jump_true jump_false v =
     (let index = unat (program_len p)
      in if index < length (instructions p)
         then Some (p\<lparr>instructions := (instructions p)
                 [index := \<lparr>code = c, jt = jump_true, jf = jump_false, k_value = v\<rparr>],
               program_len := of_nat (index + 1)\<rparr>)
         else None)"

text \<open>The loop over all system call numbers.\<close>

fun append_numbers :: "sg_filter \<Rightarrow> int list \<Rightarrow> seccomp_program \<Rightarrow> seccomp_program option" where
  "append_numbers sel [] p = Some p"
| "append_numbers sel (number # numbers) p =
     (if \<not> sg_filter_contains sel number \<and> number \<noteq> SYS_rt_sigreturn
      then append_numbers sel numbers p
      else do {
        p \<leftarrow> append_bpf p BPF_JMP_JEQ_K 0 1 (of_int number);
        p \<leftarrow> append_bpf p BPF_RET_K 0 0 SECCOMP_RET_TRACE;
        append_numbers sel numbers p
      })"

definition prepare_seccomp_program ::
    "heap \<Rightarrow> sg_filter \<Rightarrow> ((seccomp_error + seccomp_program) \<times> heap) option" where
  "prepare_seccomp_program h sel =
     (let selected_count = (of_nat (sg_filter_count sel) :: u64);
          selected_count = (if \<not> sg_filter_contains sel SYS_rt_sigreturn
                            then selected_count + 1 else selected_count)
      in if selected_count > (SIZE_MAX - 7) div 2 then Some (Inl Seccomp_Too_Large, h)
         else let capacity = 7 + selected_count * 2
           in if capacity > USHRT_MAX then Some (Inl Seccomp_Kernel_Limit, h)
              else case alloc h of (ok, h') \<Rightarrow>
                if \<not> ok then Some (Inl Seccomp_No_Memory, h')
                else let p = \<lparr>instructions = replicate (unat capacity) zero_instruction,
                              program_len = 0\<rparr>
                  in do {
                    p \<leftarrow> append_bpf p BPF_LD_W_ABS 0 0 OFFSET_ARCH;
                    p \<leftarrow> append_bpf p BPF_JMP_JEQ_K 1 0 AUDIT_ARCH_X86_64;
                    p \<leftarrow> append_bpf p BPF_RET_K 0 0 (SECCOMP_RET_TRACE OR SG_SECCOMP_BAD_ARCH);
                    p \<leftarrow> append_bpf p BPF_LD_W_ABS 0 0 OFFSET_NR;
                    p \<leftarrow> append_bpf p BPF_JMP_JGE_K 0 1 SG_X32_SYSCALL_BIT;
                    p \<leftarrow> append_bpf p BPF_RET_K 0 0 (SECCOMP_RET_TRACE OR SG_SECCOMP_BAD_ABI);
                    p \<leftarrow> append_numbers sel (map int [0..<SG_SYSCALL_LIMIT]) p;
                    p \<leftarrow> append_bpf p BPF_RET_K 0 0 SECCOMP_RET_ALLOW;
                    Some (Inr p, h')
                  })"

definition release_seccomp_program :: "seccomp_program \<Rightarrow> seccomp_program" where
  "release_seccomp_program p = \<lparr>instructions = [], program_len = 0\<rparr>"

section \<open>The code that is written\<close>

definition INS :: "u16 \<Rightarrow> u8 \<Rightarrow> u8 \<Rightarrow> u32 \<Rightarrow> sock_filter" where
  "INS c t f v = \<lparr>code = c, jt = t, jf = f, k_value = v\<rparr>"

definition seccomp_header :: "sock_filter list" where
  "seccomp_header =
     [INS BPF_LD_W_ABS 0 0 OFFSET_ARCH, INS BPF_JMP_JEQ_K 1 0 AUDIT_ARCH_X86_64,
      INS BPF_RET_K 0 0 (SECCOMP_RET_TRACE OR SG_SECCOMP_BAD_ARCH),
      INS BPF_LD_W_ABS 0 0 OFFSET_NR, INS BPF_JMP_JGE_K 0 1 SG_X32_SYSCALL_BIT,
      INS BPF_RET_K 0 0 (SECCOMP_RET_TRACE OR SG_SECCOMP_BAD_ABI)]"

definition number_code :: "int list \<Rightarrow> sock_filter list" where
  "number_code ns =
     concat (map (\<lambda>n. [INS BPF_JMP_JEQ_K 0 1 (of_int n), INS BPF_RET_K 0 0 SECCOMP_RET_TRACE]) ns)"

definition traced_numbers :: "sg_filter \<Rightarrow> int list" where
  "traced_numbers sel =
     filter (\<lambda>n. sg_filter_contains sel n \<or> n = SYS_rt_sigreturn) (map int [0..<SG_SYSCALL_LIMIT])"

definition seccomp_code :: "sg_filter \<Rightarrow> sock_filter list" where
  "seccomp_code sel =
     seccomp_header @ number_code (traced_numbers sel) @ [INS BPF_RET_K 0 0 SECCOMP_RET_ALLOW]"

text \<open>A program under construction: \<open>xs\<close> has been written, \<open>room\<close> more instructions fit.\<close>

definition holds_code :: "seccomp_program \<Rightarrow> sock_filter list \<Rightarrow> nat \<Rightarrow> bool" where
  "holds_code p xs room \<longleftrightarrow>
     length (instructions p) = length xs + room \<and> length xs + room \<le> 65535 \<and>
     unat (program_len p) = length xs \<and> take (length xs) (instructions p) = xs"

lemma append_bpf_holds:
  assumes "holds_code p xs (Suc room)"
  obtains p' where "append_bpf p c t f v = Some p'" and "holds_code p' (xs @ [INS c t f v]) room"
proof -
  let ?p = "p\<lparr>instructions := (instructions p)[length xs := INS c t f v],
      program_len := of_nat (Suc (length xs))\<rparr>"
  have "append_bpf p c t f v = Some ?p"
    using assms by (simp add: append_bpf_def holds_code_def Let_def INS_def)
  moreover have "unat (of_nat (Suc (length xs)) :: u16) = Suc (length xs)"
    using assms by (intro unat_of_nat_small) (simp add: holds_code_def)
  then have "holds_code ?p (xs @ [INS c t f v]) room"
    using assms by (simp add: holds_code_def take_Suc_conv_app_nth)
  ultimately show thesis by (rule that)
qed

lemma append_numbers_holds:
  assumes "holds_code p xs (length (number_code (filter wanted ns)) + room)"
    and "wanted = (\<lambda>n. sg_filter_contains sel n \<or> n = SYS_rt_sigreturn)"
  shows "\<exists>p'. append_numbers sel ns p = Some p' \<and>
    holds_code p' (xs @ number_code (filter wanted ns)) room"
  using assms(1)
proof (induction ns arbitrary: p xs)
  case Nil
  then show ?case by (simp add: number_code_def)
next
  case (Cons n ns)
  show ?case
  proof (cases "wanted n")
    case False
    with Cons show ?thesis by (simp add: assms(2))
  next
    case True
    let ?i = "INS BPF_JMP_JEQ_K 0 1 (of_int n)" and ?j = "INS BPF_RET_K 0 0 SECCOMP_RET_TRACE"
    let ?rest = "length (number_code (filter wanted ns)) + room"
    have "holds_code p xs (Suc (Suc ?rest))"
      using Cons.prems True by (simp add: number_code_def)
    then obtain p1 where p1: "append_bpf p BPF_JMP_JEQ_K 0 1 (of_int n) = Some p1"
        "holds_code p1 (xs @ [?i]) (Suc ?rest)"
      by (rule append_bpf_holds)
    from p1(2) obtain p2 where p2: "append_bpf p1 BPF_RET_K 0 0 SECCOMP_RET_TRACE = Some p2"
        "holds_code p2 ((xs @ [?i]) @ [?j]) ?rest"
      by (rule append_bpf_holds)
    from Cons.IH [OF p2(2)] p1(1) p2(1) True show ?thesis
      by (auto simp: assms(2) number_code_def)
  qed
qed

lemma length_seccomp_code:
  assumes "filter_wf sel"
  shows "length (seccomp_code sel) = 7 + 2 * (sg_filter_count sel +
    (if sg_filter_contains sel SYS_rt_sigreturn then 0 else 1))"
proof -
  have "length (number_code ns) = 2 * length ns" for ns
    by (induction ns) (simp_all add: number_code_def)
  moreover have "length (traced_numbers sel) =
      sg_filter_count sel + (if sg_filter_contains sel SYS_rt_sigreturn then 0 else 1)"
    unfolding traced_numbers_def using assms
    by (intro flt.selected_numbers) (simp_all add: SYS_rt_sigreturn_def SG_SYSCALL_LIMIT_def)
  ultimately show ?thesis by (simp add: seccomp_code_def seccomp_header_def)
qed

text \<open>The allocation is exactly as long as the code, and its length fits the kernel's limit.\<close>

lemma prepare_correct:
  assumes wf: "filter_wf sel" and al: "alloc h = (ok, h')"
  shows "prepare_seccomp_program h sel =
    (if ok then Some (Inr \<lparr>instructions = seccomp_code sel,
        program_len = of_nat (length (seccomp_code sel))\<rparr>, h')
     else Some (Inl Seccomp_No_Memory, h'))"
proof -
  define n where
    "n = sg_filter_count sel + (if sg_filter_contains sel SYS_rt_sigreturn then 0 else 1)"
  let ?count = "if \<not> sg_filter_contains sel SYS_rt_sigreturn
    then (of_nat (sg_filter_count sel) :: u64) + 1 else of_nat (sg_filter_count sel)"
  have le: "sg_filter_count sel \<le> 512"
    using flt.size_of_le_limit [OF wf] by (simp add: SG_SYSCALL_LIMIT_def)
  have count: "?count = of_nat n" by (simp add: n_def)
  have n: "unat (of_nat n :: u64) = n" using le by (intro unat_of_nat_u64) (auto simp: n_def)
  have len: "length (seccomp_code sel) = 7 + 2 * n" using wf by (simp add: length_seccomp_code n_def)
  have small: "\<not> (of_nat n :: u64) > (SIZE_MAX - 7) div 2"
    using n le by (simp add: word_less_nat_alt unat_div n_def)
  have "(7 + of_nat n * 2 :: u64) = of_nat (7 + 2 * n)" by simp
  then have cap: "unat (7 + of_nat n * 2 :: u64) = length (seccomp_code sel)"
    unfolding len using le by (simp only:) (intro unat_of_nat_u64, auto simp: n_def)
  have limit: "length (seccomp_code sel) \<le> 65535" using le by (simp add: len n_def)
  then have fits: "\<not> (7 + of_nat n * 2 :: u64) > USHRT_MAX"
    unfolding word_less_nat_alt cap by (simp add: USHRT_MAX_def)
  let ?p0 = "\<lparr>instructions = replicate (length (seccomp_code sel)) zero_instruction, program_len = 0\<rparr>"
  let ?room = "length (number_code (traced_numbers sel)) + 1"
  have "holds_code ?p0 [] (Suc (Suc (Suc (Suc (Suc (Suc ?room))))))"
    using limit by (simp add: holds_code_def seccomp_code_def seccomp_header_def)
  then obtain p1 where p1: "append_bpf ?p0 BPF_LD_W_ABS 0 0 OFFSET_ARCH = Some p1"
      "holds_code p1 ([] @ [INS BPF_LD_W_ABS 0 0 OFFSET_ARCH]) (Suc (Suc (Suc (Suc (Suc ?room)))))"
    by (rule append_bpf_holds)
  from p1(2) obtain p2 where p2: "append_bpf p1 BPF_JMP_JEQ_K 1 0 AUDIT_ARCH_X86_64 = Some p2"
      "holds_code p2 (([] @ [INS BPF_LD_W_ABS 0 0 OFFSET_ARCH]) @
        [INS BPF_JMP_JEQ_K 1 0 AUDIT_ARCH_X86_64]) (Suc (Suc (Suc (Suc ?room))))"
    by (rule append_bpf_holds)
  from p2(2) obtain p3 where p3: "append_bpf p2 BPF_RET_K 0 0
        (SECCOMP_RET_TRACE OR SG_SECCOMP_BAD_ARCH) = Some p3"
      "holds_code p3 (take 3 seccomp_header) (Suc (Suc (Suc ?room)))"
    by (rule append_bpf_holds) (simp add: seccomp_header_def)
  from p3(2) obtain p4 where p4: "append_bpf p3 BPF_LD_W_ABS 0 0 OFFSET_NR = Some p4"
      "holds_code p4 (take 4 seccomp_header) (Suc (Suc ?room))"
    by (rule append_bpf_holds) (simp add: seccomp_header_def)
  from p4(2) obtain p5 where p5: "append_bpf p4 BPF_JMP_JGE_K 0 1 SG_X32_SYSCALL_BIT = Some p5"
      "holds_code p5 (take 5 seccomp_header) (Suc ?room)"
    by (rule append_bpf_holds) (simp add: seccomp_header_def)
  from p5(2) obtain p6 where p6: "append_bpf p5 BPF_RET_K 0 0
        (SECCOMP_RET_TRACE OR SG_SECCOMP_BAD_ABI) = Some p6" "holds_code p6 seccomp_header ?room"
    by (rule append_bpf_holds) (simp add: seccomp_header_def)
  from append_numbers_holds [of p6 seccomp_header _ "map int [0..<SG_SYSCALL_LIMIT]" 1, OF _ refl] p6(2)
  obtain p7 where p7: "append_numbers sel (map int [0..<SG_SYSCALL_LIMIT]) p6 = Some p7"
      "holds_code p7 (seccomp_header @ number_code (traced_numbers sel)) (Suc 0)"
    by (auto simp: traced_numbers_def)
  from p7(2) obtain p8 where p8: "append_bpf p7 BPF_RET_K 0 0 SECCOMP_RET_ALLOW = Some p8"
      "holds_code p8 (seccomp_code sel) 0"
    by (rule append_bpf_holds) (simp add: seccomp_code_def)
  have "p8 = \<lparr>instructions = seccomp_code sel, program_len = of_nat (length (seccomp_code sel))\<rparr>"
    using p8(2) by (cases p8) (auto simp: holds_code_def word_nat unat_of_nat_small)
  with p1(1) p2(1) p3(1) p4(1) p5(1) p6(1) p7(1) p8(1) al small fits cap show ?thesis
    unfolding prepare_seccomp_program_def Let_def count by simp
qed

section \<open>The machine that runs it\<close>

record seccomp_data =
  nr :: u32
  arch :: u32
  instruction_pointer :: u64
  args :: "u64 list"

text \<open>
  The laws of classic BPF for the four instructions: \<open>exec prog data pc a\<close> is the value the program
  returns when it is at instruction \<open>pc\<close> with accumulator \<open>a\<close>.
\<close>

locale cbpf_machine =
  fixes exec :: "sock_filter list \<Rightarrow> seccomp_data \<Rightarrow> nat \<Rightarrow> u32 \<Rightarrow> u32"
  assumes load_nr: "pc < length prog \<Longrightarrow> code (prog ! pc) = BPF_LD_W_ABS \<Longrightarrow>
      k_value (prog ! pc) = OFFSET_NR \<Longrightarrow> exec prog d pc a = exec prog d (Suc pc) (nr d)"
    and load_arch: "pc < length prog \<Longrightarrow> code (prog ! pc) = BPF_LD_W_ABS \<Longrightarrow>
      k_value (prog ! pc) = OFFSET_ARCH \<Longrightarrow> exec prog d pc a = exec prog d (Suc pc) (arch d)"
    and jump_eq: "pc < length prog \<Longrightarrow> code (prog ! pc) = BPF_JMP_JEQ_K \<Longrightarrow>
      exec prog d pc a = exec prog d
        (Suc pc + unat (if a = k_value (prog ! pc) then jt (prog ! pc) else jf (prog ! pc))) a"
    and jump_ge: "pc < length prog \<Longrightarrow> code (prog ! pc) = BPF_JMP_JGE_K \<Longrightarrow>
      exec prog d pc a = exec prog d
        (Suc pc + unat (if a \<ge> k_value (prog ! pc) then jt (prog ! pc) else jf (prog ! pc))) a"
    and ret: "pc < length prog \<Longrightarrow> code (prog ! pc) = BPF_RET_K \<Longrightarrow>
      exec prog d pc a = k_value (prog ! pc)"
begin

lemma exec_numbers:
  "exec (pre @ number_code ns @ [INS BPF_RET_K 0 0 SECCOMP_RET_ALLOW]) d (length pre) a =
     (if a \<in> of_int ` set ns then SECCOMP_RET_TRACE else SECCOMP_RET_ALLOW)"
proof (induction ns arbitrary: pre)
  case Nil
  show ?case by (simp add: number_code_def ret INS_def nth_append)
next
  case (Cons n ns)
  let ?two = "[INS BPF_JMP_JEQ_K 0 1 (of_int n), INS BPF_RET_K 0 0 SECCOMP_RET_TRACE]"
  let ?rest = "number_code ns @ [INS BPF_RET_K 0 0 SECCOMP_RET_ALLOW]"
  let ?prog = "pre @ ?two @ ?rest"
  have prog: "pre @ number_code (n # ns) @ [INS BPF_RET_K 0 0 SECCOMP_RET_ALLOW] = ?prog"
    by (simp add: number_code_def)
  have jump: "exec ?prog d (length pre) a =
      exec ?prog d (if a = of_int n then Suc (length pre) else Suc (Suc (length pre))) a"
    using jump_eq [of "length pre" ?prog d a] by (simp add: INS_def nth_append)
  have hit: "exec ?prog d (Suc (length pre)) a = SECCOMP_RET_TRACE"
    using ret [of "Suc (length pre)" ?prog d a] by (simp add: INS_def nth_append)
  have miss: "exec ?prog d (Suc (Suc (length pre))) a =
      (if a \<in> of_int ` set ns then SECCOMP_RET_TRACE else SECCOMP_RET_ALLOW)"
    using Cons.IH [of "pre @ ?two"] by simp
  show ?case unfolding prog using jump hit miss by auto
qed

lemma exec_seccomp_code:
  "exec (seccomp_code sel) d 0 a =
    (if arch d \<noteq> AUDIT_ARCH_X86_64 then SECCOMP_RET_TRACE OR SG_SECCOMP_BAD_ARCH
     else if nr d \<ge> SG_X32_SYSCALL_BIT then SECCOMP_RET_TRACE OR SG_SECCOMP_BAD_ABI
     else if nr d \<in> of_int ` set (traced_numbers sel) then SECCOMP_RET_TRACE
     else SECCOMP_RET_ALLOW)"
proof -
  let ?prog = "seccomp_code sel"
  have len: "7 \<le> length ?prog" by (simp add: seccomp_code_def seccomp_header_def)
  have ne: "?prog \<noteq> []" by (simp add: seccomp_code_def)
  have hlen: "length seccomp_header = 6" by (simp add: seccomp_header_def)
  have at: "?prog ! i = seccomp_header ! i" if "i < 6" for i
    using that hlen by (simp add: seccomp_code_def nth_append)
  have p: "?prog ! 0 = INS BPF_LD_W_ABS 0 0 OFFSET_ARCH"
      "?prog ! 1 = INS BPF_JMP_JEQ_K 1 0 AUDIT_ARCH_X86_64"
      "?prog ! 2 = INS BPF_RET_K 0 0 (SECCOMP_RET_TRACE OR SG_SECCOMP_BAD_ARCH)"
      "?prog ! 3 = INS BPF_LD_W_ABS 0 0 OFFSET_NR"
      "?prog ! 4 = INS BPF_JMP_JGE_K 0 1 SG_X32_SYSCALL_BIT"
      "?prog ! 5 = INS BPF_RET_K 0 0 (SECCOMP_RET_TRACE OR SG_SECCOMP_BAD_ABI)"
    using at by (simp_all add: seccomp_header_def)
  have "exec ?prog d 0 a = exec ?prog d 1 (arch d)"
    using load_arch [of 0 ?prog d a] ne p(1) by (simp add: INS_def)
  also have "\<dots> = exec ?prog d (if arch d = AUDIT_ARCH_X86_64 then 3 else 2) (arch d)"
    using jump_eq [of 1 ?prog d "arch d"] len p(2) by (simp add: INS_def numeral_nat)
  finally have start: "exec ?prog d 0 a =
      exec ?prog d (if arch d = AUDIT_ARCH_X86_64 then 3 else 2) (arch d)" .
  have bad_arch: "exec ?prog d 2 (arch d) = SECCOMP_RET_TRACE OR SG_SECCOMP_BAD_ARCH"
    using ret [of 2 ?prog d "arch d"] len p(3) by (simp add: INS_def)
  have "exec ?prog d 3 (arch d) = exec ?prog d 4 (nr d)"
    using load_nr [of 3 ?prog d "arch d"] len p(4) by (simp add: INS_def numeral_nat)
  also have "\<dots> = exec ?prog d (if nr d \<ge> SG_X32_SYSCALL_BIT then 5 else 6) (nr d)"
    using jump_ge [of 4 ?prog d "nr d"] len p(5) by (simp add: INS_def numeral_nat)
  finally have nr: "exec ?prog d 3 (arch d) =
      exec ?prog d (if nr d \<ge> SG_X32_SYSCALL_BIT then 5 else 6) (nr d)" .
  have bad_abi: "exec ?prog d 5 (nr d) = SECCOMP_RET_TRACE OR SG_SECCOMP_BAD_ABI"
    using ret [of 5 ?prog d "nr d"] len p(6) by (simp add: INS_def)
  have "exec ?prog d 6 (nr d) = (if nr d \<in> of_int ` set (traced_numbers sel)
      then SECCOMP_RET_TRACE else SECCOMP_RET_ALLOW)"
    using exec_numbers [of seccomp_header "traced_numbers sel" d "nr d"] hlen
    by (simp add: seccomp_code_def)
  with start bad_arch nr bad_abi show ?thesis by (cases "arch d = AUDIT_ARCH_X86_64") auto
qed

end

section \<open>An executable machine\<close>

text \<open>
  Classic BPF as far as the program uses it; instructions outside this set and a program counter
  past the end return 0, the verdict that kills the process.
\<close>

function cbpf_exec :: "sock_filter list \<Rightarrow> seccomp_data \<Rightarrow> nat \<Rightarrow> u32 \<Rightarrow> u32" where
  "cbpf_exec prog d pc a =
     (if pc < length prog
      then let i = prog ! pc
        in if code i = BPF_LD_W_ABS
           then cbpf_exec prog d (Suc pc)
                  (if k_value i = OFFSET_NR then nr d else if k_value i = OFFSET_ARCH then arch d else 0)
           else if code i = BPF_JMP_JEQ_K
           then cbpf_exec prog d (Suc pc + unat (if a = k_value i then jt i else jf i)) a
           else if code i = BPF_JMP_JGE_K
           then cbpf_exec prog d (Suc pc + unat (if a \<ge> k_value i then jt i else jf i)) a
           else if code i = BPF_RET_K then k_value i else 0
      else 0)"
  by pat_completeness auto
termination
  by (relation "measure (\<lambda>(prog, d, pc, a). length prog - pc)") auto

declare cbpf_exec.simps [simp del]

interpretation bpf: cbpf_machine cbpf_exec
  by unfold_locales (subst cbpf_exec.simps, simp add: Let_def seccomp_constants)+

section \<open>Properties\<close>

lemma of_int_small_u32:
  fixes w :: u32
  assumes "0 \<le> n" and "n < 512"
  shows "w = of_int n \<longleftrightarrow> int (unat w) = n"
proof -
  have "unat (of_nat (nat n) :: u32) = nat n" using assms by (intro unat_of_nat_small) simp
  then have "unat (of_int n :: u32) = nat n" using assms(1) by simp
  then have "w = of_int n \<longleftrightarrow> unat w = nat n" by (simp add: word_unat_eq_iff)
  moreover have "int m = n \<longleftrightarrow> m = nat n" for m using assms(1) by auto
  ultimately show ?thesis by blast
qed

lemma traced_iff:
  "w \<in> of_int ` set (traced_numbers sel) \<longleftrightarrow>
     sg_filter_contains sel (int (unat w)) \<or> int (unat w) = SYS_rt_sigreturn" for w :: u32
proof -
  have mem: "n \<in> set (traced_numbers sel) \<longleftrightarrow>
      sg_filter_contains sel n \<or> n = SYS_rt_sigreturn" for n
  proof -
    have "set (map int [0..<SG_SYSCALL_LIMIT]) = {0..<512}"
      by (simp add: image_int_atLeastLessThan SG_SYSCALL_LIMIT_def)
    then show ?thesis
      unfolding traced_numbers_def using flt.contains_range [of sel n]
      by (auto simp: SG_SYSCALL_LIMIT_def SYS_rt_sigreturn_def)
  qed
  have "0 \<le> n \<and> n < 512" if "n \<in> set (traced_numbers sel)" for n
    using that mem flt.contains_range [of sel n]
    by (auto simp: SG_SYSCALL_LIMIT_def SYS_rt_sigreturn_def)
  then have "w \<in> of_int ` set (traced_numbers sel) \<longleftrightarrow> int (unat w) \<in> set (traced_numbers sel)"
    using of_int_small_u32 [of _ w] by (auto simp: image_iff)
  then show ?thesis by (simp add: mem)
qed

text \<open>
  C21. On every machine with the documented meaning of the four instructions, the compiled program
  traces a native x86-64 system call exactly when the filter selects its number or it is
  \<open>rt_sigreturn\<close>, lets every other one pass, and reports a foreign architecture as code 1 and an
  x32 call as code 2.
\<close>

theorem seccomp_verdict:
  assumes "cbpf_machine exec" and "filter_wf sel"
    and "prepare_seccomp_program h sel = Some (Inr p, h')"
  shows "exec (instructions p) d 0 a =
    (if arch d \<noteq> AUDIT_ARCH_X86_64 then SECCOMP_RET_TRACE OR SG_SECCOMP_BAD_ARCH
     else if nr d \<ge> SG_X32_SYSCALL_BIT then SECCOMP_RET_TRACE OR SG_SECCOMP_BAD_ABI
     else if sg_filter_contains sel (int (unat (nr d))) \<or> int (unat (nr d)) = SYS_rt_sigreturn
     then SECCOMP_RET_TRACE else SECCOMP_RET_ALLOW)"
proof -
  obtain ok h1 where "alloc h = (ok, h1)" by (cases "alloc h")
  with prepare_correct [OF assms(2) this] assms(3) have "instructions p = seccomp_code sel"
    by (auto split: if_splits)
  then show ?thesis by (simp add: cbpf_machine.exec_seccomp_code [OF assms(1)] traced_iff)
qed

definition demo_selection :: sg_filter where
  "demo_selection = set_number (sg_filter_clear \<lparr>words = [], active = False\<rparr>) 2 True"

lemma demo_selection_wf: "filter_wf demo_selection"
  by (simp add: demo_selection_def sg_filter_clear_def filter_wf_def set_number_def Let_def)

theorem seccomp_verdict_witness:
  "\<exists>p h'. prepare_seccomp_program [] demo_selection = Some (Inr p, h') \<and>
     cbpf_exec (instructions p)
       \<lparr>nr = 2, arch = AUDIT_ARCH_X86_64, instruction_pointer = 0, args = []\<rparr> 0 0 = SECCOMP_RET_TRACE"
proof -
  obtain p h' where p: "prepare_seccomp_program [] demo_selection = Some (Inr p, h')"
    using prepare_correct [OF demo_selection_wf, of "[]"] by auto
  have "sg_filter_contains demo_selection 2"
    by (simp add: demo_selection_def sg_filter_clear_def set_number_def sg_filter_contains_def Let_def
        SG_SYSCALL_LIMIT_def SG_FILTER_WORD_BITS_def SG_FILTER_WORDS_def)
  with seccomp_verdict [OF bpf.cbpf_machine_axioms demo_selection_wf p] p show ?thesis
    by (auto simp: SG_X32_SYSCALL_BIT_def)
qed

text \<open>
  C22. For every well-formed selection the array allocated for the program is filled exactly: no
  instruction is written past its end and none is left unwritten; the program is shorter than the
  kernel's limit, so that the only failure is refused memory.
\<close>

theorem seccomp_program_fits:
  assumes "filter_wf sel"
  shows "\<exists>r h'. prepare_seccomp_program h sel = Some (r, h') \<and>
    (case r of Inl e \<Rightarrow> e = Seccomp_No_Memory \<and> False \<in> set h
     | Inr p \<Rightarrow> unat (program_len p) = length (instructions p) \<and> length (instructions p) \<le> 1033)"
proof -
  obtain ok h1 where al: "alloc h = (ok, h1)" by (cases "alloc h")
  have "length (seccomp_code sel) \<le> 1033"
    using flt.size_of_le_limit [OF assms] length_seccomp_code [OF assms] flt.size_of_update [OF assms, of 15 True]
      flt.size_of_le_limit [of "set_number sel 15 True"] assms
    by (auto simp: SG_SYSCALL_LIMIT_def SYS_rt_sigreturn_def flt.wf_update split: if_splits)
  moreover from this have "unat (of_nat (length (seccomp_code sel)) :: u16) = length (seccomp_code sel)"
    by (intro unat_of_nat_small) simp
  moreover have "False \<in> set h" if "\<not> ok" using al that by (cases h) auto
  ultimately show ?thesis using prepare_correct [OF assms al] by (cases ok) auto
qed

theorem seccomp_program_fits_witness:
  "\<exists>p h'. prepare_seccomp_program [] demo_selection = Some (Inr p, h') \<and>
     unat (program_len p) = length (instructions p)"
proof -
  obtain r h' where "prepare_seccomp_program [] demo_selection = Some (r, h')"
      "case r of Inl e \<Rightarrow> e = Seccomp_No_Memory \<and> False \<in> set []
       | Inr p \<Rightarrow> unat (program_len p) = length (instructions p) \<and> length (instructions p) \<le> 1033"
    using seccomp_program_fits [OF demo_selection_wf, of "[]"] by blast
  then show ?thesis by (cases r) auto
qed

end
