(* ===== verification/Cli.thy ===== *)
theory Cli
  imports Syscall_Filter
begin

text \<open>
  The command line, \<open>src/cli.c\<close>: the number parsers, the search for the \<open>--\<close> separator, the
  option loop and the validation of the configuration. The C library functions it calls
  (\<open>strtol\<close>, \<open>strtoumax\<close>, \<open>getopt_long\<close> in its \<open>+\<close> mode, with clusters of short options
  and abbreviated long options) are modelled first. The vector \<open>argv\<close> is a list of strings.
\<close>

section \<open>Numbers\<close>

definition c_isspace :: "char \<Rightarrow> bool" where
  "c_isspace c \<longleftrightarrow> c = CHR '' '' \<or> (9 \<le> (of_char c :: nat) \<and> (of_char c :: nat) \<le> 13)"

definition c_isdigit :: "char \<Rightarrow> bool" where
  "c_isdigit c \<longleftrightarrow> 48 \<le> (of_char c :: nat) \<and> (of_char c :: nat) \<le> 57"

definition digits_value :: "string \<Rightarrow> nat" where
  "digits_value s = value_base 10 (map (\<lambda>c. of_char c - 48) s)"

text \<open>
  The scan that \<open>strtol\<close> and \<open>strtoumax\<close> share in base ten: the sign, the digits and the rest of
  the text. Without a digit nothing is consumed.
\<close>

definition scan_decimal :: "string \<Rightarrow> bool \<times> string \<times> string" where
  "scan_decimal text =
     (let s = dropWhile c_isspace text;
          negative = (s \<noteq> [] \<and> hd s = CHR ''-'');
          s = (if s \<noteq> [] \<and> (hd s = CHR ''-'' \<or> hd s = CHR ''+'') then tl s else s);
          ds = takeWhile c_isdigit s
      in if ds = [] then (False, [], text) else (negative, ds, drop (length ds) s))"

text \<open>The value, the text after the number and whether \<open>errno\<close> became \<open>ERANGE\<close>.\<close>

definition strtol :: "string \<Rightarrow> int \<times> string \<times> bool" where
  "strtol text =
     (case scan_decimal text of (negative, ds, rest) \<Rightarrow>
        (let v = (if negative then - int (digits_value ds) else int (digits_value ds))
         in if v > LONG_MAX then (LONG_MAX, rest, True)
            else if v < LONG_MIN then (LONG_MIN, rest, True)
            else (v, rest, False)))"

definition strtoumax :: "string \<Rightarrow> u64 \<times> string \<times> bool" where
  "strtoumax text =
     (case scan_decimal text of (negative, ds, rest) \<Rightarrow>
        (if int (digits_value ds) > 18446744073709551615 then (UINT64_MAX, rest, True)
         else let v = (of_nat (digits_value ds) :: u64)
           in (if negative then - v else v, rest, False)))"

definition SG_DEFAULT_STRING_LIMIT :: u64 where "SG_DEFAULT_STRING_LIMIT = 32"
definition SG_MAX_STRING_LIMIT :: u64 where "SG_MAX_STRING_LIMIT = 1024 * 1024"

definition parse_pid :: "string option \<Rightarrow> int option" where
  "parse_pid text =
     (case text of
        None \<Rightarrow> None
      | Some [] \<Rightarrow> None
      | Some s \<Rightarrow>
          (case strtol s of (v, rest, erange) \<Rightarrow>
             if erange \<or> rest = s \<or> rest \<noteq> [] \<or> v \<le> 0 \<or> v > INT_MAX then None else Some v))"

definition parse_size_limit :: "string option \<Rightarrow> u64 option" where
  "parse_size_limit text =
     (case text of
        None \<Rightarrow> None
      | Some [] \<Rightarrow> None
      | Some (c # s) \<Rightarrow>
          if c = CHR ''-'' then None
          else (case strtoumax (c # s) of (v, rest, erange) \<Rightarrow>
             if erange \<or> rest = c # s \<or> rest \<noteq> [] \<or> v > SG_MAX_STRING_LIMIT then None else Some v))"

section \<open>The configuration\<close>

datatype sg_run_mode = SG_RUN_LAUNCH | SG_RUN_ATTACH

datatype sg_output_format = SG_FORMAT_TEXT | SG_FORMAT_NDJSON | SG_FORMAT_JSON

record sg_config =
  cfg_mode :: sg_run_mode
  cfg_format :: sg_output_format
  attach_pid :: int
  command_argv :: "string list option"
  output_path :: "string option"
  string_limit :: u64
  follow :: bool
  summary :: bool
  seccomp_bpf :: bool
  cfg_filter :: sg_filter

datatype cli_error =
    Cli_Invalid_Arguments | Cli_Attach_Twice | Cli_Invalid_Pid | Cli_Filter_Twice | Cli_Filter filter_error
  | Cli_Invalid_Limit | Cli_Empty_Output | Cli_Unknown_Format | Cli_Bad_Option
  | Cli_Separator_With_Attach | Cli_Command_With_Attach | Cli_Separator_Required | Cli_No_Command
  | Cli_Json_Needs_Summary | Cli_Ndjson_With_Summary | Cli_Seccomp_Attach | Cli_Seccomp_Filter

datatype sg_cli_action = SG_CLI_RUN | SG_CLI_HELP | SG_CLI_VERSION | SG_CLI_ERROR cli_error

definition parse_format :: "string \<Rightarrow> sg_output_format option" where
  "parse_format text =
     (if text = ''text'' then Some SG_FORMAT_TEXT
      else if text = ''ndjson'' then Some SG_FORMAT_NDJSON
      else if text = ''json'' then Some SG_FORMAT_JSON
      else None)"

text \<open>The search for the separator, from the argument at \<open>index\<close> on.\<close>

definition separate_value :: "string \<Rightarrow> bool" where
  "separate_value a \<longleftrightarrow>
     a = ''-p'' \<or> a = ''-e'' \<or> a = ''-s'' \<or> a = ''-o'' \<or> a = ''--format''"

fun separator_from :: "string list \<Rightarrow> nat \<Rightarrow> int" where
  "separator_from [] index = - 1"
| "separator_from (a # as) index =
     (if a = ''--'' then int index
      else if a = [] \<or> hd a \<noteq> CHR ''-'' then - 1
      else if separate_value a
      then (case as of [] \<Rightarrow> - 1 | value # as' \<Rightarrow> separator_from as' (index + 2))
      else separator_from as (index + 1))"

definition separator_index :: "string list \<Rightarrow> int" where
  "separator_index argv = separator_from (drop 1 argv) 1"

definition config_init :: sg_config where
  "config_init =
     \<lparr>cfg_mode = SG_RUN_LAUNCH, cfg_format = SG_FORMAT_TEXT, attach_pid = 0, command_argv = None,
      output_path = None, string_limit = SG_DEFAULT_STRING_LIMIT, follow = False, summary = False,
      seccomp_bpf = False,
      cfg_filter = sg_filter_clear \<lparr>words = replicate SG_FILTER_WORDS 0, active = False\<rparr>\<rparr>"

section \<open>getopt\<close>

text \<open>The value \<open>getopt_long\<close> returns for an option.\<close>

datatype cli_option = OPT_CHAR char | OPT_FORMAT | OPT_SECCOMP_BPF | OPT_VERSION

datatype getopt_answer =
    Getopt_End
  | Getopt_Option cli_option "string option"
  | Getopt_Bad "cli_option option"

text \<open>\<open>optind\<close> and the rest of the cluster of short options that is being read.\<close>

record getopt_state =
  optind :: nat
  nextchar :: string

definition long_options :: "(string \<times> bool \<times> cli_option) list" where
  "long_options =
     [(''follow'', False, OPT_CHAR (CHR ''f'')), (''format'', True, OPT_FORMAT),
      (''help'', False, OPT_CHAR (CHR ''h'')), (''seccomp-bpf'', False, OPT_SECCOMP_BPF),
      (''version'', False, OPT_VERSION)]"

text \<open>The option string \<open>+p:fe:s:o:ch\<close>: \<open>Some True\<close> for a character that takes a value.\<close>

definition short_option :: "char \<Rightarrow> bool option" where
  "short_option c =
     (if c \<in> set ''peso'' then Some True else if c \<in> set ''fch'' then Some False else None)"

text \<open>An exact long name, or the only option it abbreviates.\<close>

definition find_long :: "string \<Rightarrow> (string \<times> bool \<times> cli_option) option" where
  "find_long name =
     (case filter (\<lambda>(n, _). n = name) long_options of
        o1 # _ \<Rightarrow> Some o1
      | [] \<Rightarrow> (case filter (\<lambda>(n, _). prefix name n) long_options of
                [o1] \<Rightarrow> Some o1 | _ \<Rightarrow> None))"

definition getopt_long_option :: "string list \<Rightarrow> nat \<Rightarrow> string \<Rightarrow> getopt_answer \<times> getopt_state" where
  "getopt_long_option argv index text =
     (let name = takeWhile (\<lambda>c. c \<noteq> CHR ''='') text;
          attached = dropWhile (\<lambda>c. c \<noteq> CHR ''='') text;
          after = \<lparr>optind = index + 1, nextchar = []\<rparr>
      in case find_long name of
           None \<Rightarrow> (Getopt_Bad None, after)
         | Some (_, has_arg, v) \<Rightarrow>
             if attached \<noteq> []
             then (if has_arg then (Getopt_Option v (Some (tl attached)), after)
                   else (Getopt_Bad (Some v), after))
             else if has_arg
             then (if index + 1 < length argv
                   then (Getopt_Option v (Some (argv ! (index + 1))),
                         \<lparr>optind = index + 2, nextchar = []\<rparr>)
                   else (Getopt_Bad (Some v), after))
             else (Getopt_Option v None, after))"

text \<open>One short option; \<open>c # cs\<close> is the rest of the argument at \<open>index\<close>.\<close>

definition getopt_short_option ::
    "string list \<Rightarrow> nat \<Rightarrow> char \<Rightarrow> string \<Rightarrow> getopt_answer \<times> getopt_state" where
  "getopt_short_option argv index c cs =
     (let index' = (if cs = [] then index + 1 else index)
      in case short_option c of
           None \<Rightarrow> (Getopt_Bad (Some (OPT_CHAR c)), \<lparr>optind = index', nextchar = cs\<rparr>)
         | Some False \<Rightarrow> (Getopt_Option (OPT_CHAR c) None, \<lparr>optind = index', nextchar = cs\<rparr>)
         | Some True \<Rightarrow>
             if cs \<noteq> []
             then (Getopt_Option (OPT_CHAR c) (Some cs), \<lparr>optind = index + 1, nextchar = []\<rparr>)
             else if index' < length argv
             then (Getopt_Option (OPT_CHAR c) (Some (argv ! index')),
                   \<lparr>optind = index' + 1, nextchar = []\<rparr>)
             else (Getopt_Bad (Some (OPT_CHAR c)), \<lparr>optind = index', nextchar = []\<rparr>))"

definition getopt_long :: "string list \<Rightarrow> getopt_state \<Rightarrow> getopt_answer \<times> getopt_state" where
  "getopt_long argv st =
     (case nextchar st of
        c # cs \<Rightarrow> getopt_short_option argv (optind st) c cs
      | [] \<Rightarrow>
          if optind st \<ge> length argv then (Getopt_End, st)
          else let a = argv ! optind st
            in if a = ''--'' then (Getopt_End, st\<lparr>optind := optind st + 1\<rparr>)
               else case a of
                 x # c # cs \<Rightarrow>
                   if x \<noteq> CHR ''-'' then (Getopt_End, st)
                   else if c = CHR ''-'' then getopt_long_option argv (optind st) cs
                   else getopt_short_option argv (optind st) c cs
               | _ \<Rightarrow> (Getopt_End, st))"

section \<open>The option loop\<close>

record cli_state =
  cli_config :: sg_config
  saw_attach :: bool
  saw_filter :: bool

text \<open>The body of the \<open>switch\<close>: \<open>Inl\<close> returns from \<open>sg_cli_parse\<close>, \<open>Inr\<close> continues the loop.\<close>

definition cli_option_step ::
    "cli_option \<Rightarrow> string option \<Rightarrow> cli_state \<Rightarrow> sg_cli_action \<times> cli_state + cli_state" where
  "cli_option_step opt optarg s =
     (let config = cli_config s;
          value = (case optarg of Some v \<Rightarrow> v | None \<Rightarrow> [])
      in if opt = OPT_CHAR (CHR ''p'') then
           (if saw_attach s then Inl (SG_CLI_ERROR Cli_Attach_Twice, s)
            else case parse_pid optarg of
                   None \<Rightarrow> Inl (SG_CLI_ERROR Cli_Invalid_Pid, s)
                 | Some pid \<Rightarrow>
                     Inr (s\<lparr>cli_config := config\<lparr>attach_pid := pid\<rparr>, saw_attach := True\<rparr>))
         else if opt = OPT_CHAR (CHR ''f'') then Inr (s\<lparr>cli_config := config\<lparr>follow := True\<rparr>\<rparr>)
         else if opt = OPT_CHAR (CHR ''e'') then
           (if saw_filter s then Inl (SG_CLI_ERROR Cli_Filter_Twice, s)
            else case sg_filter_parse (Some (cfg_filter config)) optarg of
                   (Inl e, _) \<Rightarrow> Inl (SG_CLI_ERROR (Cli_Filter e), s)
                 | (Inr _, f) \<Rightarrow>
                     Inr (s\<lparr>cli_config := config\<lparr>cfg_filter :=
                              (case f of Some g \<Rightarrow> g | None \<Rightarrow> cfg_filter config)\<rparr>,
                            saw_filter := True\<rparr>))
         else if opt = OPT_CHAR (CHR ''s'') then
           (case parse_size_limit optarg of
              None \<Rightarrow> Inl (SG_CLI_ERROR Cli_Invalid_Limit, s)
            | Some l \<Rightarrow> Inr (s\<lparr>cli_config := config\<lparr>string_limit := l\<rparr>\<rparr>))
         else if opt = OPT_CHAR (CHR ''o'') then
           (if value = [] then Inl (SG_CLI_ERROR Cli_Empty_Output, s)
            else Inr (s\<lparr>cli_config := config\<lparr>output_path := optarg\<rparr>\<rparr>))
         else if opt = OPT_CHAR (CHR ''c'') then Inr (s\<lparr>cli_config := config\<lparr>summary := True\<rparr>\<rparr>)
         else if opt = OPT_CHAR (CHR ''h'') then Inl (SG_CLI_HELP, s)
         else if opt = OPT_FORMAT then
           (case parse_format value of
              None \<Rightarrow> Inl (SG_CLI_ERROR Cli_Unknown_Format, s)
            | Some f \<Rightarrow> Inr (s\<lparr>cli_config := config\<lparr>cfg_format := f\<rparr>\<rparr>))
         else if opt = OPT_SECCOMP_BPF then Inr (s\<lparr>cli_config := config\<lparr>seccomp_bpf := True\<rparr>\<rparr>)
         else if opt = OPT_VERSION then Inl (SG_CLI_VERSION, s)
         else Inl (SG_CLI_ERROR Cli_Bad_Option, s))"

text \<open>Every option that is read moves \<open>optind\<close> forward or shortens the current cluster.\<close>

definition cluster_left :: "string list \<Rightarrow> getopt_state \<Rightarrow> nat" where
  "cluster_left argv g =
     (if nextchar g \<noteq> [] then Suc (length (nextchar g))
      else if optind g < length argv then Suc (length (argv ! optind g)) else 0)"

definition progress :: "string list \<Rightarrow> getopt_state \<Rightarrow> getopt_state \<Rightarrow> bool" where
  "progress argv g g' \<longleftrightarrow>
     length argv - optind g' < length argv - optind g \<or>
     (length argv - optind g' = length argv - optind g \<and> cluster_left argv g' < cluster_left argv g)"

lemma getopt_short_progress:
  assumes "getopt_short_option argv (optind g) c cs = (Getopt_Option v a, g')"
    and "nextchar g = c # cs \<or> nextchar g = [] \<and> optind g < length argv \<and>
           Suc (length cs) < length (argv ! optind g)"
  shows "progress argv g g'"
proof (cases "short_option c")
  case (Some needs)
  show ?thesis
    using assms Some
    by (cases needs; cases "cs = []")
      (auto simp: getopt_short_option_def progress_def cluster_left_def Let_def split: if_splits)
qed (use assms in \<open>simp add: getopt_short_option_def Let_def\<close>)

lemma getopt_long_option_progress:
  assumes "getopt_long_option argv (optind g) text = (Getopt_Option v a, g')"
    and "optind g < length argv"
  shows "progress argv g g'"
  using assms
  by (auto simp: getopt_long_option_def progress_def Let_def split: option.splits if_splits)

lemma getopt_long_progress:
  assumes "getopt_long argv g = (Getopt_Option v a, g')"
  shows "progress argv g g'"
proof (cases "nextchar g")
  case (Cons c cs)
  with assms show ?thesis by (intro getopt_short_progress) (auto simp: getopt_long_def)
next
  case Nil
  with assms obtain c cs where a: "optind g < length argv" "argv ! optind g = CHR ''-'' # c # cs"
      "(if c = CHR ''-'' then getopt_long_option argv (optind g) cs
        else getopt_short_option argv (optind g) c cs) = (Getopt_Option v a, g')"
    by (auto simp: getopt_long_def Let_def split: if_splits list.splits)
  then show ?thesis
    using Nil getopt_long_option_progress [of argv g cs] getopt_short_progress [of argv g c cs]
    by (auto split: if_splits)
qed

function option_loop ::
    "string list \<Rightarrow> getopt_state \<Rightarrow> cli_state \<Rightarrow> (sg_cli_action \<times> cli_state) + (getopt_state \<times> cli_state)" where
  "option_loop argv g s =
     (case getopt_long argv g of
        (Getopt_End, g') \<Rightarrow> Inr (g', s)
      | (Getopt_Bad optopt, g') \<Rightarrow> Inl (SG_CLI_ERROR Cli_Bad_Option, s)
      | (Getopt_Option opt optarg, g') \<Rightarrow>
          (case cli_option_step opt optarg s of
             Inl r \<Rightarrow> Inl r
           | Inr s' \<Rightarrow> option_loop argv g' s'))"
  by pat_completeness auto
termination
  by (relation "measures [\<lambda>(argv, g, s). length argv - optind g, \<lambda>(argv, g, s). cluster_left argv g]")
    (auto dest!: getopt_long_progress [OF sym] simp: progress_def)

declare option_loop.simps [simp del]

section \<open>Validation\<close>

definition validate_config ::
    "string list \<Rightarrow> nat \<Rightarrow> sg_config \<Rightarrow> bool \<Rightarrow> int \<Rightarrow> sg_cli_action \<times> sg_config" where
  "validate_config argv opti config attach separator =
     (let placed =
        (if attach
         then let config = config\<lparr>cfg_mode := SG_RUN_ATTACH\<rparr>
           in if separator \<ge> 0 then (Some Cli_Separator_With_Attach, config)
              else if opti \<noteq> length argv then (Some Cli_Command_With_Attach, config)
              else (None, config)
         else if separator < 0 \<or> separator \<noteq> int opti - 1 then (Some Cli_Separator_Required, config)
         else if opti \<ge> length argv then (Some Cli_No_Command, config)
         else (None, config\<lparr>command_argv := Some (drop opti argv)\<rparr>))
      in case placed of
           (Some e, config) \<Rightarrow> (SG_CLI_ERROR e, config)
         | (None, config) \<Rightarrow>
             if cfg_format config = SG_FORMAT_JSON \<and> \<not> summary config
             then (SG_CLI_ERROR Cli_Json_Needs_Summary, config)
             else if cfg_format config = SG_FORMAT_NDJSON \<and> summary config
             then (SG_CLI_ERROR Cli_Ndjson_With_Summary, config)
             else if seccomp_bpf config \<and> cfg_mode config = SG_RUN_ATTACH
             then (SG_CLI_ERROR Cli_Seccomp_Attach, config)
             else if seccomp_bpf config \<and>
                 (\<not> active (cfg_filter config) \<or> sg_filter_count (cfg_filter config) = 0)
             then (SG_CLI_ERROR Cli_Seccomp_Filter, config)
             else (SG_CLI_RUN, config))"

definition sg_cli_parse :: "string list \<Rightarrow> sg_cli_action \<times> sg_config" where
  "sg_cli_parse argv =
     (if argv = [] then (SG_CLI_ERROR Cli_Invalid_Arguments, config_init)
      else let s = \<lparr>cli_config = config_init, saw_attach = False, saw_filter = False\<rparr>
      in case option_loop argv \<lparr>optind = 1, nextchar = []\<rparr> s of
           Inl (action, s') \<Rightarrow> (action, cli_config s')
         | Inr (g, s') \<Rightarrow>
             validate_config argv (optind g) (cli_config s') (saw_attach s') (separator_index argv))"

section \<open>The number parsers\<close>

lemma dec_nat_digits:
  shows "\<forall>c \<in> set (dec_nat n). c_isdigit c" and "dec_nat n \<noteq> []" and "digits_value (dec_nat n) = n"
proof -
  have d: "(of_char (digit_char d) :: nat) = 48 + d" if "d \<in> set (digits_base 10 n)" for d
    using digits_base_bound [OF _ that] by (simp add: of_char_digit_char)
  then show "\<forall>c \<in> set (dec_nat n). c_isdigit c"
    using digits_base_bound [of 10] by (fastforce simp: dec_nat_def nat_format_def c_isdigit_def)
  show "dec_nat n \<noteq> []" by (simp add: dec_nat_def nat_format_def)
  have "map ((\<lambda>c. of_char c - 48) \<circ> digit_char) (digits_base 10 n) = digits_base 10 n"
    using d by (intro map_idI) simp
  then show "digits_value (dec_nat n) = n"
    by (simp add: digits_value_def dec_nat_def nat_format_def value_digits_base)
qed

lemma digit_not_special:
  "c_isdigit c \<Longrightarrow> \<not> c_isspace c \<and> c \<noteq> CHR ''-'' \<and> c \<noteq> CHR ''+''"
  by (auto simp: c_isdigit_def c_isspace_def)

lemma scan_dec_nat: "scan_decimal (dec_nat n) = (False, dec_nat n, [])"
proof -
  obtain c cs where c: "dec_nat n = c # cs" using dec_nat_digits(2) by (cases "dec_nat n") auto
  have "takeWhile c_isdigit (dec_nat n) = dec_nat n" using dec_nat_digits(1) by (rule takeWhile_id)
  moreover have "c_isdigit c" using dec_nat_digits(1) [of n] c by simp
  ultimately show ?thesis using digit_not_special [of c] by (simp add: scan_decimal_def Let_def c takeWhile_id)
qed

lemma parse_pid_dec:
  assumes "0 < n" and "n \<le> INT_MAX"
  shows "parse_pid (Some (dec_int n)) = Some n"
proof -
  obtain c cs where c: "dec_nat (nat n) = c # cs"
    using dec_nat_digits(2) by (cases "dec_nat (nat n)") auto
  have "strtol (dec_nat (nat n)) = (n, [], False)"
    using assms by (simp add: strtol_def scan_dec_nat dec_nat_digits(3) Let_def)
  then show ?thesis using assms c by (simp add: parse_pid_def dec_int_def)
qed

lemma parse_size_limit_dec:
  "parse_size_limit (Some (dec_nat n)) = (if n \<le> 1048576 then Some (of_nat n) else None)"
proof -
  obtain c cs where c: "dec_nat n = c # cs" using dec_nat_digits(2) by (cases "dec_nat n") auto
  have "c_isdigit c" using dec_nat_digits(1) [of n] c by simp
  then have dash: "c \<noteq> CHR ''-''" using digit_not_special by blast
  have st: "strtoumax (c # cs) = (if 2 ^ 64 \<le> n then (UINT64_MAX, [], True) else (of_nat n, [], False))"
    using scan_dec_nat [of n] dec_nat_digits(3) [of n] by (simp add: strtoumax_def c Let_def)
  have "(of_nat n :: u64) > SG_MAX_STRING_LIMIT \<longleftrightarrow> 1048576 < n" if "n < 2 ^ 64"
    using that unat_of_nat_u64 [of n] by (simp add: word_less_nat_alt SG_MAX_STRING_LIMIT_def)
  then show ?thesis using st dash by (auto simp: parse_size_limit_def c)
qed

lemma parse_pid_range: "parse_pid t = Some v \<Longrightarrow> 0 < v \<and> v \<le> INT_MAX"
  by (auto simp: parse_pid_def split: option.splits list.splits prod.splits if_splits)

lemma parse_size_limit_range: "parse_size_limit t = Some v \<Longrightarrow> v \<le> SG_MAX_STRING_LIMIT"
  by (auto simp: parse_size_limit_def split: option.splits list.splits prod.splits if_splits)

section \<open>What an accepted command line gives\<close>

lemma filter_parse_success:
  assumes "sg_filter_parse (Some f) spec = (Inr u, r)"
  shows "\<exists>g. r = Some g \<and> filter_wf g \<and> active g"
proof -
  obtain t where spec: "spec = Some t" using assms by (cases spec) (auto simp: sg_filter_parse_def)
  have t: "take 6 (c_str t) = ''trace=''" "drop 6 (c_str t) \<noteq> []"
    using assms spec by (auto simp: sg_filter_parse_def Let_def split: if_splits)
  then have "c_str t = ''trace='' @ drop 6 (c_str t)" by (metis append_take_drop_id)
  from filter_parse_denotes [OF this t(2), of f] assms spec show ?thesis
    by (auto split: sum.splits)
qed

text \<open>What holds of the configuration after every option.\<close>

definition cli_ok :: "cli_state \<Rightarrow> bool" where
  "cli_ok s \<longleftrightarrow>
     (let c = cli_config s
      in cfg_mode c = SG_RUN_LAUNCH \<and> command_argv c = None \<and> output_path c \<noteq> Some [] \<and>
         string_limit c \<le> SG_MAX_STRING_LIMIT \<and> filter_wf (cfg_filter c) \<and>
         active (cfg_filter c) = saw_filter s \<and>
         (saw_attach s \<longrightarrow> 0 < attach_pid c \<and> attach_pid c \<le> INT_MAX))"

lemma cli_ok_init: "cli_ok \<lparr>cli_config = config_init, saw_attach = False, saw_filter = False\<rparr>"
  by (simp add: cli_ok_def config_init_def sg_filter_clear_def filter_wf_def
      SG_DEFAULT_STRING_LIMIT_def SG_MAX_STRING_LIMIT_def)

lemma cli_option_step_ok:
  assumes "cli_option_step opt optarg s = Inr s'" and "cli_ok s"
  shows "cli_ok s'"
proof -
  consider (e) "opt = OPT_CHAR (CHR ''e'')" | (other) "opt \<noteq> OPT_CHAR (CHR ''e'')" by blast
  then show ?thesis
  proof cases
    case e
    with assms(1) obtain u r where r: "sg_filter_parse (Some (cfg_filter (cli_config s))) optarg = (Inr u, r)"
      and s': "s' = s\<lparr>cli_config := (cli_config s)\<lparr>cfg_filter :=
          (case r of Some g \<Rightarrow> g | None \<Rightarrow> cfg_filter (cli_config s))\<rparr>, saw_filter := True\<rparr>"
      by (auto simp: cli_option_step_def Let_def split: if_splits prod.splits sum.splits)
    from filter_parse_success [OF r] s' assms(2) show ?thesis by (auto simp: cli_ok_def Let_def)
  next
    case other
    with assms show ?thesis
      by (auto simp: cli_option_step_def cli_ok_def Let_def
          split: if_splits option.splits dest: parse_pid_range parse_size_limit_range)
  qed
qed

lemma option_loop_ok:
  "option_loop argv g s = Inr (g', s') \<Longrightarrow> cli_ok s \<Longrightarrow> cli_ok s'"
proof (induction argv g s rule: option_loop.induct)
  case (1 argv g s)
  show ?case
  proof (cases "getopt_long argv g")
    case (Pair ans g1)
    show ?thesis
    proof (cases ans)
      case (Getopt_Option opt optarg)
      with Pair "1.prems"(1) obtain s1 where s1: "cli_option_step opt optarg s = Inr s1"
          "option_loop argv g1 s1 = Inr (g', s')"
        by (subst (asm) option_loop.simps) (auto split: sum.splits)
      from "1.IH" [OF Pair [symmetric] Getopt_Option s1(1,2)] cli_option_step_ok [OF s1(1)] "1.prems"(2)
      show ?thesis by simp
    qed (use Pair "1.prems" in \<open>auto simp: option_loop.simps [of argv g s]\<close>)
  qed
qed

lemma separator_from_found:
  "separator_from as i = int n \<Longrightarrow> i \<le> n \<and> n - i < length as \<and> as ! (n - i) = ''--''"
proof (induction as i rule: separator_from.induct)
  case (2 a as i)
  consider (here) "a = ''--''" | (val) v as' where "a \<noteq> ''--''" "as = v # as'" "separate_value a"
      "separator_from as' (i + 2) = int n"
    | (flag) "a \<noteq> ''--''" "\<not> separate_value a" "separator_from as (i + 1) = int n"
    using "2.prems" by (cases as) (auto split: if_splits)
  then show ?case
  proof cases
    case here
    then show ?thesis using "2.prems" by simp
  next
    case val
    have "i + 2 \<le> n \<and> n - (i + 2) < length as' \<and> as' ! (n - (i + 2)) = ''--''"
      using "2.IH"(1) [OF val(1) _ val(3,2,4)] "2.prems" val(1) by (auto split: if_splits)
    moreover from this have "n - i = Suc (Suc (n - (i + 2)))" by linarith
    ultimately show ?thesis using val(2) by simp
  next
    case flag
    have "i + 1 \<le> n \<and> n - (i + 1) < length as \<and> as ! (n - (i + 1)) = ''--''"
      using "2.IH"(2) [OF flag(1) _ flag(2,3)] "2.prems" flag(1) by (auto split: if_splits)
    moreover from this have "n - i = Suc (n - (i + 1))" by linarith
    ultimately show ?thesis by simp
  qed
qed simp

text \<open>The configurations the program runs with.\<close>

definition config_valid :: "string list \<Rightarrow> sg_config \<Rightarrow> bool" where
  "config_valid argv c \<longleftrightarrow>
     output_path c \<noteq> Some [] \<and> string_limit c \<le> SG_MAX_STRING_LIMIT \<and> filter_wf (cfg_filter c) \<and>
     (case cfg_mode c of
        SG_RUN_LAUNCH \<Rightarrow>
          (\<exists>n. argv ! n = ''--'' \<and> Suc n < length argv \<and> command_argv c = Some (drop (Suc n) argv))
      | SG_RUN_ATTACH \<Rightarrow> command_argv c = None \<and> 0 < attach_pid c \<and> attach_pid c \<le> INT_MAX) \<and>
     (cfg_format c = SG_FORMAT_JSON \<longrightarrow> summary c) \<and>
     (cfg_format c = SG_FORMAT_NDJSON \<longrightarrow> \<not> summary c) \<and>
     (seccomp_bpf c \<longrightarrow> cfg_mode c = SG_RUN_LAUNCH \<and> active (cfg_filter c) \<and> filter_set (cfg_filter c) \<noteq> {})"

lemma separator_index_found:
  assumes "separator_index argv = int n"
  shows "argv ! n = ''--'' \<and> n < length argv"
proof -
  have "1 \<le> n \<and> n - 1 < length (drop 1 argv) \<and> drop 1 argv ! (n - 1) = ''--''"
    using separator_from_found assms unfolding separator_index_def by blast
  then show ?thesis by (cases argv) (auto simp: nth_Cons')
qed

lemma validate_config_valid:
  assumes run: "validate_config argv opti (cli_config s) (saw_attach s) (separator_index argv) = (SG_CLI_RUN, c)"
    and ok: "cli_ok s"
  shows "config_valid argv c"
proof -
  let ?d = "cli_config s"
  have place: "if saw_attach s then c = ?d\<lparr>cfg_mode := SG_RUN_ATTACH\<rparr>
      else separator_index argv = int opti - 1 \<and> 0 \<le> separator_index argv \<and> opti < length argv \<and>
        c = ?d\<lparr>command_argv := Some (drop opti argv)\<rparr>"
    using run by (auto simp: validate_config_def Let_def split: if_splits)
  have checks: "(cfg_format c = SG_FORMAT_JSON \<longrightarrow> summary c) \<and>
      (cfg_format c = SG_FORMAT_NDJSON \<longrightarrow> \<not> summary c) \<and>
      (seccomp_bpf c \<longrightarrow> cfg_mode c \<noteq> SG_RUN_ATTACH \<and> active (cfg_filter c) \<and>
        sg_filter_count (cfg_filter c) \<noteq> 0)"
    using run by (auto simp: validate_config_def Let_def split: if_splits)
  have wf: "filter_wf (cfg_filter c)" "cfg_filter c = cfg_filter ?d"
    using place ok by (auto simp: cli_ok_def Let_def split: if_splits)
  have "filter_set (cfg_filter c) \<noteq> {}" if "sg_filter_count (cfg_filter c) \<noteq> 0"
    using that flt.size_of_card [OF wf(1)] by (metis card.empty filter_set_def)
  moreover have "cfg_mode c = SG_RUN_LAUNCH" if "cfg_mode c \<noteq> SG_RUN_ATTACH"
    using that by (cases "cfg_mode c") auto
  moreover have "\<exists>n. argv ! n = ''--'' \<and> Suc n < length argv \<and> command_argv c = Some (drop (Suc n) argv)"
    if launch: "\<not> saw_attach s"
  proof -
    have "separator_index argv = int (opti - 1)" "0 < opti" using place launch by auto
    then have "argv ! (opti - 1) = ''--''" using separator_index_found by blast
    then show ?thesis using place launch \<open>0 < opti\<close> by (intro exI [of _ "opti - 1"]) auto
  qed
  ultimately show ?thesis
    using checks place ok wf by (cases "saw_attach s") (auto simp: config_valid_def cli_ok_def Let_def)
qed

lemma cli_parse_valid:
  assumes "sg_cli_parse argv = (SG_CLI_RUN, c)"
  shows "config_valid argv c"
proof -
  have "action \<noteq> SG_CLI_RUN" if "option_loop argv g s = Inl (action, s')" for g s action s'
    using that
  proof (induction argv g s rule: option_loop.induct)
    case (1 argv g s)
    obtain ans g1 where a: "getopt_long argv g = (ans, g1)" by (cases "getopt_long argv g")
    have stop: "act \<noteq> SG_CLI_RUN" if "cli_option_step opt optarg s = Inl (act, s'')" for opt optarg act s''
      using that by (auto simp: cli_option_step_def Let_def split: if_splits option.splits prod.splits sum.splits)
    show ?case
    proof (cases ans)
      case (Getopt_Option opt optarg)
      show ?thesis
      proof (cases "cli_option_step opt optarg s")
        case (Inl r)
        then show ?thesis using stop "1.prems" a Getopt_Option
          by (auto simp: option_loop.simps [of argv g s])
      next
        case (Inr s1)
        with a Getopt_Option "1.prems" have "option_loop argv g1 s1 = Inl (action, s')"
          by (simp add: option_loop.simps [of argv g s])
        with "1.IH" [OF a [symmetric] Getopt_Option Inr] show ?thesis by blast
      qed
    qed (use a "1.prems" in \<open>auto simp: option_loop.simps [of argv g s]\<close>)
  qed
  with assms obtain g s where "option_loop argv \<lparr>optind = 1, nextchar = []\<rparr>
      \<lparr>cli_config = config_init, saw_attach = False, saw_filter = False\<rparr> = Inr (g, s)"
      "validate_config argv (optind g) (cli_config s) (saw_attach s) (separator_index argv) = (SG_CLI_RUN, c)"
    by (auto simp: sg_cli_parse_def Let_def split: sum.splits if_splits)
  then show ?thesis using validate_config_valid option_loop_ok cli_ok_init by blast
qed

section \<open>Writing a configuration as a command line\<close>

text \<open>
  \<open>option_words s ws s'\<close>: wherever the words \<open>ws\<close> stand on the command line, the option loop
  reads them as options that take the state \<open>s\<close> to \<open>s'\<close>, and the separator search passes them.
\<close>

definition at_word :: "nat \<Rightarrow> getopt_state" where
  "at_word i = \<lparr>optind = i, nextchar = []\<rparr>"

definition option_words :: "cli_state \<Rightarrow> string list \<Rightarrow> cli_state \<Rightarrow> bool" where
  "option_words s ws s' \<longleftrightarrow>
     (\<forall>pre rest. option_loop (pre @ ws @ rest) (at_word (length pre)) s =
                 option_loop (pre @ ws @ rest) (at_word (length pre + length ws)) s') \<and>
     (\<forall>rest i. separator_from (ws @ rest) i = separator_from rest (i + length ws))"

lemma option_words_Nil: "option_words s [] s"
  by (simp add: option_words_def)

lemma option_words_append:
  assumes "option_words s ws s'" and "option_words s' vs s''"
  shows "option_words s (ws @ vs) s''"
proof -
  have "option_loop (pre @ (ws @ vs) @ rest) (at_word (length pre)) s =
      option_loop (pre @ (ws @ vs) @ rest) (at_word (length pre + length (ws @ vs))) s''" for pre rest
  proof -
    have "option_loop (pre @ ws @ (vs @ rest)) (at_word (length pre)) s =
        option_loop (pre @ ws @ (vs @ rest)) (at_word (length pre + length ws)) s'"
      using assms(1) by (simp add: option_words_def)
    moreover have "option_loop ((pre @ ws) @ vs @ rest) (at_word (length (pre @ ws))) s' =
        option_loop ((pre @ ws) @ vs @ rest) (at_word (length (pre @ ws) + length vs)) s''"
      using assms(2) by (simp only: option_words_def)
    ultimately show ?thesis by (simp add: add.assoc)
  qed
  moreover have "separator_from ((ws @ vs) @ rest) i = separator_from rest (i + length (ws @ vs))" for rest i
    using assms by (simp add: option_words_def add.assoc)
  ultimately show ?thesis unfolding option_words_def by blast
qed

text \<open>A short option on its own, and one with its value in the next word.\<close>

lemma option_words_flag:
  assumes "short_option c = Some False" and "cli_option_step (OPT_CHAR c) None s = Inr s'"
  shows "option_words s [[CHR ''-'', c]] s'"
proof -
  have c: "c \<noteq> CHR ''-''" using assms(1) by (auto simp: short_option_def split: if_splits)
  have "getopt_long (pre @ [[CHR ''-'', c]] @ rest) (at_word (length pre)) =
      (Getopt_Option (OPT_CHAR c) None, at_word (length pre + 1))" for pre rest
    using assms(1) c
    by (simp add: getopt_long_def at_word_def nth_append getopt_short_option_def Let_def)
  moreover have "\<not> separate_value [CHR ''-'', c]"
    using assms(1) by (auto simp: separate_value_def short_option_def split: if_splits)
  ultimately show ?thesis
    using assms(2) c unfolding option_words_def by (simp add: option_loop.simps [of _ "at_word _" s])
qed

lemma option_words_value:
  assumes "c \<in> set ''peso''" and "cli_option_step (OPT_CHAR c) (Some v) s = Inr s'"
  shows "option_words s [[CHR ''-'', c], v] s'"
proof -
  have c: "c \<noteq> CHR ''-''" "short_option c = Some True"
    using assms(1) by (auto simp: short_option_def)
  have "getopt_long (pre @ [[CHR ''-'', c], v] @ rest) (at_word (length pre)) =
      (Getopt_Option (OPT_CHAR c) (Some v), at_word (length pre + 2))" for pre rest
    using c by (simp add: getopt_long_def at_word_def nth_append getopt_short_option_def Let_def)
  moreover have "separate_value [CHR ''-'', c]"
    using assms(1) by (auto simp: separate_value_def)
  ultimately show ?thesis
    using assms(2) c unfolding option_words_def by (simp add: option_loop.simps [of _ "at_word _" s])
qed

text \<open>A long option in one word, with an attached value when it has one.\<close>

lemma option_words_long:
  assumes "find_long (takeWhile (\<lambda>c. c \<noteq> CHR ''='') w) = Some (n, has_arg, v)"
    and "dropWhile (\<lambda>c. c \<noteq> CHR ''='') w = (if has_arg then CHR ''='' # arg else [])"
    and "w \<noteq> []" and "w \<noteq> ''format''"
    and "cli_option_step v (if has_arg then Some arg else None) s = Inr s'"
  shows "option_words s [''--'' @ w] s'"
proof -
  have "getopt_long (pre @ [''--'' @ w] @ rest) (at_word (length pre)) =
      (Getopt_Option v (if has_arg then Some arg else None), at_word (length pre + 1))" for pre rest
    using assms(1-3)
    by (auto simp: getopt_long_def at_word_def nth_append getopt_long_option_def Let_def)
  moreover have "\<not> separate_value (''--'' @ w)" using assms(4) by (simp add: separate_value_def)
  ultimately show ?thesis
    using assms(3,5) unfolding option_words_def by (simp add: option_loop.simps [of _ "at_word _" s])
qed

definition format_word :: "sg_output_format \<Rightarrow> string" where
  "format_word f = (case f of SG_FORMAT_TEXT \<Rightarrow> ''--format=text''
     | SG_FORMAT_NDJSON \<Rightarrow> ''--format=ndjson'' | SG_FORMAT_JSON \<Rightarrow> ''--format=json'')"

text \<open>A configuration as options, with the filter given by its expression.\<close>

definition render_options :: "sg_config \<Rightarrow> string option \<Rightarrow> string list" where
  "render_options c spec =
     (if follow c then [''-f''] else []) @
     (case spec of None \<Rightarrow> [] | Some e \<Rightarrow> [''-e'', e]) @
     [''-s'', dec_nat (unat (string_limit c))] @
     (case output_path c of None \<Rightarrow> [] | Some path \<Rightarrow> [''-o'', path]) @
     (if summary c then [''-c''] else []) @
     [format_word (cfg_format c)] @
     (if seccomp_bpf c then [''--seccomp-bpf''] else [])"

definition render_command_line :: "string \<Rightarrow> sg_config \<Rightarrow> string option \<Rightarrow> string list" where
  "render_command_line prog c spec =
     prog # render_options c spec @
       (case cfg_mode c of
          SG_RUN_ATTACH \<Rightarrow> [''-p'', dec_int (attach_pid c)]
        | SG_RUN_LAUNCH \<Rightarrow> ''--'' # (case command_argv c of Some cmd \<Rightarrow> cmd | None \<Rightarrow> []))"

text \<open>The filter of the configuration is what the expression parses to; without one it is empty.\<close>

definition filter_from :: "sg_config \<Rightarrow> string option \<Rightarrow> bool" where
  "filter_from c spec \<longleftrightarrow>
     (case spec of
        None \<Rightarrow> cfg_filter c = cfg_filter config_init
      | Some e \<Rightarrow> sg_filter_parse (Some (cfg_filter config_init)) (Some e) = (Inr (), Some (cfg_filter c)))"

lemma find_long_names:
  "find_long ''format'' = Some (''format'', True, OPT_FORMAT)"
  "find_long ''seccomp-bpf'' = Some (''seccomp-bpf'', False, OPT_SECCOMP_BPF)"
  by (simp_all add: find_long_def long_options_def)

lemma words_if:
  "(b \<Longrightarrow> option_words s ws s') \<Longrightarrow> option_words s (if b then ws else []) (if b then s' else s)"
  by (simp add: option_words_Nil)

lemma render_options_words:
  fixes c spec
  assumes limit: "string_limit c \<le> SG_MAX_STRING_LIMIT" and path: "output_path c \<noteq> Some []"
    and flt: "filter_from c spec"
  defines "final \<equiv> \<lparr>cli_config = c\<lparr>cfg_mode := SG_RUN_LAUNCH, attach_pid := 0, command_argv := None\<rparr>,
      saw_attach = False, saw_filter = (spec \<noteq> None)\<rparr>"
  shows "option_words \<lparr>cli_config = config_init, saw_attach = False, saw_filter = False\<rparr>
    (render_options c spec) final"
proof -
  let ?st = "\<lambda>d sf. \<lparr>cli_config = d, saw_attach = False, saw_filter = sf\<rparr>"
  define c1 where "c1 = config_init\<lparr>follow := follow c\<rparr>"
  define c2 where "c2 = c1\<lparr>cfg_filter := cfg_filter c\<rparr>"
  define c3 where "c3 = c2\<lparr>string_limit := string_limit c\<rparr>"
  define c4 where "c4 = c3\<lparr>output_path := output_path c\<rparr>"
  define c5 where "c5 = c4\<lparr>summary := summary c\<rparr>"
  define c6 where "c6 = c5\<lparr>cfg_format := cfg_format c\<rparr>"
  define c7 where "c7 = c6\<lparr>seccomp_bpf := seccomp_bpf c\<rparr>"
  note ds = c1_def c2_def c3_def c4_def c5_def c6_def c7_def config_init_def
  have w1: "option_words (?st config_init False) (if follow c then [''-f''] else []) (?st c1 False)"
    using words_if [of "follow c" "?st config_init False" "[''-f'']" "?st c1 False"]
      option_words_flag [of "CHR ''f''" "?st config_init False" "?st c1 False"]
    by (cases "follow c")
      (auto simp: c1_def config_init_def short_option_def cli_option_step_def Let_def option_words_Nil)
  have w2: "option_words (?st c1 False) (case spec of None \<Rightarrow> [] | Some e \<Rightarrow> [''-e'', e])
      (?st c2 (spec \<noteq> None))"
  proof (cases spec)
    case None
    then show ?thesis using flt by (simp add: filter_from_def c2_def c1_def config_init_def option_words_Nil)
  next
    case (Some e)
    have "cli_option_step (OPT_CHAR (CHR ''e'')) (Some e) (?st c1 False) = Inr (?st c2 True)"
      using flt Some
      by (simp add: filter_from_def cli_option_step_def Let_def c2_def c1_def)
    with Some option_words_value [of "CHR ''e''" e "?st c1 False" "?st c2 True"] show ?thesis by simp
  qed
  let ?sf = "spec \<noteq> None"
  have "unat (string_limit c) \<le> 1048576"
    using limit by (simp add: word_le_nat_alt SG_MAX_STRING_LIMIT_def)
  then have "parse_size_limit (Some (dec_nat (unat (string_limit c)))) = Some (string_limit c)"
    by (simp add: parse_size_limit_dec)
  then have w3: "option_words (?st c2 ?sf) [''-s'', dec_nat (unat (string_limit c))] (?st c3 ?sf)"
    by (intro option_words_value) (simp_all add: cli_option_step_def Let_def c3_def)
  have w4: "option_words (?st c3 ?sf) (case output_path c of None \<Rightarrow> [] | Some path \<Rightarrow> [''-o'', path])
      (?st c4 ?sf)"
  proof (cases "output_path c")
    case None
    then show ?thesis by (simp add: c4_def c3_def c2_def c1_def config_init_def option_words_Nil)
  next
    case (Some p)
    then have "option_words (?st c3 ?sf) [''-o'', p] (?st c4 ?sf)"
      using path by (intro option_words_value) (simp_all add: cli_option_step_def Let_def c4_def)
    with Some show ?thesis by simp
  qed
  have w5: "option_words (?st c4 ?sf) (if summary c then [''-c''] else []) (?st c5 ?sf)"
    using option_words_flag [of "CHR ''c''" "?st c4 ?sf" "?st c5 ?sf"]
    by (cases "summary c") (auto simp: ds short_option_def cli_option_step_def Let_def option_words_Nil)
  have w6: "option_words (?st c5 ?sf) [format_word (cfg_format c)] (?st c6 ?sf)"
  proof -
    define name where "name = (case cfg_format c of SG_FORMAT_TEXT \<Rightarrow> ''text''
        | SG_FORMAT_NDJSON \<Rightarrow> ''ndjson'' | SG_FORMAT_JSON \<Rightarrow> ''json'')"
    have "format_word (cfg_format c) = ''--'' @ (''format='' @ name)"
      by (simp add: format_word_def name_def split: sg_output_format.split)
    moreover have "parse_format name = Some (cfg_format c)"
      by (simp add: parse_format_def name_def split: sg_output_format.split)
    then have "option_words (?st c5 ?sf) [''--'' @ (''format='' @ name)] (?st c6 ?sf)"
      by (intro option_words_long [where arg = name and has_arg = True and v = OPT_FORMAT and n = "''format''"])
        (simp_all add: find_long_names cli_option_step_def Let_def c6_def)
    ultimately show ?thesis by simp
  qed
  have w7: "option_words (?st c6 ?sf) (if seccomp_bpf c then [''--seccomp-bpf''] else []) (?st c7 ?sf)"
  proof (cases "seccomp_bpf c")
    case False
    then show ?thesis by (simp add: ds option_words_Nil)
  next
    case True
    then have "option_words (?st c6 ?sf) [''--'' @ ''seccomp-bpf''] (?st c7 ?sf)"
      by (intro option_words_long [where has_arg = False and v = OPT_SECCOMP_BPF and n = "''seccomp-bpf''"])
        (simp_all add: find_long_names cli_option_step_def Let_def c7_def)
    with True show ?thesis by simp
  qed
  have "c7 = c\<lparr>cfg_mode := SG_RUN_LAUNCH, attach_pid := 0, command_argv := None\<rparr>"
    by (simp add: ds)
  then have "?st c7 ?sf = final" by (simp add: final_def)
  with option_words_append [OF w1 option_words_append [OF w2 option_words_append [OF w3
        option_words_append [OF w4 option_words_append [OF w5 option_words_append [OF w6 w7]]]]]]
  show ?thesis by (simp add: render_options_def)
qed

lemma option_loop_end:
  assumes "getopt_long argv g = (Getopt_End, g')"
  shows "option_loop argv g s = Inr (g', s)"
  using assms by (simp add: option_loop.simps [of argv g s])

lemma render_roundtrip:
  assumes valid: "string_limit c \<le> SG_MAX_STRING_LIMIT" "output_path c \<noteq> Some []" "filter_from c spec"
    and mode: "case cfg_mode c of
        SG_RUN_LAUNCH \<Rightarrow> attach_pid c = 0 \<and> (\<exists>cmd. cmd \<noteq> [] \<and> command_argv c = Some cmd)
      | SG_RUN_ATTACH \<Rightarrow> 0 < attach_pid c \<and> attach_pid c \<le> INT_MAX \<and> command_argv c = None"
    and format: "cfg_format c = SG_FORMAT_JSON \<Longrightarrow> summary c" "cfg_format c = SG_FORMAT_NDJSON \<Longrightarrow> \<not> summary c"
    and seccomp: "seccomp_bpf c \<Longrightarrow> cfg_mode c = SG_RUN_LAUNCH \<and> active (cfg_filter c) \<and>
        sg_filter_count (cfg_filter c) \<noteq> 0"
  shows "sg_cli_parse (render_command_line prog c spec) = (SG_CLI_RUN, c)"
proof -
  let ?init = "\<lparr>cli_config = config_init, saw_attach = False, saw_filter = False\<rparr>"
  let ?ws = "render_options c spec"
  let ?d = "c\<lparr>cfg_mode := SG_RUN_LAUNCH, attach_pid := 0, command_argv := None\<rparr>"
  let ?s = "\<lparr>cli_config = ?d, saw_attach = False, saw_filter = (spec \<noteq> None)\<rparr>"
  note words = render_options_words [OF valid]
  show ?thesis
  proof (cases "cfg_mode c")
    case SG_RUN_LAUNCH
    with mode obtain cmd where cmd: "cmd \<noteq> []" "command_argv c = Some cmd" "attach_pid c = 0" by auto
    let ?argv = "prog # ?ws @ ''--'' # cmd"
    have argv: "render_command_line prog c spec = ?argv"
      using SG_RUN_LAUNCH cmd(2) by (simp add: render_command_line_def)
    have "option_loop ([prog] @ ?ws @ ''--'' # cmd) (at_word (length [prog])) ?init =
        option_loop ([prog] @ ?ws @ ''--'' # cmd) (at_word (length [prog] + length ?ws)) ?s"
      using words by (simp only: option_words_def)
    moreover have "getopt_long ?argv (at_word (Suc (length ?ws))) =
        (Getopt_End, at_word (Suc (Suc (length ?ws))))"
      by (simp add: getopt_long_def at_word_def nth_append)
    ultimately have loop: "option_loop ?argv \<lparr>optind = 1, nextchar = []\<rparr> ?init =
        Inr (at_word (Suc (Suc (length ?ws))), ?s)"
      using option_loop_end by (simp add: at_word_def)
    have sep: "separator_index ?argv = int (Suc (length ?ws))"
      using words by (simp add: separator_index_def option_words_def)
    have "?d\<lparr>command_argv := Some cmd\<rparr> = c" using SG_RUN_LAUNCH cmd(2,3) by (cases c) simp
    then have "validate_config ?argv (Suc (Suc (length ?ws))) ?d False (separator_index ?argv) = (SG_CLI_RUN, c)"
      using cmd(1) format seccomp SG_RUN_LAUNCH unfolding sep
      by (auto simp: validate_config_def Let_def)
    with loop show ?thesis unfolding argv by (simp add: sg_cli_parse_def Let_def at_word_def)
  next
    case SG_RUN_ATTACH
    with mode have pid: "0 < attach_pid c" "attach_pid c \<le> INT_MAX" "command_argv c = None" by auto
    let ?p = "[''-p'', dec_int (attach_pid c)]"
    let ?argv = "prog # ?ws @ ?p"
    let ?t = "\<lparr>cli_config = ?d\<lparr>attach_pid := attach_pid c\<rparr>, saw_attach = True, saw_filter = (spec \<noteq> None)\<rparr>"
    have argv: "render_command_line prog c spec = ?argv"
      using SG_RUN_ATTACH by (simp add: render_command_line_def)
    have "option_words ?s ?p ?t"
      using parse_pid_dec [OF pid(1,2)]
      by (intro option_words_value) (simp_all add: cli_option_step_def Let_def)
    then have all: "option_words ?init (?ws @ ?p) ?t" using words by (rule option_words_append [rotated])
    then have "option_loop ([prog] @ (?ws @ ?p) @ []) (at_word (length [prog])) ?init =
        option_loop ([prog] @ (?ws @ ?p) @ []) (at_word (length [prog] + length (?ws @ ?p))) ?t"
      unfolding option_words_def by blast
    moreover have "getopt_long ?argv (at_word (length ?argv)) = (Getopt_End, at_word (length ?argv))"
      by (simp add: getopt_long_def at_word_def)
    ultimately have loop: "option_loop ?argv \<lparr>optind = 1, nextchar = []\<rparr> ?init =
        Inr (at_word (length ?argv), ?t)"
      using option_loop_end by (simp add: at_word_def)
    have "separator_from ((?ws @ ?p) @ []) 1 = separator_from [] (1 + length (?ws @ ?p))"
      using all unfolding option_words_def by blast
    then have sep: "separator_index ?argv = - 1" by (simp add: separator_index_def)
    have "?d\<lparr>attach_pid := attach_pid c, cfg_mode := SG_RUN_ATTACH\<rparr> = c"
      using SG_RUN_ATTACH pid(3) by (cases c) simp
    then have "validate_config ?argv (length ?argv) (?d\<lparr>attach_pid := attach_pid c\<rparr>) True
        (separator_index ?argv) = (SG_CLI_RUN, c)"
      using format seccomp SG_RUN_ATTACH unfolding sep by (auto simp: validate_config_def Let_def)
    with loop show ?thesis unfolding argv by (simp add: sg_cli_parse_def Let_def at_word_def)
  qed
qed

section \<open>Properties\<close>

text \<open>
  C31. Whenever the command line is accepted, the configuration is one the tracer can run with: in
  launch mode the command is the non-empty rest after a \<open>--\<close> of the command line, in attach mode
  there is a positive process id and no command; the string limit is at most 2^20, the filter has
  its eight words, an output path is not empty, \<open>json\<close> comes with and \<open>ndjson\<close> without \<open>-c\<close>,
  and \<open>--seccomp-bpf\<close> only with launch mode and a filter that selects something.
\<close>

theorem cli_run_valid:
  assumes "sg_cli_parse argv = (SG_CLI_RUN, c)"
  shows "config_valid argv c"
  using assms by (rule cli_parse_valid)

lemma demo_command_line:
  "sg_cli_parse [''sysgaze'', ''-f'', ''--'', ''ls'', ''-l''] =
     (SG_CLI_RUN, config_init\<lparr>follow := True, command_argv := Some [''ls'', ''-l'']\<rparr>)"
  by (simp add: sg_cli_parse_def option_loop.simps getopt_long_def getopt_short_option_def
      short_option_def cli_option_step_def validate_config_def separator_index_def
      separate_value_def config_init_def)

theorem cli_run_valid_witness:
  "config_valid [''sysgaze'', ''-f'', ''--'', ''ls'', ''-l'']
     (config_init\<lparr>follow := True, command_argv := Some [''ls'', ''-l'']\<rparr>)"
  by (rule cli_run_valid [OF demo_command_line])

text \<open>
  C32. Every runnable configuration can be written as a command line, and reading that command line
  gives the configuration back: every option is understood wherever its words stand, whatever the
  values of \<open>-o\<close> and \<open>-e\<close> look like, and the separator search skips exactly the words that
  \<open>getopt_long\<close> consumes.
\<close>

theorem cli_roundtrip:
  assumes "string_limit c \<le> SG_MAX_STRING_LIMIT" and "output_path c \<noteq> Some []" and "filter_from c spec"
    and "case cfg_mode c of
        SG_RUN_LAUNCH \<Rightarrow> attach_pid c = 0 \<and> (\<exists>cmd. cmd \<noteq> [] \<and> command_argv c = Some cmd)
      | SG_RUN_ATTACH \<Rightarrow> 0 < attach_pid c \<and> attach_pid c \<le> INT_MAX \<and> command_argv c = None"
    and "cfg_format c = SG_FORMAT_JSON \<Longrightarrow> summary c" and "cfg_format c = SG_FORMAT_NDJSON \<Longrightarrow> \<not> summary c"
    and "seccomp_bpf c \<Longrightarrow> cfg_mode c = SG_RUN_LAUNCH \<and> active (cfg_filter c) \<and>
        sg_filter_count (cfg_filter c) \<noteq> 0"
  shows "sg_cli_parse (render_command_line prog c spec) = (SG_CLI_RUN, c)"
  by (rule render_roundtrip [OF assms])

theorem cli_roundtrip_witness:
  "sg_cli_parse (render_command_line ''sysgaze''
       (config_init\<lparr>cfg_mode := SG_RUN_ATTACH, attach_pid := 42, output_path := Some ''--''\<rparr>) None) =
     (SG_CLI_RUN, config_init\<lparr>cfg_mode := SG_RUN_ATTACH, attach_pid := 42, output_path := Some ''--''\<rparr>)"
  by (rule cli_roundtrip)
    (simp_all add: config_init_def filter_from_def SG_DEFAULT_STRING_LIMIT_def SG_MAX_STRING_LIMIT_def)




text \<open>
  The refusal of a minus sign in a string limit looks at the first character only: behind a
  blank, \<open>-18446744073709551615\<close> is negated modulo 2^64 and accepted as the limit 1.
\<close>

theorem size_limit_accepts_hidden_minus:
  "parse_size_limit (Some ''-18446744073709551615'') = None \<and>
   parse_size_limit (Some '' -18446744073709551615'') = Some 1"
  by (simp add: parse_size_limit_def strtoumax_def scan_decimal_def digits_value_def value_base_def
      c_isspace_def c_isdigit_def SG_MAX_STRING_LIMIT_def)

end
