(* ===== verification/Decoder.thy ===== *)
theory Decoder
  imports Buffer Catalog Events
begin

text \<open>
  The decoder, \<open>src/decoder.c\<close>: system call arguments and results as text. Every function that
  appends to the output buffer is an emitter of \<open>Buffer\<close>, so that short-circuit evaluation,
  failing allocations and the bounds of the output are those of the code.

  The memory of the tracee is a parameter of the decoder, as in the code: a function pointer that
  returns the bytes it could read (\<open>reader_ok\<close> is its contract: never more than asked for). The
  names that come from the C library (signals, errors, printed addresses) are a record \<open>libc\<close>.
  Flag and command numbers are those of x86-64 Linux.
\<close>

section \<open>The decoder and its environment\<close>

record sg_decoder =
  dec_string_limit :: u64
  memory_read :: "(int \<Rightarrow> u64 \<Rightarrow> nat \<Rightarrow> char list option) option"

record libc =
  sigabbrev_np :: "int \<Rightarrow> string option"
  strerrorname_np :: "int \<Rightarrow> string option"
  strerror :: "int \<Rightarrow> string"
  inet_ntop4 :: "char list \<Rightarrow> string option"
  inet_ntop6 :: "char list \<Rightarrow> string option"

type_synonym flag_name = "u64 \<times> string"

definition open_flag_names :: "flag_name list" where
  "open_flag_names =
     [(0x40, ''O_CREAT''), (0x80, ''O_EXCL''), (0x100, ''O_NOCTTY''), (0x200, ''O_TRUNC''),
      (0x400, ''O_APPEND''), (0x800, ''O_NONBLOCK''), (0x101000, ''O_SYNC''), (0x1000, ''O_DSYNC''),
      (0x4000, ''O_DIRECT''), (0, ''O_LARGEFILE''), (0x410000, ''O_TMPFILE''),
      (0x10000, ''O_DIRECTORY''), (0x20000, ''O_NOFOLLOW''), (0x80000, ''O_CLOEXEC''),
      (0x200000, ''O_PATH'')]"

definition prot_flag_names :: "flag_name list" where
  "prot_flag_names =
     [(1, ''PROT_READ''), (2, ''PROT_WRITE''), (4, ''PROT_EXEC''), (0x1000000, ''PROT_GROWSDOWN''),
      (0x2000000, ''PROT_GROWSUP'')]"

definition map_flag_names :: "flag_name list" where
  "map_flag_names =
     [(3, ''MAP_SHARED_VALIDATE''), (1, ''MAP_SHARED''), (2, ''MAP_PRIVATE''), (0x10, ''MAP_FIXED''),
      (0x20, ''MAP_ANONYMOUS''), (0x100, ''MAP_GROWSDOWN''), (0x800, ''MAP_DENYWRITE''),
      (0x1000, ''MAP_EXECUTABLE''), (0x2000, ''MAP_LOCKED''), (0x4000, ''MAP_NORESERVE''),
      (0x8000, ''MAP_POPULATE''), (0x10000, ''MAP_NONBLOCK''), (0x20000, ''MAP_STACK''),
      (0x40000, ''MAP_HUGETLB''), (0x80000, ''MAP_SYNC''), (0x100000, ''MAP_FIXED_NOREPLACE'')]"

definition clone_flag_names :: "flag_name list" where
  "clone_flag_names =
     [(0x100, ''CLONE_VM''), (0x200, ''CLONE_FS''), (0x400, ''CLONE_FILES''),
      (0x800, ''CLONE_SIGHAND''), (0x1000, ''CLONE_PIDFD''), (0x2000, ''CLONE_PTRACE''),
      (0x4000, ''CLONE_VFORK''), (0x8000, ''CLONE_PARENT''), (0x10000, ''CLONE_THREAD''),
      (0x20000, ''CLONE_NEWNS''), (0x40000, ''CLONE_SYSVSEM''), (0x80000, ''CLONE_SETTLS''),
      (0x100000, ''CLONE_PARENT_SETTID''), (0x200000, ''CLONE_CHILD_CLEARTID''),
      (0x400000, ''CLONE_DETACHED''), (0x800000, ''CLONE_UNTRACED''),
      (0x1000000, ''CLONE_CHILD_SETTID''), (0x2000000, ''CLONE_NEWCGROUP''),
      (0x4000000, ''CLONE_NEWUTS''), (0x8000000, ''CLONE_NEWIPC''), (0x10000000, ''CLONE_NEWUSER''),
      (0x20000000, ''CLONE_NEWPID''), (0x40000000, ''CLONE_NEWNET''), (0x80000000, ''CLONE_IO'')]"

definition O_CREAT :: u64 where "O_CREAT = 0x40"
definition O_TMPFILE :: u64 where "O_TMPFILE = 0x410000"
definition O_DIRECTORY :: u64 where "O_DIRECTORY = 0x10000"
definition O_ACCMODE :: u64 where "O_ACCMODE = 3"
definition SYS_open :: int where "SYS_open = 2"
definition SYS_openat :: int where "SYS_openat = 257"
definition SYS_fcntl :: int where "SYS_fcntl = 72"
definition SG_SOCK_TYPE_MASK :: u64 where "SG_SOCK_TYPE_MASK = 0x0f"

text \<open>The conversion \<open>(int32_t)(uint32_t)value\<close>, and little-endian readings of bytes.\<close>

definition s32 :: "u64 \<Rightarrow> int" where
  "s32 value = (let n = uint value mod 2 ^ 32 in if n < 2 ^ 31 then n else n - 2 ^ 32)"

definition le_value :: "char list \<Rightarrow> nat" where
  "le_value bytes = foldr (\<lambda>c v. of_char c + 256 * v) bytes 0"

definition le_signed :: "char list \<Rightarrow> int" where
  "le_signed bytes =
     (let n = int (le_value bytes); m = 2 ^ (8 * length bytes)
      in if n < m div 2 then n else n - m)"

section \<open>Arguments\<close>

definition effective_argument_count :: "sg_syscall_descriptor \<Rightarrow> sg_syscall_event \<Rightarrow> nat" where
  "effective_argument_count descriptor event =
     (let by_flags = (\<lambda>flags. if flags AND (O_CREAT OR O_TMPFILE) \<noteq> 0
                              then sc_arity descriptor else (sc_arity descriptor + 255) mod 256)
      in if ev_number event = SYS_open then by_flags (ev_arguments event ! 1)
         else if ev_number event = SYS_openat then by_flags (ev_arguments event ! 2)
         else if ev_number event = SYS_fcntl
         then let command = s32 (ev_arguments event ! 1)
           in if command = 1 \<or> command = 3 then 2 else sc_arity descriptor
         else sc_arity descriptor)"

definition append_pointer :: "u64 \<Rightarrow> emitter" where
  "append_pointer value = (if value = 0 then cstr ''NULL'' else fmt (''0x'' @ hex_nat (unat value)))"

text \<open>
  \<open>read_memory\<close>: \<open>Some None\<close> is the answer \<open>false\<close>, \<open>Some (Some bytes)\<close> the bytes that were read.
  A reader that reports more bytes than asked for has overrun the destination: \<open>None\<close>.
\<close>

definition read_memory :: "sg_decoder \<Rightarrow> int \<Rightarrow> u64 \<Rightarrow> nat \<Rightarrow> char list option option" where
  "read_memory decoder t address len =
     (if address = 0 then Some None
      else case memory_read decoder of
             None \<Rightarrow> Some None
           | Some read \<Rightarrow>
               (case read t address len of
                  None \<Rightarrow> Some None
                | Some bytes \<Rightarrow> if length bytes \<le> len then Some (Some bytes) else None))"

definition with_memory :: "char list option option \<Rightarrow> (char list option \<Rightarrow> emitter) \<Rightarrow> emitter" where
  "with_memory r f h b = (case r of None \<Rightarrow> None | Some answer \<Rightarrow> f answer h b)"

text \<open>\<open>malloc\<close> of scratch memory, released again before the function returns.\<close>

definition with_alloc :: "emitter \<Rightarrow> emitter" where
  "with_alloc e h b = (case alloc h of (ok, h') \<Rightarrow> if ok then e h' b else Some (False, h', b))"

text \<open>\<open>isprint\<close> in the C locale.\<close>

definition c_isprint :: "char \<Rightarrow> bool" where
  "c_isprint c \<longleftrightarrow> 32 \<le> (of_char c :: nat) \<and> (of_char c :: nat) \<le> 126"

definition append_escaped_byte :: "char \<Rightarrow> emitter" where
  "append_escaped_byte c =
     (if c = CHR 0x5C then cstr [CHR 0x5C, CHR 0x5C]
      else if c = CHR 0x22 then cstr [CHR 0x5C, CHR 0x22]
      else if c = CHR 0x0A then cstr [CHR 0x5C, CHR ''n'']
      else if c = CHR 0x0D then cstr [CHR 0x5C, CHR ''r'']
      else if c = CHR 0x09 then cstr [CHR 0x5C, CHR ''t'']
      else if c = CHR 0x00 then cstr [CHR 0x5C, CHR ''0'']
      else if c_isprint c then (\<lambda>h b. sg_buffer_append h b (Some [c]) 1)
      else fmt (CHR 0x5C # CHR ''x'' # pad_zero 2 (hex_nat (of_char c))))"

definition append_escaped :: "char list \<Rightarrow> emitter" where
  "append_escaped bytes =
     and_then (cstr [CHR 0x22])
       (and_then (emit_all (map append_escaped_byte bytes)) (cstr [CHR 0x22]))"

definition append_remote_bytes :: "sg_decoder \<Rightarrow> int \<Rightarrow> u64 \<Rightarrow> u64 \<Rightarrow> bool \<Rightarrow> emitter" where
  "append_remote_bytes decoder t address requested stop_at_nul =
     (let limit = dec_string_limit decoder;
          amount = (if requested < limit then requested else limit)
      in if address = 0 then cstr ''NULL''
         else if amount = 0
         then cstr (if requested = 0 then [CHR 0x22, CHR 0x22] else [CHR 0x22, CHR 0x22] @ ''...'')
         else with_alloc (with_memory (read_memory decoder t address (unat amount))
           (\<lambda>answer. case answer of
              None \<Rightarrow> append_pointer address
            | Some bytes \<Rightarrow>
                if bytes = [] then append_pointer address
                else let (shown, truncated) =
                    (if stop_at_nul
                     then (if NUL \<in> set bytes then (takeWhile (\<lambda>c. c \<noteq> NUL) bytes, False)
                           else (bytes, True))
                     else (bytes, length bytes < unat requested \<or> requested > amount))
                  in and_then (append_escaped shown) (if truncated then cstr ''...'' else skip))))"

definition append_string :: "sg_decoder \<Rightarrow> int \<Rightarrow> u64 \<Rightarrow> emitter" where
  "append_string decoder t address =
     append_remote_bytes decoder t address
       (if dec_string_limit decoder = SIZE_MAX then SIZE_MAX else dec_string_limit decoder + 1) True"

text \<open>The loop of \<open>append_flags\<close>, and what follows it.\<close>

fun append_flags_from :: "flag_name list \<Rightarrow> u64 \<Rightarrow> bool \<Rightarrow> emitter" where
  "append_flags_from [] remaining wrote =
     (if remaining \<noteq> 0 \<or> \<not> wrote
      then and_then (if wrote then cstr ''|'' else skip) (fmt (''0x'' @ hex_nat (unat remaining)))
      else skip)"
| "append_flags_from ((value, name) # names) remaining wrote =
     (if value \<noteq> 0 \<and> remaining AND value = value
      then and_then (if wrote then cstr ''|'' else skip)
             (and_then (cstr name) (append_flags_from names (remaining AND NOT value) True))
      else append_flags_from names remaining wrote)"

definition append_flags :: "u64 \<Rightarrow> flag_name list \<Rightarrow> string option \<Rightarrow> emitter" where
  "append_flags value names zero_name =
     (case zero_name of
        Some zero \<Rightarrow> if value = 0 then cstr zero else append_flags_from names value False
      | None \<Rightarrow> append_flags_from names value False)"

definition append_open_flags :: "u64 \<Rightarrow> emitter" where
  "append_open_flags value =
     (let access_mode = value AND O_ACCMODE;
          access_name = (if access_mode = 1 then ''O_WRONLY''
                         else if access_mode = 2 then ''O_RDWR'' else ''O_RDONLY'');
          remaining = value AND NOT O_ACCMODE
      in and_then (cstr access_name)
           (if remaining = 0 then skip
            else and_then (cstr ''|'') (append_flags remaining open_flag_names None)))"

definition append_signal :: "libc \<Rightarrow> u64 \<Rightarrow> emitter" where
  "append_signal lc value =
     (case sigabbrev_np lc (s32 value) of
        None \<Rightarrow> fmt (dec_int (s32 value))
      | Some abbreviation \<Rightarrow> fmt (''SIG'' @ abbreviation))"

definition append_clone_flags :: "libc \<Rightarrow> u64 \<Rightarrow> emitter" where
  "append_clone_flags lc value =
     (let flags = value AND NOT 0xff; signal_number = value AND 0xff
      in and_then (append_flags flags clone_flag_names (Some ''0''))
           (if signal_number = 0 then skip
            else and_then (cstr ''|'') (append_signal lc signal_number)))"

fun append_named_integer :: "int \<Rightarrow> (int \<times> string) list \<Rightarrow> emitter" where
  "append_named_integer value [] = fmt (dec_int value)"
| "append_named_integer value ((v, name) # names) =
     (if v = value then cstr name else append_named_integer value names)"

definition append_socket_domain :: "u64 \<Rightarrow> emitter" where
  "append_socket_domain value =
     append_named_integer (s32 value)
       [(0, ''AF_UNSPEC''), (1, ''AF_UNIX''), (2, ''AF_INET''), (10, ''AF_INET6''),
        (16, ''AF_NETLINK''), (17, ''AF_PACKET'')]"

definition append_socket_type :: "u64 \<Rightarrow> emitter" where
  "append_socket_type value =
     (let base = uint (value AND SG_SOCK_TYPE_MASK);
          flags = value AND NOT SG_SOCK_TYPE_MASK;
          flags' = (if flags AND 0x800 \<noteq> 0 then flags AND NOT 0x800 else flags);
          flags'' = (if flags' AND 0x80000 \<noteq> 0 then flags' AND NOT 0x80000 else flags')
      in and_then (append_named_integer base
             [(1, ''SOCK_STREAM''), (2, ''SOCK_DGRAM''), (3, ''SOCK_RAW''), (5, ''SOCK_SEQPACKET'')])
           (and_then (if flags AND 0x800 \<noteq> 0 then cstr ''|SOCK_NONBLOCK'' else skip)
             (and_then (if flags' AND 0x80000 \<noteq> 0 then cstr ''|SOCK_CLOEXEC'' else skip)
               (if flags'' = 0 then skip else fmt (''|0x'' @ hex_nat (unat flags''))))))"

section \<open>Structures in the memory of the tracee\<close>

text \<open>The zeroed \<open>sockaddr_storage\<close> with the bytes that were read at its start.\<close>

definition sockaddr_storage :: "char list \<Rightarrow> char list" where
  "sockaddr_storage bytes = bytes @ replicate (128 - length bytes) NUL"

definition append_sockaddr :: "libc \<Rightarrow> sg_decoder \<Rightarrow> int \<Rightarrow> u64 \<Rightarrow> u64 \<Rightarrow> emitter" where
  "append_sockaddr lc decoder t address len =
     (let amount = (if unat len < 128 then unat len else 128)
      in if address = 0 then cstr ''NULL''
         else if amount < 2 then append_pointer address
         else with_memory (read_memory decoder t address amount) (\<lambda>answer.
           case answer of
             None \<Rightarrow> append_pointer address
           | Some bytes \<Rightarrow>
               if length bytes < 2 then append_pointer address
               else let storage = sockaddr_storage bytes;
                        family = le_value (take 2 storage);
                        port = dec_nat (of_char (storage ! 2) * 256 + of_char (storage ! 3))
                 in if family = 2 \<and> 16 \<le> length bytes
                    then (case inet_ntop4 lc (take 4 (drop 4 storage)) of
                            None \<Rightarrow> append_pointer address
                          | Some text \<Rightarrow>
                              fmt (''{sa_family=AF_INET, sin_port=htons('' @ port @
                                   ''), sin_addr=inet_addr('' @ [CHR 0x22] @ text @ [CHR 0x22] @ '')}''))
                    else if family = 10 \<and> 28 \<le> length bytes
                    then (case inet_ntop6 lc (take 16 (drop 8 storage)) of
                            None \<Rightarrow> append_pointer address
                          | Some text \<Rightarrow>
                              fmt (''{sa_family=AF_INET6, sin6_port=htons('' @ port @
                                   ''), sin6_addr=inet_pton('' @ [CHR 0x22] @ text @ [CHR 0x22] @ '')}''))
                    else if family = 1
                    then let path = drop 2 bytes
                      in and_then (cstr ''{sa_family=AF_UNIX, sun_path='')
                           (and_then
                             (if path \<noteq> [] \<and> hd path = NUL
                              then and_then (cstr ''@'') (append_escaped (tl path))
                              else append_escaped (takeWhile (\<lambda>c. c \<noteq> NUL) path))
                             (cstr ''}''))
                    else fmt (''{sa_family='' @ dec_nat family @ ''}'')))"

text \<open>The loop of \<open>append_argv\<close>; \<open>left\<close> is 32 minus the index.\<close>

fun append_argv_from :: "sg_decoder \<Rightarrow> int \<Rightarrow> u64 \<Rightarrow> nat \<Rightarrow> nat \<Rightarrow> emitter" where
  "append_argv_from decoder t address index 0 = cstr '', ...]''"
| "append_argv_from decoder t address index (Suc left) =
     (let offset = (of_nat index * 8 :: u64);
          comma = (if index \<noteq> 0 then cstr '', '' else skip);
          unreadable = and_then comma (and_then (cstr ''?'') (cstr '', ...]''))
      in if address > UINT64_MAX - offset then unreadable
         else with_memory (read_memory decoder t (address + offset) 8) (\<lambda>answer.
           case answer of
             None \<Rightarrow> unreadable
           | Some bytes \<Rightarrow>
               if length bytes \<noteq> 8 then unreadable
               else let pointer = (of_nat (le_value bytes) :: u64)
                 in if pointer = 0 then cstr '']''
                    else and_then comma
                           (and_then (append_string decoder t pointer)
                             (append_argv_from decoder t address (Suc index) left))))"

definition append_argv :: "sg_decoder \<Rightarrow> int \<Rightarrow> u64 \<Rightarrow> emitter" where
  "append_argv decoder t address =
     (if address = 0 then cstr ''NULL''
      else and_then (cstr ''['') (append_argv_from decoder t address 0 32))"

definition append_timespec :: "sg_decoder \<Rightarrow> int \<Rightarrow> u64 \<Rightarrow> emitter" where
  "append_timespec decoder t address =
     (if address = 0 then cstr ''NULL''
      else with_memory (read_memory decoder t address 16) (\<lambda>answer.
        case answer of
          None \<Rightarrow> append_pointer address
        | Some bytes \<Rightarrow>
            if length bytes \<noteq> 16 then append_pointer address
            else fmt (''{tv_sec='' @ dec_int (le_signed (take 8 bytes)) @
                      '', tv_nsec='' @ dec_int (le_signed (drop 8 bytes)) @ ''}'')))"

definition append_pipe :: "sg_decoder \<Rightarrow> int \<Rightarrow> sg_syscall_event \<Rightarrow> u64 \<Rightarrow> emitter" where
  "append_pipe decoder t event address =
     (if ev_error_number event \<noteq> 0 then append_pointer address
      else with_memory (read_memory decoder t address 8) (\<lambda>answer.
        case answer of
          None \<Rightarrow> append_pointer address
        | Some bytes \<Rightarrow>
            if length bytes \<noteq> 8 then append_pointer address
            else fmt (''['' @ dec_int (le_signed (take 4 bytes)) @ '', '' @
                      dec_int (le_signed (drop 4 bytes)) @ '']'')))"

text \<open>\<open>struct utsname\<close> has six fields of 65 bytes; \<open>%.*s\<close> stops at a NUL or the field's end.\<close>

definition uts_field :: "char list \<Rightarrow> nat \<Rightarrow> string" where
  "uts_field bytes i = c_str (take 65 (drop (65 * i) bytes))"

definition append_uts :: "sg_decoder \<Rightarrow> int \<Rightarrow> sg_syscall_event \<Rightarrow> u64 \<Rightarrow> emitter" where
  "append_uts decoder t event address =
     (if ev_error_number event \<noteq> 0 then append_pointer address
      else with_memory (read_memory decoder t address 390) (\<lambda>answer.
        case answer of
          None \<Rightarrow> append_pointer address
        | Some bytes \<Rightarrow>
            if length bytes \<noteq> 390 then append_pointer address
            else let q = [CHR 0x22]
              in fmt (''{sysname='' @ q @ uts_field bytes 0 @ q @ '', nodename='' @ q @ uts_field bytes 1 @ q @
                      '', release='' @ q @ uts_field bytes 2 @ q @ '', machine='' @ q @ uts_field bytes 4 @ q @
                      ''}'')))"

section \<open>One argument\<close>

definition is_output_argument :: "sg_argument_kind \<Rightarrow> bool" where
  "is_output_argument k \<longleftrightarrow>
     k = ARG_STRING_OUT \<or> k = ARG_BUFFER_OUT \<or> k = ARG_PIPE_OUT \<or> k = ARG_UTS_OUT"

definition render_argument ::
    "libc \<Rightarrow> sg_decoder \<Rightarrow> int \<Rightarrow> sg_syscall_event \<Rightarrow> sg_argument_spec \<Rightarrow> nat \<Rightarrow> emitter" where
  "render_argument lc decoder t event spec index =
     (let value = ev_arguments event ! index;
          aux = ev_arguments event ! auxiliary spec;
          signed = dec_int (s32 value)
      in case kind spec of
           ARG_HEX \<Rightarrow> fmt (''0x'' @ hex_nat (unat value))
         | ARG_S32 \<Rightarrow> fmt signed
         | ARG_U64 \<Rightarrow> fmt (dec_nat (unat value))
         | ARG_SIZE \<Rightarrow> fmt (dec_nat (unat value))
         | ARG_FD \<Rightarrow> fmt signed
         | ARG_DIRFD \<Rightarrow> if s32 value = - 100 then cstr ''AT_FDCWD'' else fmt signed
         | ARG_POINTER \<Rightarrow> append_pointer value
         | ARG_STRING \<Rightarrow> append_string decoder t value
         | ARG_STRING_OUT \<Rightarrow>
             if ev_error_number event \<noteq> 0 then append_pointer value
             else append_remote_bytes decoder t value
                    (if ev_result event > 0 then of_int (ev_result event) else aux) True
         | ARG_BUFFER_IN \<Rightarrow> append_remote_bytes decoder t value aux False
         | ARG_BUFFER_OUT \<Rightarrow>
             if ev_error_number event \<noteq> 0 then append_pointer value
             else if ev_result event = 0 then cstr [CHR 0x22, CHR 0x22]
             else if ev_result event < 0 then append_pointer value
             else let len = (of_int (ev_result event) :: u64)
               in append_remote_bytes decoder t value (if len > aux then aux else len) False
         | ARG_ARGV \<Rightarrow> append_argv decoder t value
         | ARG_MODE \<Rightarrow> fmt (''0'' @ oct_nat (unat value))
         | ARG_OPEN_FLAGS \<Rightarrow> append_open_flags value
         | ARG_FD_FLAGS \<Rightarrow>
             append_flags value [(0x800, ''O_NONBLOCK''), (0x80000, ''O_CLOEXEC'')] (Some ''0'')
         | ARG_PROT_FLAGS \<Rightarrow> append_flags value prot_flag_names (Some ''PROT_NONE'')
         | ARG_MAP_FLAGS \<Rightarrow> append_flags value map_flag_names (Some ''0'')
         | ARG_CLONE_FLAGS \<Rightarrow> append_clone_flags lc value
         | ARG_ACCESS_FLAGS \<Rightarrow>
             append_flags value [(4, ''R_OK''), (2, ''W_OK''), (1, ''X_OK'')] (Some ''F_OK'')
         | ARG_AT_FLAGS \<Rightarrow>
             append_flags value
               [(0x100, ''AT_SYMLINK_NOFOLLOW''), (0x200, ''AT_REMOVEDIR''),
                (0x400, ''AT_SYMLINK_FOLLOW''), (0x1000, ''AT_EMPTY_PATH'')] (Some ''0'')
         | ARG_SOCKET_DOMAIN \<Rightarrow> append_socket_domain value
         | ARG_SOCKET_TYPE \<Rightarrow> append_socket_type value
         | ARG_SIGNAL \<Rightarrow> append_signal lc value
         | ARG_SIGMASK_HOW \<Rightarrow>
             append_named_integer (s32 value)
               [(0, ''SIG_BLOCK''), (1, ''SIG_UNBLOCK''), (2, ''SIG_SETMASK'')]
         | ARG_SHUTDOWN_HOW \<Rightarrow>
             append_named_integer (s32 value) [(0, ''SHUT_RD''), (1, ''SHUT_WR''), (2, ''SHUT_RDWR'')]
         | ARG_FCNTL_COMMAND \<Rightarrow>
             append_named_integer (s32 value)
               [(0, ''F_DUPFD''), (1, ''F_GETFD''), (2, ''F_SETFD''), (3, ''F_GETFL''), (4, ''F_SETFL''),
                (5, ''F_GETLK''), (6, ''F_SETLK''), (7, ''F_SETLKW''), (1030, ''F_DUPFD_CLOEXEC'')]
         | ARG_EPOLL_OPERATION \<Rightarrow>
             append_named_integer (s32 value)
               [(1, ''EPOLL_CTL_ADD''), (2, ''EPOLL_CTL_DEL''), (3, ''EPOLL_CTL_MOD'')]
         | ARG_WHENCE \<Rightarrow>
             append_named_integer (s32 value) [(0, ''SEEK_SET''), (1, ''SEEK_CUR''), (2, ''SEEK_END'')]
         | ARG_SOCKADDR_IN \<Rightarrow> append_sockaddr lc decoder t value aux
         | ARG_TIMESPEC_IN \<Rightarrow> append_timespec decoder t value
         | ARG_PIPE_OUT \<Rightarrow> append_pipe decoder t event value
         | ARG_UTS_OUT \<Rightarrow> append_uts decoder t event value
         | SG_ARGUMENT_KIND_COUNT \<Rightarrow> (\<lambda>h b. Some (False, h, b)))"

section \<open>Entry and exit of a system call\<close>

definition sg_decoder_release_event :: "sg_syscall_event \<Rightarrow> sg_syscall_event" where
  "sg_decoder_release_event event = event\<lparr>ev_decoded_arguments := replicate 6 None\<rparr>"

text \<open>
  The loop of \<open>sg_decoder_capture_entry\<close> from one index on: input arguments are rendered into a
  buffer of their own and its bytes are saved; a buffer without an array has none to copy.
\<close>

fun capture_from ::
    "libc \<Rightarrow> sg_decoder \<Rightarrow> int \<Rightarrow> sg_syscall_descriptor \<Rightarrow> nat \<Rightarrow> nat \<Rightarrow> heap \<Rightarrow> sg_syscall_event \<Rightarrow>
     (bool \<times> heap \<times> sg_syscall_event) option" where
  "capture_from lc decoder t descriptor index 0 h event = Some (True, h, event)"
| "capture_from lc decoder t descriptor index (Suc left) h event =
     (if is_output_argument (kind (sc_arguments descriptor ! index))
      then capture_from lc decoder t descriptor (Suc index) left h event
      else case render_argument lc decoder t event (sc_arguments descriptor ! index) index h sg_buffer_init of
             None \<Rightarrow> None
           | Some (ok, h1, rendered) \<Rightarrow>
               if \<not> ok then Some (False, h1, sg_decoder_release_event event)
               else (case alloc h1 of (ok', h2) \<Rightarrow>
                 if \<not> ok' then Some (False, h2, sg_decoder_release_event event)
                 else if buf_data rendered = None then None
                 else capture_from lc decoder t descriptor (Suc index) left h2
                        (event\<lparr>ev_decoded_arguments :=
                           (ev_decoded_arguments event)[index := Some (buffer_text rendered)]\<rparr>)))"

definition sg_decoder_capture_entry ::
    "libc \<Rightarrow> sg_decoder \<Rightarrow> int \<Rightarrow> heap \<Rightarrow> sg_syscall_event \<Rightarrow> (bool \<times> heap \<times> sg_syscall_event) option" where
  "sg_decoder_capture_entry lc decoder t h event =
     (case sg_syscall_by_number (ev_number event) of
        None \<Rightarrow>
          Some (True, h, event\<lparr>ev_argument_count := sg_syscall_argument_count (ev_number event)\<rparr>)
      | Some descriptor \<Rightarrow>
          (let event = event\<lparr>ev_argument_count := effective_argument_count descriptor event\<rparr>
           in capture_from lc decoder t descriptor 0 (ev_argument_count event) h event))"

definition append_result :: "libc \<Rightarrow> sg_syscall_descriptor option \<Rightarrow> sg_syscall_event \<Rightarrow> emitter" where
  "append_result lc descriptor event =
     (if ev_error_number event \<noteq> 0
      then (case strerrorname_np lc (ev_error_number event) of
              None \<Rightarrow> fmt ('' = -1 errno('' @ dec_int (ev_error_number event) @ '')'')
            | Some name \<Rightarrow>
                fmt ('' = -1 '' @ name @ '' ('' @ strerror lc (ev_error_number event) @ '')''))
      else case descriptor of
             Some d \<Rightarrow>
               if sc_result_kind d = RESULT_POINTER
               then fmt ('' = 0x'' @ hex_nat (unat (of_int (ev_result event) :: u64)))
               else fmt ('' = '' @ dec_int (ev_result event))
           | None \<Rightarrow> fmt ('' = '' @ dec_int (ev_result event)))"

text \<open>One argument of the printed call: saved text, decoded value, or the raw number.\<close>

definition entry_argument ::
    "libc \<Rightarrow> sg_decoder \<Rightarrow> int \<Rightarrow> sg_syscall_descriptor option \<Rightarrow> sg_syscall_event \<Rightarrow> nat \<Rightarrow> emitter" where
  "entry_argument lc decoder t descriptor event index =
     (case ev_decoded_arguments event ! index of
        Some saved \<Rightarrow> cstr saved
      | None \<Rightarrow>
          (case descriptor of
             Some d \<Rightarrow> render_argument lc decoder t event (sc_arguments d ! index) index
           | None \<Rightarrow> fmt (''0x'' @ hex_nat (unat (ev_arguments event ! index)))))"

definition sg_decode_syscall_entry ::
    "libc \<Rightarrow> sg_decoder \<Rightarrow> int \<Rightarrow> sg_syscall_event \<Rightarrow> emitter" where
  "sg_decode_syscall_entry lc decoder t event =
     (let descriptor = sg_syscall_by_number (ev_number event);
          argument_count = (case descriptor of None \<Rightarrow> ev_argument_count event
                            | Some d \<Rightarrow> effective_argument_count d event);
          head = (case descriptor of
                    None \<Rightarrow> fmt (''syscall_'' @ dec_int (ev_number event) @ ''('')
                  | Some d \<Rightarrow> fmt (sc_name d @ ''(''))
      in and_then head
           (emit_all (map (\<lambda>index.
              and_then (if index \<noteq> 0 then cstr '', '' else skip)
                (entry_argument lc decoder t descriptor event index)) [0..<argument_count])))"

definition sg_decode_syscall_result :: "libc \<Rightarrow> sg_syscall_event \<Rightarrow> emitter" where
  "sg_decode_syscall_result lc event =
     append_result lc (sg_syscall_by_number (ev_number event)) event"

definition sg_decode_syscall :: "libc \<Rightarrow> sg_decoder \<Rightarrow> int \<Rightarrow> sg_syscall_event \<Rightarrow> emitter" where
  "sg_decode_syscall lc decoder t event =
     and_then (sg_decode_syscall_entry lc decoder t event)
       (and_then (cstr '')'') (sg_decode_syscall_result lc event))"

section \<open>Numbers in the output\<close>

lemma nat_format_no_nul: "2 \<le> base \<Longrightarrow> base \<le> 16 \<Longrightarrow> NUL \<notin> set (nat_format base n)"
  using nat_format_chars [of base NUL n] by auto

lemma number_no_nul [simp]:
  "NUL \<notin> set (dec_nat n)" "NUL \<notin> set (hex_nat n)" "NUL \<notin> set (oct_nat n)" "NUL \<notin> set (dec_int i)"
  by (auto simp: dec_nat_def hex_nat_def oct_nat_def dec_int_def nat_format_no_nul)

lemma nat_format_length:
  "2 \<le> base \<Longrightarrow> n < base ^ k \<Longrightarrow> 0 < k \<Longrightarrow> length (nat_format base n) \<le> k"
  by (simp add: nat_format_def length_digits_base)

lemma base_length_u64:
  assumes "2 \<le> base"
  shows "length (nat_format base (unat (w :: u64))) \<le> 64"
proof -
  have "unat w < 2 ^ 64" using unat_lt_u64 [of w] by simp
  also have "(2::nat) ^ 64 \<le> base ^ 64" using assms by (intro power_mono) auto
  finally show ?thesis using assms by (intro nat_format_length) auto
qed

lemma number_length_u64 [simp]:
  "64 \<le> k \<Longrightarrow> length (dec_nat (unat (w :: u64))) \<le> k" "64 \<le> k \<Longrightarrow> length (hex_nat (unat w)) \<le> k"
  "64 \<le> k \<Longrightarrow> length (oct_nat (unat w)) \<le> k"
  using base_length_u64 [of 10 w] base_length_u64 [of 16 w] base_length_u64 [of 8 w]
  by (simp_all add: dec_nat_def hex_nat_def oct_nat_def)

lemma dec_nat_length: "n < 2 ^ 64 \<Longrightarrow> 64 \<le> k \<Longrightarrow> length (dec_nat n) \<le> k"
  using number_length_u64(1) [of k "of_nat n"] unat_of_nat_u64 [of n] by simp

lemma dec_int_length:
  assumes "- (2 ^ 64) < i" and "i < 2 ^ 64" and "65 \<le> k"
  shows "length (dec_int i) \<le> k"
proof (cases "i < 0")
  case True
  have "nat (- i) < 2 ^ 64" using assms(1) by simp
  then have "length (dec_nat (nat (- i))) \<le> 64" by (simp add: dec_nat_length)
  with True assms(3) show ?thesis by (simp add: dec_int_def)
next
  case False
  have "nat i < 2 ^ 64" using assms(2) False by (simp add: nat_less_iff)
  with False assms(3) show ?thesis by (simp add: dec_int_def dec_nat_length)
qed

lemma s32_range: "- (2 ^ 31) \<le> s32 v" "s32 v < 2 ^ 31"
proof -
  have "0 \<le> uint v mod 2 ^ 32" "uint v mod 2 ^ 32 < 2 ^ 32" by simp_all
  then show "- (2 ^ 31) \<le> s32 v" "s32 v < 2 ^ 31" by (auto simp: s32_def Let_def)
qed

lemma s32_length [simp]: "65 \<le> k \<Longrightarrow> length (dec_int (s32 v)) \<le> k"
  using s32_range [of v] by (intro dec_int_length) simp_all

lemma of_char_bound: "(of_char c :: nat) < 256"
  by simp

lemma of_char_div_16: "of_char c div 16 < (16::nat)"
  by (rule less_mult_imp_div_less) (use of_char_bound [of c] in linarith)

lemma byte_step: "a < 256 \<Longrightarrow> b < k \<Longrightarrow> a + 256 * b < 256 * k" for a b k :: nat
  by linarith

lemma le_value_bound: "le_value bytes < 256 ^ length bytes"
proof (induction bytes)
  case (Cons c bytes)
  have "le_value (c # bytes) = of_char c + 256 * le_value bytes" by (simp add: le_value_def)
  also have "\<dots> < 256 * 256 ^ length bytes" by (rule byte_step [OF of_char_bound Cons])
  finally show ?case by simp
qed (simp add: le_value_def)

lemma le_signed_length:
  assumes "length bytes \<le> 8" and "65 \<le> k"
  shows "length (dec_int (le_signed bytes)) \<le> k"
proof -
  define m :: int where "m = 2 ^ (8 * length bytes)"
  have "le_value bytes < 2 ^ (8 * length bytes)"
    using le_value_bound [of bytes] by (simp add: power_mult)
  then have n: "int (le_value bytes) < m"
    unfolding m_def by (metis of_nat_less_iff of_nat_numeral of_nat_power)
  have m: "m \<le> 2 ^ 64" unfolding m_def using assms(1) by (intro power_increasing) auto
  have "le_signed bytes = (if int (le_value bytes) < m div 2 then int (le_value bytes)
      else int (le_value bytes) - m)"
    by (simp add: le_signed_def m_def Let_def)
  with n m assms(2) show ?thesis by (intro dec_int_length) auto
qed

lemma dec_nonempty [simp]:
  "dec_nat n \<noteq> []" "hex_nat n \<noteq> []" "oct_nat n \<noteq> []" "dec_int i \<noteq> []"
  by (simp_all add: dec_nat_def hex_nat_def oct_nat_def dec_int_def nat_format_def)

section \<open>Emitters that write text\<close>

text \<open>
  \<open>writes e\<close>: the emitter stays within bounds and appends a fixed text without NUL. \<open>writes1\<close>:
  that text is not empty, so that the buffer has an array afterwards.
\<close>

definition writes :: "emitter \<Rightarrow> bool" where
  "writes e \<longleftrightarrow> (\<exists>s. NUL \<notin> set s \<and> renders e s)"

definition writes1 :: "emitter \<Rightarrow> bool" where
  "writes1 e \<longleftrightarrow> (\<exists>s. s \<noteq> [] \<and> NUL \<notin> set s \<and> renders e s)"

named_theorems writes_rules "introduction rules for emitters that write text"

lemma writes1_writes: "writes1 e \<Longrightarrow> writes e"
  by (auto simp: writes_def writes1_def)

lemma writes_skip [writes_rules]: "writes skip"
  unfolding writes_def by (intro exI [of _ "[]"]) (simp add: renders_skip)

lemma writes1_cstr [writes_rules]:
  "s \<noteq> [] \<Longrightarrow> NUL \<notin> set s \<Longrightarrow> length s < 2 ^ 64 \<Longrightarrow> writes1 (cstr s)"
  unfolding writes1_def by (intro exI [of _ s]) (simp add: renders_cstr)

lemma writes1_fmt [writes_rules]:
  "s \<noteq> [] \<Longrightarrow> NUL \<notin> set s \<Longrightarrow> length s \<le> 2147483647 \<Longrightarrow> writes1 (fmt s)"
  unfolding writes1_def by (intro exI [of _ s]) (simp add: renders_fmt)

lemma writes_and_then: "writes e \<Longrightarrow> writes f \<Longrightarrow> writes (and_then e f)"
  unfolding writes_def using renders_and_then by (metis Un_iff set_append)

lemma writes1_and_then1: "writes1 e \<Longrightarrow> writes f \<Longrightarrow> writes1 (and_then e f)"
  unfolding writes_def writes1_def using renders_and_then by (metis Un_iff append_is_Nil_conv set_append)

lemma writes1_and_then2: "writes e \<Longrightarrow> writes1 f \<Longrightarrow> writes1 (and_then e f)"
  unfolding writes_def writes1_def using renders_and_then by (metis Un_iff append_is_Nil_conv set_append)

lemma writes_if: "(b \<Longrightarrow> writes e) \<Longrightarrow> (\<not> b \<Longrightarrow> writes f) \<Longrightarrow> writes (if b then e else f)"
  by simp

lemma writes1_if: "(b \<Longrightarrow> writes1 e) \<Longrightarrow> (\<not> b \<Longrightarrow> writes1 f) \<Longrightarrow> writes1 (if b then e else f)"
  by simp

lemma writes1_option:
  "(x = None \<Longrightarrow> writes1 e) \<Longrightarrow> (\<And>y. x = Some y \<Longrightarrow> writes1 (f y)) \<Longrightarrow>
     writes1 (case x of None \<Rightarrow> e | Some y \<Rightarrow> f y)"
  by (cases x) auto

lemmas writes_cstr = writes1_writes [OF writes1_cstr]
lemmas writes_fmt = writes1_writes [OF writes1_fmt]

lemma writes_emit_all: "(\<And>e. e \<in> set es \<Longrightarrow> writes e) \<Longrightarrow> writes (emit_all es)"
  by (induction es) (auto intro: writes_skip writes_and_then)

lemma renders_with_alloc: "renders e s \<Longrightarrow> renders (with_alloc e) s"
  unfolding renders_def
proof (intro allI impI)
  fix h b
  assume e: "\<forall>h b. buffer_wf b \<longrightarrow> appended h b s (e h b)" and wf: "buffer_wf b"
  obtain ok h' where a: "alloc h = (ok, h')" by (cases "alloc h")
  note suf = alloc_suffix [OF a]
  show "appended h b s (with_alloc e h b)"
  proof (cases ok)
    case True
    from e wf have "appended h' b s (e h' b)" by blast
    then obtain ok2 h2 b2 p where r: "e h' b = Some (ok2, h2, b2)" "buffer_wf b2" "suffix h2 h'"
        "prefix p s" "buffer_text b2 = buffer_text b @ p" "ok2 \<longrightarrow> p = s"
        "h' = [] \<and> length (buffer_text b) + length s + 1 < 2 ^ 64 \<longrightarrow> ok2"
      by (rule appendedE)
    moreover have "h = [] \<Longrightarrow> h' = []" using suf by simp
    moreover have "suffix h2 h" using r(3) suf by (rule suffix_order.trans)
    moreover have "with_alloc e h b = Some (ok2, h2, b2)" by (simp add: with_alloc_def a True r(1))
    ultimately show ?thesis by (intro appendedI [where ok = ok2 and p = p]) auto
  next
    case False
    with a have "h \<noteq> []" by (cases h) auto
    with False a suf wf show ?thesis
      by (intro appendedI [where ok = False and p = "[]"]) (auto simp: with_alloc_def)
  qed
qed

lemma writes1_with_alloc [writes_rules]: "writes1 e \<Longrightarrow> writes1 (with_alloc e)"
  unfolding writes1_def using renders_with_alloc by blast

text \<open>The contract of the memory reader.\<close>

definition reader_ok :: "sg_decoder \<Rightarrow> bool" where
  "reader_ok decoder \<longleftrightarrow>
     (\<forall>read t a n bytes. memory_read decoder = Some read \<longrightarrow> read t a n = Some bytes \<longrightarrow> length bytes \<le> n)"

lemma read_memory_defined:
  assumes "reader_ok decoder"
  obtains "read_memory decoder t a n = Some None"
  | bytes where "read_memory decoder t a n = Some (Some bytes)" and "length bytes \<le> n"
proof -
  consider "a = 0 \<or> memory_read decoder = None"
    | read where "a \<noteq> 0" "memory_read decoder = Some read" by (cases "memory_read decoder") auto
  then show thesis
  proof cases
    case 1
    then show ?thesis using that(1) by (auto simp: read_memory_def)
  next
    case 2
    then show ?thesis
      using that assms by (cases "read t a n") (auto simp: read_memory_def reader_ok_def)
  qed
qed

lemma writes1_with_memory:
  assumes "reader_ok decoder" and "writes1 (f None)"
    and "\<And>bytes. length bytes \<le> n \<Longrightarrow> writes1 (f (Some bytes))"
  shows "writes1 (with_memory (read_memory decoder t a n) f)"
proof -
  have "with_memory (Some x) f = f x" for x by (simp add: with_memory_def fun_eq_iff)
  then show ?thesis using assms by (cases rule: read_memory_defined [OF assms(1), of t a n]) auto
qed

lemma writes1_append_pointer [writes_rules]: "writes1 (append_pointer v)"
proof (cases "v = 0")
  case False
  then show ?thesis by (simp add: append_pointer_def writes1_fmt)
qed (simp add: append_pointer_def writes1_cstr)

section \<open>Escaped bytes\<close>

definition escape_byte :: "char \<Rightarrow> string" where
  "escape_byte c =
     (if c = CHR 0x5C then [CHR 0x5C, CHR 0x5C]
      else if c = CHR 0x22 then [CHR 0x5C, CHR 0x22]
      else if c = CHR 0x0A then [CHR 0x5C, CHR ''n'']
      else if c = CHR 0x0D then [CHR 0x5C, CHR ''r'']
      else if c = CHR 0x09 then [CHR 0x5C, CHR ''t'']
      else if c = CHR 0x00 then [CHR 0x5C, CHR ''0'']
      else if c_isprint c then [c]
      else [CHR 0x5C, CHR ''x'', digit_char (of_char c div 16), digit_char (of_char c mod 16)])"

definition escaped :: "char list \<Rightarrow> string" where
  "escaped bytes = concat (map escape_byte bytes)"

definition quoted :: "char list \<Rightarrow> string" where
  "quoted bytes = [CHR 0x22] @ escaped bytes @ [CHR 0x22]"

lemma digit_char_zero: "digit_char 0 = CHR ''0''"
  by code_simp

lemma pad_zero_hex:
  assumes "n < 256"
  shows "pad_zero 2 (hex_nat n) = [digit_char (n div 16), digit_char (n mod 16)]"
proof (cases "n < 16")
  case True
  then show ?thesis
    by (simp add: pad_zero_def hex_nat_def nat_format_def digits_base.simps [of 16 n] digit_char_zero)
next
  case False
  with assms show ?thesis
    by (simp add: pad_zero_def hex_nat_def nat_format_def digits_base.simps [of 16 n]
        digits_base.simps [of 16 "n div 16"])
qed

lemma renders_escaped_byte: "renders (append_escaped_byte c) (escape_byte c)"
proof -
  have hex: "renders (fmt (CHR 0x5C # CHR ''x'' # pad_zero 2 (hex_nat (of_char c))))
      [CHR 0x5C, CHR ''x'', digit_char (of_char c div 16), digit_char (of_char c mod 16)]"
    using renders_fmt [of "CHR 0x5C # CHR ''x'' # pad_zero 2 (hex_nat (of_char c))"]
      pad_zero_hex [OF of_char_bound [of c]] by simp
  show ?thesis
    unfolding append_escaped_byte_def escape_byte_def
    by (simp add: hex renders_append_byte renders_cstr)
qed

lemma renders_escaped: "renders (append_escaped bytes) (quoted bytes)"
proof -
  have "renders (emit_all (map append_escaped_byte bytes)) (escaped bytes)"
    unfolding escaped_def
    by (rule renders_emit_all) (simp add: list_all2_conv_all_nth renders_escaped_byte)
  then show ?thesis
    unfolding append_escaped_def quoted_def by (intro renders_and_then renders_cstr) simp_all
qed

text \<open>Reading an escaped text back.\<close>

definition hex_value :: "char \<Rightarrow> nat" where
  "hex_value c = (if (of_char c :: nat) < 58 then of_char c - 48 else of_char c - 87)"

definition unescape1 :: "string \<Rightarrow> (char \<times> string) option" where
  "unescape1 s =
     (case s of
        [] \<Rightarrow> None
      | c # s \<Rightarrow>
          if c \<noteq> CHR 0x5C then Some (c, s)
          else (case s of
                  [] \<Rightarrow> None
                | d # s \<Rightarrow>
                    if d = CHR 0x5C \<or> d = CHR 0x22 then Some (d, s)
                    else if d = CHR ''n'' then Some (CHR 0x0A, s)
                    else if d = CHR ''r'' then Some (CHR 0x0D, s)
                    else if d = CHR ''t'' then Some (CHR 0x09, s)
                    else if d = CHR ''0'' then Some (NUL, s)
                    else if d = CHR ''x''
                    then (case s of a # b # s \<Rightarrow> Some (char_of (16 * hex_value a + hex_value b), s)
                          | _ \<Rightarrow> None)
                    else None))"

function unescape :: "string \<Rightarrow> char list" where
  "unescape s = (case unescape1 s of None \<Rightarrow> [] | Some (c, rest) \<Rightarrow> c # unescape rest)"
  by pat_completeness auto
termination
  by (relation "measure length") (auto simp: unescape1_def split: list.splits if_splits)

declare unescape.simps [simp del]

lemma hex_value_digit: "d < 16 \<Longrightarrow> hex_value (digit_char d) = d"
  by (simp add: hex_value_def of_char_digit_char)

lemma unescape1_escape: "unescape1 (escape_byte c @ rest) = Some (c, rest)"
proof -
  have "16 * hex_value (digit_char (of_char c div 16)) + hex_value (digit_char (of_char c mod 16)) = of_char c"
    using of_char_div_16 [of c] by (simp add: hex_value_digit)
  then show ?thesis by (simp add: escape_byte_def unescape1_def)
qed

lemma unescape_escaped: "unescape (escaped bytes) = bytes"
proof (induction bytes)
  case Nil
  show ?case by (subst unescape.simps) (simp add: escaped_def unescape1_def)
next
  case (Cons c bytes)
  have "escaped (c # bytes) = escape_byte c @ escaped bytes" by (simp add: escaped_def)
  then show ?case by (subst unescape.simps) (simp add: unescape1_escape Cons)
qed

lemma escape_byte_print: "\<forall>x \<in> set (escape_byte c). c_isprint x"
proof -
  have d: "c_isprint (digit_char d)" if "d < 16" for d
    using that by (simp add: c_isprint_def of_char_digit_char)
  have "of_char c div 16 < (16::nat)" by (rule of_char_div_16)
  then have digits: "c_isprint (digit_char (of_char c div 16))" "c_isprint (digit_char (of_char c mod 16))"
    by (simp_all add: d)
  have letters: "c_isprint (CHR 0x5C)" "c_isprint (CHR 0x22)" "c_isprint (CHR ''n'')" "c_isprint (CHR ''r'')"
      "c_isprint (CHR ''t'')" "c_isprint (CHR ''0'')" "c_isprint (CHR ''x'')"
    by (simp_all add: c_isprint_def)
  show ?thesis by (simp add: escape_byte_def letters digits)
qed

lemma escaped_print: "\<forall>x \<in> set (quoted bytes). c_isprint x"
  using escape_byte_print by (auto simp: quoted_def escaped_def) (simp add: c_isprint_def)

lemma quoted_no_nul: "NUL \<notin> set (quoted bytes)"
  using escaped_print [of bytes] by (auto simp: c_isprint_def)

lemma writes1_escaped [writes_rules]: "writes1 (append_escaped bytes)"
  unfolding writes1_def
  by (intro exI [of _ "quoted bytes"] conjI quoted_no_nul renders_escaped) (simp add: quoted_def)

section \<open>Flags\<close>

text \<open>The names \<open>append_flags\<close> prints for a value, and the bits that are left.\<close>

fun flags_split :: "flag_name list \<Rightarrow> u64 \<Rightarrow> flag_name list \<times> u64" where
  "flags_split [] remaining = ([], remaining)"
| "flags_split ((v, name) # names) remaining =
     (if v \<noteq> 0 \<and> remaining AND v = v
      then (case flags_split names (remaining AND NOT v) of (chosen, left) \<Rightarrow> ((v, name) # chosen, left))
      else flags_split names remaining)"

definition flag_words :: "flag_name list \<Rightarrow> u64 \<Rightarrow> bool \<Rightarrow> string list" where
  "flag_words names value wrote =
     (case flags_split names value of (chosen, left) \<Rightarrow>
        map snd chosen @ (if left \<noteq> 0 \<or> (chosen = [] \<and> \<not> wrote) then [''0x'' @ hex_nat (unat left)] else []))"

definition names_ok :: "flag_name list \<Rightarrow> bool" where
  "names_ok names \<longleftrightarrow> list_all (\<lambda>(v, n). n \<noteq> [] \<and> NUL \<notin> set n \<and> length n < 100) names"

lemma renders_flags_from:
  assumes "names_ok names"
  shows "renders (append_flags_from names r wrote)
    ((if wrote \<and> flag_words names r wrote \<noteq> [] then ''|'' else []) @ join ''|'' (flag_words names r wrote))"
  using assms
proof (induction names arbitrary: r wrote)
  case Nil
  have "renders (fmt (''0x'' @ hex_nat (unat r))) (''0x'' @ hex_nat (unat r))"
    by (rule renders_fmt) simp
  then show ?case
    using renders_and_then [OF renders_cstr [of "''|''"]] renders_and_then [OF renders_skip] renders_skip
    by (auto simp: flag_words_def)
next
  case (Cons x names)
  obtain v name where x: "x = (v, name)" by (cases x)
  from Cons.prems x have ok: "names_ok names" "NUL \<notin> set name" "length name < 2 ^ 64"
    by (auto simp: names_ok_def)
  show ?case
  proof (cases "v \<noteq> 0 \<and> r AND v = v")
    case False
    then have "flag_words (x # names) r wrote = flag_words names r wrote"
      by (auto simp: flag_words_def x)
    with False Cons.IH [OF ok(1), of r wrote] show ?thesis by (auto simp: x)
  next
    case True
    let ?r = "r AND NOT v"
    obtain chosen left where "flags_split names ?r = (chosen, left)" by (cases "flags_split names ?r")
    with True have words: "flag_words (x # names) r wrote = name # flag_words names ?r True"
      by (simp add: flag_words_def x)
    have "renders (if wrote then cstr ''|'' else skip) (if wrote then ''|'' else [])"
      by (simp add: renders_cstr renders_skip)
    from renders_and_then [OF this renders_and_then [OF renders_cstr [OF ok(3,2)] Cons.IH [OF ok(1), of ?r True]]]
    show ?thesis
      using True words
      by (cases wrote; cases "flag_words names ?r True = []") (simp_all add: x join_Cons)
  qed
qed

lemma flags_split_sound:
  assumes "flags_split names r = (chosen, left)"
  shows "foldr (\<lambda>f w. fst f OR w) chosen left = r" and "\<forall>f \<in> set chosen. fst f AND left = 0"
    and "set chosen \<subseteq> set names" and "left AND r = left"
proof -
  have "foldr (\<lambda>f w. fst f OR w) chosen left = r \<and> (\<forall>f \<in> set chosen. fst f AND left = 0) \<and>
      set chosen \<subseteq> set names \<and> left AND r = left"
    using assms
  proof (induction names arbitrary: r chosen left)
    case (Cons x names)
    obtain v name where x: "x = (v, name)" by (cases x)
    show ?case
    proof (cases "v \<noteq> 0 \<and> r AND v = v")
      case False
      with Cons x show ?thesis by fastforce
    next
      case True
      with Cons.prems x obtain c where c: "flags_split names (r AND NOT v) = (c, left)" "chosen = (v, name) # c"
        by (auto split: prod.splits)
      note ih = Cons.IH [OF c(1)]
      have "bit r n" if "bit v n" for n using that True by (metis bit_and_iff)
      then have "v OR (r AND NOT v) = r"
        by (intro bit_word_eqI) (auto simp: bit_or_iff bit_and_iff bit_not_iff)
      moreover have "bit (r AND NOT v) n" if "bit left n" for n
        using that ih by (metis bit_and_iff)
      then have "v AND left = 0" "left AND r = left"
        by (auto intro!: bit_word_eqI simp: bit_and_iff bit_not_iff)
      ultimately show ?thesis using ih c(2) x by auto
    qed
  qed simp
  then show "foldr (\<lambda>f w. fst f OR w) chosen left = r" and "\<forall>f \<in> set chosen. fst f AND left = 0"
    and "set chosen \<subseteq> set names" and "left AND r = left"
    by blast+
qed

section \<open>Every argument can be printed\<close>

text \<open>What is relied on in the C library: its names are short strings.\<close>

definition libc_ok :: "libc \<Rightarrow> bool" where
  "libc_ok lc \<longleftrightarrow>
     (\<forall>i s. sigabbrev_np lc i = Some s \<or> strerrorname_np lc i = Some s \<or> strerror lc i = s \<longrightarrow>
        NUL \<notin> set s \<and> length s \<le> 1024) \<and>
     (\<forall>b s. inet_ntop4 lc b = Some s \<or> inet_ntop6 lc b = Some s \<longrightarrow> NUL \<notin> set s \<and> length s \<le> 46)"

lemma flag_words_no_nul:
  assumes "names_ok names"
  shows "\<forall>w \<in> set (flag_words names v wrote). w \<noteq> [] \<and> NUL \<notin> set w"
proof -
  obtain chosen left where split: "flags_split names v = (chosen, left)" by (cases "flags_split names v")
  from flags_split_sound(3) [OF split] assms
  have "\<forall>f \<in> set chosen. snd f \<noteq> [] \<and> NUL \<notin> set (snd f)"
    by (fastforce simp: names_ok_def list_all_iff)
  then show ?thesis by (auto simp: flag_words_def split)
qed

lemma flag_words_nonempty: "flag_words names v False \<noteq> []"
  by (auto simp: flag_words_def split: prod.split)

lemma renders_flags:
  "names_ok names \<Longrightarrow> renders (append_flags v names None) (join ''|'' (flag_words names v False))"
  using renders_flags_from [of names v False] by (simp add: append_flags_def)

lemma writes1_flags:
  assumes "names_ok names" and "zero = None \<or> (\<exists>z. zero = Some z \<and> z \<noteq> [] \<and> NUL \<notin> set z \<and> length z < 100)"
  shows "writes1 (append_flags v names zero)"
proof -
  have words: "NUL \<notin> set (join ''|'' (flag_words names v False))" "join ''|'' (flag_words names v False) \<noteq> []"
    using flag_words_no_nul [OF assms(1), of v False] flag_words_nonempty [of names v]
    by (intro join_no_nul join_nonempty; simp)+
  have "writes1 (append_flags v names None)"
    unfolding writes1_def using renders_flags [OF assms(1), of v] words by blast
  then show ?thesis
    using assms(2) by (auto simp: append_flags_def writes1_cstr)
qed

lemma flag_tables_ok:
  "names_ok open_flag_names" "names_ok prot_flag_names" "names_ok map_flag_names" "names_ok clone_flag_names"
  by code_simp+

lemma writes1_named_integer:
  assumes "- (2 ^ 64) < v" and "v < 2 ^ 64"
    and "list_all (\<lambda>(i, n). n \<noteq> [] \<and> NUL \<notin> set n \<and> length n < 100) names"
  shows "writes1 (append_named_integer v names)"
  using assms(3)
proof (induction names)
  case Nil
  show ?case using assms(1,2) by (simp add: writes1_fmt dec_int_length)
next
  case (Cons x names)
  then show ?case by (cases x) (auto intro: writes1_cstr)
qed

lemma writes1_s32_names:
  "list_all (\<lambda>(i, n). n \<noteq> [] \<and> NUL \<notin> set n \<and> length n < 100) names \<Longrightarrow>
     writes1 (append_named_integer (s32 v) names)"
  using s32_range [of v] by (intro writes1_named_integer) simp_all

lemma writes1_open_flags: "writes1 (append_open_flags v)"
  unfolding append_open_flags_def Let_def
  by (intro writes1_and_then1 writes1_cstr)
    (auto intro!: writes_skip writes1_writes writes1_and_then1 writes1_cstr writes1_flags simp: flag_tables_ok)

lemma libc_okD:
  assumes "libc_ok lc"
  shows "sigabbrev_np lc i = Some s \<Longrightarrow> NUL \<notin> set s \<and> length s \<le> 1024"
    and "strerrorname_np lc i = Some s \<Longrightarrow> NUL \<notin> set s \<and> length s \<le> 1024"
    and "NUL \<notin> set (strerror lc i) \<and> length (strerror lc i) \<le> 1024"
    and "inet_ntop4 lc b = Some s \<Longrightarrow> NUL \<notin> set s \<and> length s \<le> 46"
    and "inet_ntop6 lc b = Some s \<Longrightarrow> NUL \<notin> set s \<and> length s \<le> 46"
  using assms unfolding libc_ok_def by blast+

lemma writes1_signal: "libc_ok lc \<Longrightarrow> writes1 (append_signal lc v)"
  using libc_okD(1) [of lc "s32 v"]
  by (cases "sigabbrev_np lc (s32 v)") (auto simp: append_signal_def intro!: writes1_fmt)

lemma writes1_clone_flags: "libc_ok lc \<Longrightarrow> writes1 (append_clone_flags lc v)"
  unfolding append_clone_flags_def Let_def
  by (intro writes1_and_then1 writes1_flags)
    (auto intro!: writes_skip writes1_writes writes1_and_then1 writes1_cstr writes1_signal simp: flag_tables_ok)

lemma writes1_socket_type: "writes1 (append_socket_type v)"
proof -
  have "uint (v AND SG_SOCK_TYPE_MASK) < 2 ^ 64"
    by (rule order_less_le_trans [OF unsigned_less]) simp
  moreover have "- (2 ^ 64) < uint (v AND SG_SOCK_TYPE_MASK)"
    by (rule order_less_le_trans [of _ 0]) simp_all
  ultimately show ?thesis
    unfolding append_socket_type_def Let_def
    by (intro writes1_and_then1 [OF writes1_named_integer] writes_and_then writes_if writes_skip
        writes_cstr writes_fmt) simp_all
qed

lemma writes1_remote_bytes:
  assumes "reader_ok decoder"
  shows "writes1 (append_remote_bytes decoder t a n stop)"
  unfolding append_remote_bytes_def Let_def
  by (auto intro!: writes1_cstr writes1_with_alloc writes1_with_memory [OF assms] writes1_append_pointer
      writes1_and_then1 writes1_escaped writes_skip writes1_writes)

lemma writes1_string: "reader_ok decoder \<Longrightarrow> writes1 (append_string decoder t a)"
  by (simp add: append_string_def writes1_remote_bytes)

lemma writes1_argv_from:
  assumes "reader_ok decoder"
  shows "writes1 (append_argv_from decoder t a i k)"
proof (induction k arbitrary: i)
  case 0
  show ?case by (simp add: writes1_cstr)
next
  case (Suc k)
  let ?comma = "if i \<noteq> 0 then cstr '', '' else skip"
  have comma: "writes ?comma" by (auto intro!: writes_skip writes1_writes writes1_cstr)
  then have bad: "writes1 (and_then ?comma (and_then (cstr ''?'') (cstr '', ...]'')))"
    by (intro writes1_and_then2 [of ?comma] writes1_and_then1 writes1_writes [of "cstr '', ...]''"] writes1_cstr)
      simp_all
  have good: "writes1 (and_then ?comma (and_then (append_string decoder t p) (append_argv_from decoder t a (Suc i) k)))"
    for p
    using comma Suc
    by (intro writes1_and_then2 [of ?comma] writes1_and_then1 writes1_string [OF assms]
        writes1_writes [of "append_argv_from decoder t a (Suc i) k"])
  show ?case
    using bad good
    by (auto simp: Let_def intro!: writes1_with_memory [OF assms] writes1_cstr)
qed

lemma writes1_argv: "reader_ok decoder \<Longrightarrow> writes1 (append_argv decoder t a)"
  unfolding append_argv_def
  by (auto intro!: writes1_cstr writes1_and_then1 writes1_writes writes1_argv_from)

lemma two_numbers:
  "length x \<le> 8 \<Longrightarrow> length y \<le> 8 \<Longrightarrow> 200 \<le> k \<Longrightarrow>
     length (dec_int (le_signed x)) + length (dec_int (le_signed y)) \<le> k"
  using le_signed_length [of x 65] le_signed_length [of y 65] by simp

lemma writes1_timespec: "reader_ok decoder \<Longrightarrow> writes1 (append_timespec decoder t a)"
  unfolding append_timespec_def
  by (auto intro!: writes1_cstr writes1_with_memory writes1_append_pointer writes1_fmt two_numbers)

lemma writes1_pipe: "reader_ok decoder \<Longrightarrow> writes1 (append_pipe decoder t e a)"
  unfolding append_pipe_def
  by (auto intro!: writes1_with_memory writes1_append_pointer writes1_fmt two_numbers)

lemma uts_field_ok: "NUL \<notin> set (uts_field bytes i)" "length (uts_field bytes i) \<le> 65"
  using length_c_str [of "take 65 (drop (65 * i) bytes)"] by (auto simp: uts_field_def)

lemma uts_lengths:
  "length (uts_field bytes i) + length (uts_field bytes j) + length (uts_field bytes k) + length (uts_field bytes l) \<le> 260"
  using uts_field_ok(2) [of bytes i] uts_field_ok(2) [of bytes j] uts_field_ok(2) [of bytes k]
    uts_field_ok(2) [of bytes l] by linarith

lemma writes1_uts: "reader_ok decoder \<Longrightarrow> writes1 (append_uts decoder t e a)"
proof -
  assume ok: "reader_ok decoder"
  let ?q = "[CHR 0x22]"
  let ?text = "\<lambda>bytes. ''{sysname='' @ ?q @ uts_field bytes 0 @ ?q @ '', nodename='' @ ?q @ uts_field bytes 1 @ ?q @
    '', release='' @ ?q @ uts_field bytes 2 @ ?q @ '', machine='' @ ?q @ uts_field bytes 4 @ ?q @ ''}''"
  have "length (?text bytes) \<le> 2147483647" for bytes
    using uts_lengths [of bytes 0 1 2 4] by simp
  moreover have "NUL \<notin> set (?text bytes)" for bytes using uts_field_ok(1) [of bytes] by auto
  ultimately have "writes1 (fmt (?text bytes))" for bytes by (intro writes1_fmt) simp_all
  then show ?thesis
    unfolding append_uts_def Let_def
    by (intro writes1_if writes1_append_pointer writes1_with_memory [OF ok] writes1_option) simp_all
qed

lemma sockaddr_port_length:
  "length (dec_nat (of_char c * 256 + of_char d)) \<le> 64"
proof (rule dec_nat_length)
  show "of_char c * 256 + of_char d < (2::nat) ^ 64"
    using of_char_bound [of c] of_char_bound [of d] by (simp del: nat_of_char_less_256)
qed simp

lemma writes1_sockaddr:
  assumes "reader_ok decoder" and "libc_ok lc"
  shows "writes1 (append_sockaddr lc decoder t a n)"
proof -
  have family: "length (dec_nat (le_value (take 2 xs))) \<le> 64" for xs
  proof (rule dec_nat_length)
    have "le_value (take 2 xs) < 256 ^ length (take 2 xs)" by (rule le_value_bound)
    also have "\<dots> \<le> 256 ^ 2" by (intro power_increasing) auto
    finally show "le_value (take 2 xs) < 2 ^ 64" by simp
  qed simp
  have in4: "writes1 (fmt (''{sa_family=AF_INET, sin_port=htons('' @ dec_nat (of_char c * 256 + of_char d) @
      ''), sin_addr=inet_addr('' @ [CHR 0x22] @ str @ [CHR 0x22] @ '')}''))"
    if "inet_ntop4 lc x = Some str" for c d x str
    using sockaddr_port_length [of c d] libc_okD(4) [OF assms(2) that] by (intro writes1_fmt) auto
  have in6: "writes1 (fmt (''{sa_family=AF_INET6, sin6_port=htons('' @ dec_nat (of_char c * 256 + of_char d) @
      ''), sin6_addr=inet_pton('' @ [CHR 0x22] @ str @ [CHR 0x22] @ '')}''))"
    if "inet_ntop6 lc x = Some str" for c d x str
    using sockaddr_port_length [of c d] libc_okD(5) [OF assms(2) that] by (intro writes1_fmt) auto
  have other: "writes1 (fmt (''{sa_family='' @ dec_nat (le_value (take 2 xs)) @ ''}''))" for xs
    using family [of xs] by (intro writes1_fmt) auto
  have unix: "writes1 (and_then (cstr ''{sa_family=AF_UNIX, sun_path='')
      (and_then (if path \<noteq> [] \<and> hd path = NUL then and_then (cstr ''@'') (append_escaped (tl path))
         else append_escaped (takeWhile (\<lambda>c. c \<noteq> NUL) path)) (cstr ''}'')))" for path
    by (intro writes1_and_then1 writes_and_then writes_if writes1_writes [OF writes1_escaped] writes_cstr
        writes1_cstr) simp_all
  show ?thesis
    unfolding append_sockaddr_def Let_def
    by (intro writes1_if writes1_append_pointer writes1_with_memory [OF assms(1)] writes1_option
        writes1_cstr in4 in6 other unix) simp_all
qed

text \<open>What the tracer guarantees about an event: six arguments, six saved texts.\<close>

definition event_ok :: "sg_syscall_event \<Rightarrow> bool" where
  "event_ok e \<longleftrightarrow> length (ev_arguments e) = 6 \<and> length (ev_decoded_arguments e) = 6 \<and>
     ev_argument_count e \<le> 6 \<and>
     (\<forall>s. Some s \<in> set (ev_decoded_arguments e) \<longrightarrow> s \<noteq> [] \<and> NUL \<notin> set s \<and> length s < 2 ^ 64) \<and>
     LONG_MIN \<le> ev_number e \<and> ev_number e \<le> LONG_MAX \<and>
     LONG_MIN \<le> ev_result e \<and> ev_result e \<le> LONG_MAX \<and>
     - 2147483648 \<le> ev_error_number e \<and> ev_error_number e \<le> INT_MAX"

lemma small_tables:
  "names_ok [(0x800, ''O_NONBLOCK''), (0x80000, ''O_CLOEXEC'')]"
  "names_ok [(4, ''R_OK''), (2, ''W_OK''), (1, ''X_OK'')]"
  "names_ok [(0x100, ''AT_SYMLINK_NOFOLLOW''), (0x200, ''AT_REMOVEDIR''),
     (0x400, ''AT_SYMLINK_FOLLOW''), (0x1000, ''AT_EMPTY_PATH'')]"
  by (simp_all add: names_ok_def)

lemma writes1_render_argument:
  assumes "reader_ok decoder" and "libc_ok lc" and "kind spec \<noteq> SG_ARGUMENT_KIND_COUNT"
  shows "writes1 (render_argument lc decoder t e spec i)"
proof (cases "kind spec")
  case SG_ARGUMENT_KIND_COUNT
  then show ?thesis using assms(3) by simp
qed (simp_all add: render_argument_def Let_def writes1_fmt writes1_cstr writes1_append_pointer
    writes1_string [OF assms(1)] writes1_remote_bytes [OF assms(1)] writes1_argv [OF assms(1)]
    writes1_open_flags writes1_flags small_tables flag_tables_ok writes1_clone_flags [OF assms(2)]
    append_socket_domain_def writes1_s32_names writes1_socket_type writes1_signal [OF assms(2)]
    writes1_sockaddr [OF assms(1,2)] writes1_timespec [OF assms(1)] writes1_pipe [OF assms(1)]
    writes1_uts [OF assms(1)])

lemma writes1_text: "writes1 e \<Longrightarrow> \<exists>s. s \<noteq> [] \<and> NUL \<notin> set s \<and> renders e s"
  by (simp add: writes1_def)

end
