(* ===== verification/Decoded_Call.thy ===== *)
theory Decoded_Call
  imports Decoder
begin

text \<open>
  What the emitters of \<open>Decoder\<close> add up to: the texts saved when a call is entered, the
  line a finished call is printed as, and what the printed texts of byte strings and flag words
  say about the values they stand for.
\<close>

section \<open>A whole system call\<close>

lemma buffer_text_data: "buffer_text b \<noteq> [] \<Longrightarrow> buf_data b \<noteq> None"
  by (cases "buf_data b") (simp_all add: buffer_text_def)

lemma descriptor_in_catalog:
  "sg_syscall_by_number n = Some d \<Longrightarrow> descriptor_ok d \<and> d \<in> set syscalls \<and> sc_number d = n"
  using syscalls_okD [of d] by (simp add: sg_syscall_by_number_Some_iff)

lemma open_rows_arity:
  "list_all (\<lambda>d. sc_number d = 2 \<or> sc_number d = 257 \<longrightarrow> 0 < sc_arity d) syscalls"
  by code_simp

lemma effective_count_le:
  assumes "sg_syscall_by_number (ev_number e) = Some d"
  shows "effective_argument_count d e \<le> 6"
proof -
  note d = descriptor_in_catalog [OF assms]
  then have le: "sc_arity d \<le> 6" by (simp add: descriptor_ok_def)
  have pos: "0 < sc_arity d" if "ev_number e = SYS_open \<or> ev_number e = SYS_openat"
    using that d open_rows_arity by (auto simp: list_all_iff SYS_open_def SYS_openat_def)
  then have "(sc_arity d + 255) mod 256 \<le> 6" if "ev_number e = SYS_open \<or> ev_number e = SYS_openat"
  proof -
    have "(sc_arity d + 255) mod 256 = sc_arity d - 1"
      using pos [OF that] le by (simp add: mod_if)
    then show ?thesis using le by simp
  qed
  with le show ?thesis by (simp add: effective_argument_count_def Let_def)
qed

lemma renders_comma_list:
  assumes "\<And>i. i < n \<Longrightarrow> renders (f i) (ts i)"
  shows "renders (emit_all (map (\<lambda>i. and_then (if i \<noteq> 0 then cstr '', '' else skip) (f i)) [0..<n]))
    (join '', '' (map ts [0..<n]))"
proof -
  have "renders (and_then (if i \<noteq> 0 then cstr '', '' else skip) (f i)) ((if i \<noteq> 0 then '', '' else []) @ ts i)"
    if "i < n" for i
    by (rule renders_and_then [OF _ assms [OF that]]) (simp add: renders_cstr renders_skip)
  then have "renders (emit_all (map (\<lambda>i. and_then (if i \<noteq> 0 then cstr '', '' else skip) (f i)) [0..<n]))
      (concat (map (\<lambda>i. (if i \<noteq> 0 then '', '' else []) @ ts i) [0..<n]))"
    by (intro renders_emit_all) (simp add: list_all2_conv_all_nth)
  then show ?thesis by (simp only: join_upt)
qed

lemma render_argument_decoded:
  "render_argument lc decoder t (e\<lparr>ev_decoded_arguments := x\<rparr>) spec i = render_argument lc decoder t e spec i"
  by (cases "kind spec") (simp_all add: render_argument_def append_pipe_def append_uts_def Let_def)

lemma render_argument_count:
  "render_argument lc decoder t (e\<lparr>ev_argument_count := x\<rparr>) spec i = render_argument lc decoder t e spec i"
  by (cases "kind spec") (simp_all add: render_argument_def append_pipe_def append_uts_def Let_def)

text \<open>The saved texts after a successful capture of the arguments from \<open>index\<close> on.\<close>

definition captured ::
    "libc \<Rightarrow> sg_decoder \<Rightarrow> int \<Rightarrow> sg_syscall_descriptor \<Rightarrow> nat \<Rightarrow> nat \<Rightarrow> sg_syscall_event \<Rightarrow> sg_syscall_event \<Rightarrow> bool" where
  "captured lc decoder t d index left e e' \<longleftrightarrow>
     event_ok e' \<and> e\<lparr>ev_decoded_arguments := ev_decoded_arguments e'\<rparr> = e' \<and>
     (\<forall>i < 6. if index \<le> i \<and> i < index + left \<and> \<not> is_output_argument (kind (sc_arguments d ! i))
        then \<exists>s. ev_decoded_arguments e' ! i = Some s \<and>
               renders (render_argument lc decoder t e (sc_arguments d ! i) i) s
        else ev_decoded_arguments e' ! i = ev_decoded_arguments e ! i)"

lemma captured_skip:
  assumes c: "captured lc decoder t d (Suc index) left e e'"
    and out: "is_output_argument (kind (sc_arguments d ! index))"
  shows "captured lc decoder t d index (Suc left) e e'"
  unfolding captured_def
proof (intro conjI allI impI)
  show "event_ok e'" "e\<lparr>ev_decoded_arguments := ev_decoded_arguments e'\<rparr> = e'"
    using c unfolding captured_def by blast+
  fix i :: nat
  assume i: "i < 6"
  have "(index \<le> i \<and> i < index + Suc left \<and> \<not> is_output_argument (kind (sc_arguments d ! i))) =
      (Suc index \<le> i \<and> i < Suc index + left \<and> \<not> is_output_argument (kind (sc_arguments d ! i)))"
    using out by (cases "i = index") auto
  with c i show "if index \<le> i \<and> i < index + Suc left \<and> \<not> is_output_argument (kind (sc_arguments d ! i))
      then \<exists>s. ev_decoded_arguments e' ! i = Some s \<and>
        renders (render_argument lc decoder t e (sc_arguments d ! i) i) s
      else ev_decoded_arguments e' ! i = ev_decoded_arguments e ! i"
    unfolding captured_def by presburger
qed

lemma capture_from_correct:
  assumes env: "reader_ok decoder" "libc_ok lc"
    and kinds: "\<And>i. i < 6 \<Longrightarrow> kind (sc_arguments d ! i) \<noteq> SG_ARGUMENT_KIND_COUNT"
    and "event_ok e" and "index + left \<le> 6"
  shows "\<exists>ok h' e'. capture_from lc decoder t d index left h e = Some (ok, h', e') \<and>
    (if ok then captured lc decoder t d index left e e' else e' = sg_decoder_release_event e)"
  using assms(4,5)
proof (induction left arbitrary: index h e)
  case 0
  have "captured lc decoder t d index 0 e e" using 0 by (simp add: captured_def) (meson leD)
  then show ?case by (intro exI [of _ True]) simp
next
  case (Suc left)
  show ?case
  proof (cases "is_output_argument (kind (sc_arguments d ! index))")
    case True
    from Suc.IH [OF Suc.prems(1), of "Suc index" h] Suc.prems(2) obtain ok h' e' where
      c: "capture_from lc decoder t d (Suc index) left h e = Some (ok, h', e')"
        "if ok then captured lc decoder t d (Suc index) left e e' else e' = sg_decoder_release_event e"
      by auto
    with True captured_skip [OF _ True] show ?thesis
      by (intro exI [of _ ok] exI [of _ h'] exI [of _ e']) auto
  next
    case False
    let ?r = "render_argument lc decoder t e (sc_arguments d ! index) index"
    have "writes1 ?r" using Suc.prems(2) by (intro writes1_render_argument env kinds) simp
    then obtain s where s: "s \<noteq> []" "NUL \<notin> set s" "renders ?r s" by (auto simp: writes1_def)
    then have "appended h sg_buffer_init s (?r h sg_buffer_init)" by (simp add: renders_def)
    then obtain ok h1 b p where r: "?r h sg_buffer_init = Some (ok, h1, b)" "buffer_wf b"
        "buffer_text b = p" "ok \<longrightarrow> p = s"
      by (rule appendedE) simp
    obtain ok2 h2 where a: "alloc h1 = (ok2, h2)" by (cases "alloc h1")
    show ?thesis
    proof (cases "ok \<and> ok2")
      case fail: False
      with r a False show ?thesis by (intro exI [of _ False]) auto
    next
      case True
      let ?e = "e\<lparr>ev_decoded_arguments := (ev_decoded_arguments e)[index := Some s]\<rparr>"
      have saved: "buffer_text b = s" using r True by simp
      then have data: "buf_data b \<noteq> None" using s(1) by (intro buffer_text_data) simp
      have len: "length s < 2 ^ 64"
        using length_buffer_text [OF r(2)] saved unat_lt_u64 [of "buf_length b"] by simp
      have ok: "event_ok ?e"
        using Suc.prems(1) s len set_update_subset_insert [of "ev_decoded_arguments e" index "Some s"]
        by (auto simp: event_ok_def)
      from Suc.IH [OF ok, of "Suc index" h2] Suc.prems(2) obtain ok3 h3 e3 where
        c: "capture_from lc decoder t d (Suc index) left h2 ?e = Some (ok3, h3, e3)"
          "if ok3 then captured lc decoder t d (Suc index) left ?e e3 else e3 = sg_decoder_release_event ?e"
        by auto
      have res: "capture_from lc decoder t d index (Suc left) h e = Some (ok3, h3, e3)"
        using False r(1) a True data saved c(1) by simp
      have "captured lc decoder t d index (Suc left) e e3" if ok3
      proof -
        have cap: "captured lc decoder t d (Suc index) left ?e e3" using c(2) that by simp
        have eq: "e\<lparr>ev_decoded_arguments := ev_decoded_arguments e3\<rparr> = e3"
          using cap by (simp add: captured_def)
        have here: "ev_decoded_arguments e3 ! index = Some s"
          using cap Suc.prems by (simp add: captured_def event_ok_def)
        show ?thesis unfolding captured_def
        proof (intro conjI allI impI)
          show "event_ok e3" using cap by (simp add: captured_def)
          show "e\<lparr>ev_decoded_arguments := ev_decoded_arguments e3\<rparr> = e3" by (fact eq)
          fix i :: nat
          assume i: "i < 6"
          show "if index \<le> i \<and> i < index + Suc left \<and> \<not> is_output_argument (kind (sc_arguments d ! i))
            then \<exists>s. ev_decoded_arguments e3 ! i = Some s \<and>
              renders (render_argument lc decoder t e (sc_arguments d ! i) i) s
            else ev_decoded_arguments e3 ! i = ev_decoded_arguments e ! i"
          proof (cases "i = index")
            case True
            then show ?thesis using here s(3) False by auto
          next
            case other: False
            then have "(Suc index \<le> i \<and> i < Suc index + left) = (index \<le> i \<and> i < index + Suc left)" by auto
            moreover have "if Suc index \<le> i \<and> i < Suc index + left \<and> \<not> is_output_argument (kind (sc_arguments d ! i))
              then \<exists>s. ev_decoded_arguments e3 ! i = Some s \<and>
                renders (render_argument lc decoder t ?e (sc_arguments d ! i) i) s
              else ev_decoded_arguments e3 ! i = ev_decoded_arguments ?e ! i"
              using cap i unfolding captured_def by blast
            ultimately show ?thesis using other by (simp only: render_argument_decoded) simp
          qed
        qed
      qed
      moreover have "sg_decoder_release_event ?e = sg_decoder_release_event e"
        by (simp add: sg_decoder_release_event_def)
      ultimately show ?thesis using res c(2) by auto
    qed
  qed
qed

text \<open>When no allocation is refused and every text fits, the capture succeeds.\<close>

lemma capture_from_succeeds:
  assumes "\<And>i. index \<le> i \<Longrightarrow> i < index + left \<Longrightarrow> \<not> is_output_argument (kind (sc_arguments d ! i)) \<Longrightarrow>
    \<exists>s. s \<noteq> [] \<and> renders (render_argument lc decoder t e (sc_arguments d ! i) i) s \<and> length s + 1 < 2 ^ 64"
  shows "\<exists>e'. capture_from lc decoder t d index left [] e = Some (True, [], e')"
  using assms
proof (induction left arbitrary: index e)
  case (Suc left)
  have rest: "\<exists>e''. capture_from lc decoder t d (Suc index) left [] (e\<lparr>ev_decoded_arguments := x\<rparr>) = Some (True, [], e'')"
    for x
    by (rule Suc.IH) (use Suc.prems in \<open>simp add: render_argument_decoded\<close>)
  show ?case
  proof (cases "is_output_argument (kind (sc_arguments d ! index))")
    case True
    with rest [of "ev_decoded_arguments e"] show ?thesis by simp
  next
    case False
    let ?r = "render_argument lc decoder t e (sc_arguments d ! index) index"
    from Suc.prems [of index] False obtain s where s: "s \<noteq> []" "renders ?r s" "length s + 1 < 2 ^ 64" by auto
    then have "appended [] sg_buffer_init s (?r [] sg_buffer_init)" by (simp add: renders_def)
    then obtain ok h' b p where r: "?r [] sg_buffer_init = Some (ok, h', b)" "suffix h' []"
        "buffer_text b = p" "ok \<longrightarrow> p = s" ok
      by (rule appendedE) (use s(3) in simp)
    then have "buf_data b \<noteq> None" using s(1) by (intro buffer_text_data) simp
    with r False rest show ?thesis by simp
  qed
qed simp

definition input_argument :: "sg_syscall_descriptor \<Rightarrow> sg_syscall_event \<Rightarrow> nat \<Rightarrow> bool" where
  "input_argument d e i \<longleftrightarrow>
     i < effective_argument_count d e \<and> \<not> is_output_argument (kind (sc_arguments d ! i))"

lemma catalog_kinds:
  assumes "sg_syscall_by_number n = Some d" and "i < 6"
  shows "kind (sc_arguments d ! i) \<noteq> SG_ARGUMENT_KIND_COUNT"
  using descriptor_in_catalog [OF assms(1)] assms(2)
  by (auto simp: descriptor_ok_def list_all_iff)

lemma event_ok_count: "event_ok e \<Longrightarrow> n \<le> 6 \<Longrightarrow> event_ok (e\<lparr>ev_argument_count := n\<rparr>)"
  by (simp add: event_ok_def)

section \<open>Texts of bytes and flags\<close>

lemma with_memory_Some [simp]: "with_memory (Some x) f = f x"
  by (simp add: with_memory_def fun_eq_iff)

text \<open>What is shown of the bytes that were read, and whether the dots follow.\<close>

definition shown_bytes :: "bool \<Rightarrow> u64 \<Rightarrow> char list \<Rightarrow> char list" where
  "shown_bytes stop n bytes = (if stop then takeWhile (\<lambda>c. c \<noteq> NUL) bytes else bytes)"

definition cut_short :: "bool \<Rightarrow> u64 \<Rightarrow> char list \<Rightarrow> bool" where
  "cut_short stop n bytes = (if stop then NUL \<notin> set bytes else length bytes < unat n)"

lemma renders_remote_bytes:
  assumes ok: "reader_ok decoder" and read: "memory_read decoder = Some read"
    and bytes: "read t a (unat (min n (dec_string_limit decoder))) = Some bytes" "bytes \<noteq> []"
    and nonzero: "a \<noteq> 0" "n \<noteq> 0" "dec_string_limit decoder \<noteq> 0"
  shows "renders (append_remote_bytes decoder t a n stop)
    (quoted (shown_bytes stop n bytes) @ (if cut_short stop n bytes then ''...'' else []))"
proof -
  let ?amount = "if n < dec_string_limit decoder then n else dec_string_limit decoder"
  have amount: "?amount = min n (dec_string_limit decoder)" by (auto simp: min_def)
  have le: "length bytes \<le> unat ?amount"
    using ok read bytes(1) unfolding reader_ok_def amount by blast
  have memory: "read_memory decoder t a (unat ?amount) = Some (Some bytes)"
    using nonzero(1) read bytes(1) le by (simp add: read_memory_def amount)
  have amount0: "?amount \<noteq> 0" using nonzero by simp
  have dots: "renders (with_alloc (and_then (append_escaped xs) (cstr ''...''))) (quoted xs @ ''...'')" for xs
    by (intro renders_with_alloc renders_and_then [OF renders_escaped] renders_cstr) simp_all
  have plain: "renders (with_alloc (and_then (append_escaped xs) skip)) (quoted xs)" for xs
    using renders_and_then [OF renders_escaped renders_skip] by (intro renders_with_alloc) simp
  have more: "(length bytes < unat n \<or> n > ?amount) = (length bytes < unat n)"
    using le by (auto simp: word_less_nat_alt split: if_splits)
  have whole: "takeWhile (\<lambda>c. c \<noteq> NUL) bytes = bytes" if "NUL \<notin> set bytes"
    using that by (intro takeWhile_id) auto
  note defs = append_remote_bytes_def Let_def shown_bytes_def cut_short_def
  consider "\<not> stop" | "stop" "NUL \<in> set bytes" | "stop" "NUL \<notin> set bytes" by blast
  then show ?thesis
  proof cases
    case 1
    then show ?thesis using nonzero(1) amount0 memory bytes(2) more dots plain by (simp add: defs)
  next
    case 2
    then show ?thesis using nonzero(1) amount0 memory bytes(2) plain by (simp add: defs)
  next
    case 3
    then show ?thesis
      unfolding defs whole [OF 3(2)] using nonzero(1) amount0 memory bytes(2) dots by simp
  qed
qed

text \<open>
  C25. Reading \<open>n\<close> bytes of the tracee at a non-null address, the decoder prints a quoted
  prefix of the bytes the reader delivered, no longer than the string limit; the quoted text is
  printable and determines the bytes. Without the trailing dots the text is complete: for
  strings the terminator follows the bytes shown, for buffers all requested bytes are shown.
\<close>

theorem remote_bytes_shown:
  assumes "reader_ok decoder" and "memory_read decoder = Some read"
    and "read t a (unat (min n (dec_string_limit decoder))) = Some bytes" and "bytes \<noteq> []"
    and "a \<noteq> 0" and "n \<noteq> 0" and "dec_string_limit decoder \<noteq> 0"
  shows "\<exists>shown dots.
    renders (append_remote_bytes decoder t a n stop) (quoted shown @ (if dots then ''...'' else [])) \<and>
    prefix shown bytes \<and> length shown \<le> unat (dec_string_limit decoder) \<and> length shown \<le> unat n \<and>
    (\<forall>c \<in> set (quoted shown). c_isprint c) \<and> unescape (escaped shown) = shown \<and>
    (stop \<longrightarrow> NUL \<notin> set shown) \<and>
    (\<not> dots \<longrightarrow> (if stop then prefix (shown @ [NUL]) bytes else shown = bytes \<and> length shown = unat n))"
proof (intro exI conjI impI)
  let ?s = "shown_bytes stop n bytes"
  let ?d = "cut_short stop n bytes"
  have le: "length bytes \<le> unat (min n (dec_string_limit decoder))"
    using assms(1-3) unfolding reader_ok_def by blast
  have pre: "prefix ?s bytes" by (simp add: shown_bytes_def takeWhile_is_prefix)
  note len = order.trans [OF prefix_length_le [OF pre] le]
  show "renders (append_remote_bytes decoder t a n stop) (quoted ?s @ (if ?d then ''...'' else []))"
    using assms by (rule renders_remote_bytes)
  show "prefix ?s bytes" by (fact pre)
  show "length ?s \<le> unat (dec_string_limit decoder)" "length ?s \<le> unat n"
    using len by (auto simp: min_def word_le_nat_alt split: if_splits)
  show "\<forall>c \<in> set (quoted ?s). c_isprint c" by (rule escaped_print)
  show "unescape (escaped ?s) = ?s" by (rule unescape_escaped)
  show "NUL \<notin> set ?s" if stop using that by (auto simp: shown_bytes_def dest: set_takeWhileD)
  have nul: "prefix (takeWhile (\<lambda>c. c \<noteq> NUL) bytes @ [NUL]) bytes" if "NUL \<in> set bytes"
  proof -
    from that obtain us vs where "bytes = us @ NUL # vs" "NUL \<notin> set us" by (metis split_list_first)
    moreover from this have "takeWhile (\<lambda>c. c \<noteq> NUL) us = us" by (intro takeWhile_id) auto
    ultimately show ?thesis by (simp add: takeWhile_tail)
  qed
  assume "\<not> ?d"
  with nul le show "if stop then prefix (?s @ [NUL]) bytes else ?s = bytes \<and> length ?s = unat n"
    by (auto simp: cut_short_def shown_bytes_def min_def word_le_nat_alt split: if_splits)
qed

definition read_all :: "char list \<Rightarrow> int \<Rightarrow> u64 \<Rightarrow> nat \<Rightarrow> char list option" where
  "read_all memory t a n = Some (take n memory)"

lemma reader_ok_read_all [simp]:
  "reader_ok \<lparr>dec_string_limit = limit, memory_read = Some (read_all memory)\<rparr>"
  by (auto simp: reader_ok_def read_all_def)

theorem remote_bytes_shown_witness:
  "\<exists>shown dots.
    renders (append_remote_bytes \<lparr>dec_string_limit = 4, memory_read = Some (read_all ''abcdef'')\<rparr> 1 4096 6 False)
      (quoted shown @ (if dots then ''...'' else [])) \<and>
    prefix shown ''abcd'' \<and> length shown \<le> unat (4 :: u64) \<and> length shown \<le> unat (6 :: u64) \<and>
    (\<forall>c \<in> set (quoted shown). c_isprint c) \<and> unescape (escaped shown) = shown \<and>
    (False \<longrightarrow> NUL \<notin> set shown) \<and>
    (\<not> dots \<longrightarrow> (if False then prefix (shown @ [NUL]) ''abcd'' else shown = ''abcd'' \<and> length shown = unat (6 :: u64)))"
  using remote_bytes_shown [of "\<lparr>dec_string_limit = 4, memory_read = Some (read_all ''abcdef'')\<rparr>"
      "read_all ''abcdef''" 1 4096 6 "''abcd''" False]
  by (simp add: read_all_def min_def)

text \<open>
  C26. The names printed for a flag word and the hexadecimal rest after them stand for exactly
  the word: their union is the value, the rest shares no bit with a printed flag, every printed
  name is one of the table, and a zero value without a name of its own is printed as \<open>0x0\<close>.
\<close>

theorem flags_denote_value:
  assumes "names_ok names"
  shows "\<exists>chosen left. renders (append_flags v names None)
      (join ''|'' (map snd chosen @ (if left \<noteq> 0 \<or> chosen = [] then [''0x'' @ hex_nat (unat left)] else []))) \<and>
    foldr (\<lambda>f w. fst f OR w) chosen left = v \<and>
    (\<forall>f \<in> set chosen. fst f AND left = 0) \<and> set chosen \<subseteq> set names"
proof -
  obtain chosen left where s: "flags_split names v = (chosen, left)" by (cases "flags_split names v")
  have words: "flag_words names v False =
      map snd chosen @ (if left \<noteq> 0 \<or> chosen = [] then [''0x'' @ hex_nat (unat left)] else [])"
    by (simp add: flag_words_def s)
  show ?thesis
    using renders_flags [OF assms, of v] flags_split_sound [OF s]
    unfolding words by blast
qed

theorem flags_denote_value_witness:
  "names_ok open_flag_names \<and>
   (\<exists>chosen left. renders (append_flags 0x80241 open_flag_names None)
      (join ''|'' (map snd chosen @ (if left \<noteq> 0 \<or> chosen = [] then [''0x'' @ hex_nat (unat left)] else []))) \<and>
    foldr (\<lambda>f w. fst f OR w) chosen left = 0x80241 \<and>
    (\<forall>f \<in> set chosen. fst f AND left = 0) \<and> set chosen \<subseteq> set open_flag_names)"
  using flags_denote_value [OF flag_tables_ok(1), of "0x80241"] flag_tables_ok(1) by blast

section \<open>Texts of whole calls\<close>

definition call_head :: "sg_syscall_event \<Rightarrow> string" where
  "call_head e =
     (case sg_syscall_by_number (ev_number e) of
        None \<Rightarrow> ''syscall_'' @ dec_int (ev_number e)
      | Some d \<Rightarrow> sc_name d)"

definition shown_argument_count :: "sg_syscall_event \<Rightarrow> nat" where
  "shown_argument_count e =
     (case sg_syscall_by_number (ev_number e) of
        None \<Rightarrow> ev_argument_count e
      | Some d \<Rightarrow> effective_argument_count d e)"

definition result_text :: "libc \<Rightarrow> sg_syscall_event \<Rightarrow> string" where
  "result_text lc e =
     (if ev_error_number e \<noteq> 0
      then (case strerrorname_np lc (ev_error_number e) of
              None \<Rightarrow> '' = -1 errno('' @ dec_int (ev_error_number e) @ '')''
            | Some name \<Rightarrow> '' = -1 '' @ name @ '' ('' @ strerror lc (ev_error_number e) @ '')'')
      else case sg_syscall_by_number (ev_number e) of
             Some d \<Rightarrow>
               if sc_result_kind d = RESULT_POINTER
               then '' = 0x'' @ hex_nat (unat (of_int (ev_result e) :: u64))
               else '' = '' @ dec_int (ev_result e)
           | None \<Rightarrow> '' = '' @ dec_int (ev_result e))"

lemma long_length: "LONG_MIN \<le> i \<Longrightarrow> i \<le> LONG_MAX \<Longrightarrow> 65 \<le> k \<Longrightarrow> length (dec_int i) \<le> k"
  by (rule dec_int_length) simp_all

lemma renders_result:
  assumes "libc_ok lc" and "event_ok e"
  shows "renders (sg_decode_syscall_result lc e) (result_text lc e)"
proof -
  have n: "length (dec_int (ev_result e)) \<le> 100" "length (dec_int (ev_error_number e)) \<le> 100"
    using assms(2) by (intro long_length; simp add: event_ok_def)+
  have s: "length s \<le> 1024" if "strerrorname_np lc (ev_error_number e) = Some s" for s
    using libc_okD(2) [OF assms(1) that] by simp
  show ?thesis
    unfolding sg_decode_syscall_result_def append_result_def result_text_def
    using n s libc_okD(3) [OF assms(1), of "ev_error_number e"]
    by (auto intro!: renders_fmt split: option.split)
qed

lemma catalog_names_short:
  "list_all (\<lambda>d. length (sc_name d) < 100 \<and> NUL \<notin> set (sc_name d)) syscalls"
  by code_simp

lemma renders_head:
  assumes "event_ok e"
  shows "renders (case sg_syscall_by_number (ev_number e) of
      None \<Rightarrow> fmt (''syscall_'' @ dec_int (ev_number e) @ ''('')
    | Some d \<Rightarrow> fmt (sc_name d @ ''('')) (call_head e @ ''('')"
proof (cases "sg_syscall_by_number (ev_number e)")
  case None
  have "length (dec_int (ev_number e)) \<le> 100"
    using assms by (intro long_length) (simp_all add: event_ok_def)
  with None show ?thesis using renders_fmt [of "''syscall_'' @ dec_int (ev_number e) @ ''(''"]
    by (simp add: call_head_def)
next
  case (Some d)
  then have "length (sc_name d) < 100"
    using descriptor_in_catalog [OF Some] catalog_names_short by (auto simp: list_all_iff)
  with Some show ?thesis using renders_fmt [of "sc_name d @ ''(''"] by (simp add: call_head_def)
qed

lemma shown_count_le: "event_ok e \<Longrightarrow> shown_argument_count e \<le> 6"
  using effective_count_le [of e]
  by (auto simp: shown_argument_count_def event_ok_def split: option.split)

lemma entry_argument_text:
  assumes env: "reader_ok decoder" "libc_ok lc" and "event_ok e" and i: "i < 6"
  shows "\<exists>s. renders (entry_argument lc decoder t (sg_syscall_by_number (ev_number e)) e i) s \<and> NUL \<notin> set s \<and>
    (\<forall>saved. ev_decoded_arguments e ! i = Some saved \<longrightarrow> s = saved)"
proof (cases "ev_decoded_arguments e ! i")
  case (Some saved)
  then have "Some saved \<in> set (ev_decoded_arguments e)"
    using assms(3) i nth_mem [of i "ev_decoded_arguments e"] by (simp add: event_ok_def)
  then have "NUL \<notin> set saved" "length saved < 2 ^ 64" using assms(3) by (auto simp: event_ok_def)
  with Some show ?thesis by (auto simp: entry_argument_def renders_cstr)
next
  case None
  have "writes1 (entry_argument lc decoder t (sg_syscall_by_number (ev_number e)) e i)"
    using None catalog_kinds [OF _ i]
    by (auto simp: entry_argument_def intro!: writes1_fmt writes1_render_argument env split: option.split)
  then show ?thesis using None by (auto simp: writes1_def)
qed

lemma renders_call:
  assumes env: "reader_ok decoder" "libc_ok lc" and e: "event_ok e"
  shows "\<exists>args. length args = shown_argument_count e \<and>
    renders (sg_decode_syscall lc decoder t e) (call_head e @ ''('' @ join '', '' args @ '')'' @ result_text lc e) \<and>
    (\<forall>i < shown_argument_count e.
       renders (entry_argument lc decoder t (sg_syscall_by_number (ev_number e)) e i) (args ! i) \<and>
       NUL \<notin> set (args ! i) \<and> (\<forall>saved. ev_decoded_arguments e ! i = Some saved \<longrightarrow> args ! i = saved))"
proof -
  let ?n = "shown_argument_count e"
  let ?d = "sg_syscall_by_number (ev_number e)"
  have "\<forall>i. \<exists>s. i < ?n \<longrightarrow> renders (entry_argument lc decoder t ?d e i) s \<and> NUL \<notin> set s \<and>
      (\<forall>saved. ev_decoded_arguments e ! i = Some saved \<longrightarrow> s = saved)"
    using entry_argument_text [OF env e] shown_count_le [OF e] by (meson order.strict_trans2)
  then obtain ts where ts: "\<And>i. i < ?n \<Longrightarrow> renders (entry_argument lc decoder t ?d e i) (ts i) \<and>
      NUL \<notin> set (ts i) \<and> (\<forall>saved. ev_decoded_arguments e ! i = Some saved \<longrightarrow> ts i = saved)"
    by metis
  have "renders (sg_decode_syscall_entry lc decoder t e)
      ((call_head e @ ''('') @ join '', '' (map ts [0..<?n]))"
    unfolding sg_decode_syscall_entry_def Let_def shown_argument_count_def [symmetric]
    using ts by (intro renders_and_then renders_head [OF e] renders_comma_list) blast
  from renders_and_then [OF this renders_and_then [OF renders_cstr [of "'')''"] renders_result [OF env(2) e]]]
  have "renders (sg_decode_syscall lc decoder t e)
      (call_head e @ ''('' @ join '', '' (map ts [0..<?n]) @ '')'' @ result_text lc e)"
    unfolding sg_decode_syscall_def by simp
  with ts show ?thesis by (intro exI [of _ "map ts [0..<?n]"]) simp
qed

lemma capture_entry_correct:
  assumes env: "reader_ok decoder" "libc_ok lc" and e: "event_ok e"
    and d: "sg_syscall_by_number (ev_number e) = Some d"
  shows "\<exists>ok h' e'. sg_decoder_capture_entry lc decoder t h e = Some (ok, h', e') \<and>
    (if ok then captured lc decoder t d 0 (effective_argument_count d e)
                  (e\<lparr>ev_argument_count := effective_argument_count d e\<rparr>) e'
     else e' = sg_decoder_release_event (e\<lparr>ev_argument_count := effective_argument_count d e\<rparr>))"
proof -
  have le: "0 + effective_argument_count d e \<le> 6" using effective_count_le [OF d] by simp
  from capture_from_correct [OF env catalog_kinds [OF d] event_ok_count [OF e] le, of "effective_argument_count d e"]
  show ?thesis using le by (simp add: sg_decoder_capture_entry_def d Let_def)
qed

text \<open>
  C24. Capturing the arguments of an entered call always returns. On success exactly the input
  arguments have saved texts, each the rendering of that argument at this moment; the other
  fields are kept and the argument count is set. On failure no saved text is left. With an
  allocator that never refuses, and argument texts that fit a buffer, it succeeds.
\<close>

theorem capture_entry_saves_inputs:
  assumes "reader_ok decoder" and "libc_ok lc" and "event_ok e"
    and "ev_decoded_arguments e = replicate 6 None"
    and "sg_syscall_by_number (ev_number e) = Some d"
  shows "\<exists>ok h' e'. sg_decoder_capture_entry lc decoder t h e = Some (ok, h', e') \<and>
    event_ok e' \<and> ev_argument_count e' = effective_argument_count d e \<and>
    ev_number e' = ev_number e \<and> ev_arguments e' = ev_arguments e \<and>
    (\<forall>i < 6. if ok \<and> input_argument d e i
       then \<exists>s. ev_decoded_arguments e' ! i = Some s \<and>
              renders (render_argument lc decoder t e (sc_arguments d ! i) i) s
       else ev_decoded_arguments e' ! i = None) \<and>
    (h = [] \<and> (\<forall>i. input_argument d e i \<longrightarrow> (\<exists>s. s \<noteq> [] \<and> length s + 1 < 2 ^ 64 \<and>
       renders (render_argument lc decoder t e (sc_arguments d ! i) i) s)) \<longrightarrow> ok)"
proof -
  let ?n = "effective_argument_count d e"
  let ?e = "e\<lparr>ev_argument_count := ?n\<rparr>"
  obtain ok h' e' where r: "sg_decoder_capture_entry lc decoder t h e = Some (ok, h', e')"
    "if ok then captured lc decoder t d 0 ?n ?e e' else e' = sg_decoder_release_event ?e"
    using capture_entry_correct [OF assms(1-3,5)] by blast
  have le: "?n \<le> 6" using effective_count_le [OF assms(5)] .
  have ok': "event_ok ?e" using event_ok_count [OF assms(3) le] .
  have succeeds: ok
    if "h = []" and "\<forall>i. input_argument d e i \<longrightarrow> (\<exists>s. s \<noteq> [] \<and> length s + 1 < 2 ^ 64 \<and>
       renders (render_argument lc decoder t e (sc_arguments d ! i) i) s)"
  proof -
    have "\<exists>e''. capture_from lc decoder t d 0 ?n [] ?e = Some (True, [], e'')"
      by (rule capture_from_succeeds) (use that(2) in \<open>auto simp: input_argument_def render_argument_count\<close>)
    then show ok using r(1) that(1) assms(5) by (auto simp: sg_decoder_capture_entry_def Let_def)
  qed
  have shape: "e' = ?e\<lparr>ev_decoded_arguments := ev_decoded_arguments e'\<rparr> \<and> event_ok e'"
  proof (cases ok)
    case True
    then show ?thesis using r(2) by (simp add: captured_def)
  next
    case False
    then show ?thesis using r(2) ok' by (simp add: sg_decoder_release_event_def event_ok_def)
  qed
  have saved: "\<forall>i < 6. if ok \<and> input_argument d e i
       then \<exists>s. ev_decoded_arguments e' ! i = Some s \<and>
              renders (render_argument lc decoder t e (sc_arguments d ! i) i) s
       else ev_decoded_arguments e' ! i = None"
  proof (cases ok)
    case True
    then have "\<forall>i < 6. if 0 \<le> i \<and> i < 0 + ?n \<and> \<not> is_output_argument (kind (sc_arguments d ! i))
        then \<exists>s. ev_decoded_arguments e' ! i = Some s \<and>
               renders (render_argument lc decoder t e (sc_arguments d ! i) i) s
        else ev_decoded_arguments e' ! i = ev_decoded_arguments ?e ! i"
      using r(2) unfolding captured_def render_argument_count by simp
    with True assms(4) show ?thesis by (auto simp: input_argument_def split: if_splits)
  next
    case False
    then show ?thesis using r(2) by (simp add: sg_decoder_release_event_def)
  qed
  have fields: "ev_argument_count e' = ?n" "ev_number e' = ev_number e" "ev_arguments e' = ev_arguments e"
    by (subst conjunct1 [OF shape], simp)+
  from r(1) shape fields saved succeeds show ?thesis by blast
qed

text \<open>Instances: the readers and libraries of the examples.\<close>

definition no_libc :: libc where
  "no_libc = \<lparr>sigabbrev_np = (\<lambda>_. None), strerrorname_np = (\<lambda>_. None), strerror = (\<lambda>_. ''?''),
     inet_ntop4 = (\<lambda>_. None), inet_ntop6 = (\<lambda>_. None)\<rparr>"

lemma libc_ok_no_libc [simp]: "libc_ok no_libc"
  by (simp add: libc_ok_def no_libc_def)

definition open_event :: sg_syscall_event where
  "open_event = zero_syscall_event\<lparr>ev_number := 2, ev_arguments := [4096, 0x40, 0x1A4, 0, 0, 0]\<rparr>"

definition open_decoder :: sg_decoder where
  "open_decoder = \<lparr>dec_string_limit = 32, memory_read = Some (read_all (''a.txt'' @ [NUL]))\<rparr>"

lemma open_event_ok [simp]:
  "event_ok open_event" "reader_ok open_decoder" "ev_number open_event = 2"
  "ev_decoded_arguments open_event = replicate 6 None"
  by (simp_all add: event_ok_def open_event_def zero_syscall_event_def open_decoder_def)

definition open_row :: sg_syscall_descriptor where
  "open_row = syscalls ! 2"

lemma open_row_found: "sg_syscall_by_number 2 = Some open_row"
  by code_simp

theorem capture_entry_saves_inputs_witness:
  "\<exists>ok h' e'. sg_decoder_capture_entry no_libc open_decoder 7 [] open_event = Some (ok, h', e') \<and>
    event_ok e' \<and> ev_argument_count e' = effective_argument_count open_row open_event \<and>
    ev_number e' = ev_number open_event \<and> ev_arguments e' = ev_arguments open_event \<and>
    (\<forall>i < 6. if ok \<and> input_argument open_row open_event i
       then \<exists>s. ev_decoded_arguments e' ! i = Some s \<and>
              renders (render_argument no_libc open_decoder 7 open_event (sc_arguments open_row ! i) i) s
       else ev_decoded_arguments e' ! i = None) \<and>
    ([] = ([] :: heap) \<and> (\<forall>i. input_argument open_row open_event i \<longrightarrow> (\<exists>s. s \<noteq> [] \<and> length s + 1 < 2 ^ 64 \<and>
       renders (render_argument no_libc open_decoder 7 open_event (sc_arguments open_row ! i) i) s)) \<longrightarrow> ok)"
  by (rule capture_entry_saves_inputs) (simp_all add: open_row_found)

text \<open>
  C23. A finished call is printed as \<open>name(arg, ..., arg) = result\<close>. The entry was captured with
  one view of the tracee's memory and is printed with another: the input arguments are the
  texts rendered at entry, whatever the memory holds when the line is printed; only output
  arguments are rendered from the later memory, with the result and error of the call.
\<close>

theorem printed_call_keeps_entry_texts:
  assumes "reader_ok decoder" and "reader_ok later" and "libc_ok lc" and "event_ok e"
    and "ev_decoded_arguments e = replicate 6 None"
    and "sg_syscall_by_number (ev_number e) = Some d"
    and "sg_decoder_capture_entry lc decoder t h e = Some (True, h', e1)"
    and "e2 = e1\<lparr>ev_result := result, ev_error_number := error\<rparr>" and "event_ok e2"
  shows "\<exists>args. length args = effective_argument_count d e \<and>
    renders (sg_decode_syscall lc later t' e2)
      (sc_name d @ ''('' @ join '', '' args @ '')'' @ result_text lc e2) \<and>
    (\<forall>i < effective_argument_count d e.
       renders (if is_output_argument (kind (sc_arguments d ! i))
                then render_argument lc later t' e2 (sc_arguments d ! i) i
                else render_argument lc decoder t e (sc_arguments d ! i) i) (args ! i))"
proof -
  let ?n = "effective_argument_count d e"
  let ?e = "e\<lparr>ev_argument_count := ?n\<rparr>"
  have cap: "captured lc decoder t d 0 ?n ?e e1"
    using capture_entry_correct [OF assms(1,3,4,6), of t h] assms(7) by auto
  then have e1: "?e\<lparr>ev_decoded_arguments := ev_decoded_arguments e1\<rparr> = e1" by (simp add: captured_def)
  have keep: "ev_number e2 = ev_number e" "ev_arguments e2 = ev_arguments e"
      "ev_decoded_arguments e2 = ev_decoded_arguments e1"
    unfolding assms(8) by (subst e1 [symmetric], simp)+
  have n: "shown_argument_count e2 = ?n" and hd: "call_head e2 = sc_name d"
    using keep assms(6) by (simp_all add: shown_argument_count_def effective_argument_count_def call_head_def)
  obtain args where args: "length args = ?n"
      "renders (sg_decode_syscall lc later t' e2) (sc_name d @ ''('' @ join '', '' args @ '')'' @ result_text lc e2)"
      "\<And>i. i < ?n \<Longrightarrow> renders (entry_argument lc later t' (Some d) e2 i) (args ! i) \<and>
         (\<forall>saved. ev_decoded_arguments e2 ! i = Some saved \<longrightarrow> args ! i = saved)"
    using renders_call [OF assms(2,3,9), of t'] keep(1) assms(6) unfolding n hd by auto
  have "renders (if is_output_argument (kind (sc_arguments d ! i))
                then render_argument lc later t' e2 (sc_arguments d ! i) i
                else render_argument lc decoder t e (sc_arguments d ! i) i) (args ! i)" if i: "i < ?n" for i
  proof -
    have i6: "i < 6" using i effective_count_le [OF assms(6)] by simp
    have saved: "if i < ?n \<and> \<not> is_output_argument (kind (sc_arguments d ! i))
        then \<exists>s. ev_decoded_arguments e1 ! i = Some s \<and>
               renders (render_argument lc decoder t e (sc_arguments d ! i) i) s
        else ev_decoded_arguments e1 ! i = ev_decoded_arguments e ! i"
      using cap i6 unfolding captured_def render_argument_count by simp
    show ?thesis
    proof (cases "is_output_argument (kind (sc_arguments d ! i))")
      case True
      then have "ev_decoded_arguments e2 ! i = None" using saved keep(3) assms(5) i6 by simp
      with args(3) [OF i] True show ?thesis by (simp add: entry_argument_def)
    next
      case False
      with saved i keep(3) args(3) [OF i] show ?thesis by auto
    qed
  qed
  with args show ?thesis by blast
qed

definition close_event :: sg_syscall_event where
  "close_event = zero_syscall_event\<lparr>ev_number := 3, ev_arguments := [5, 0, 0, 0, 0, 0]\<rparr>"

definition close_captured :: sg_syscall_event where
  "close_captured = close_event\<lparr>ev_argument_count := 1,
     ev_decoded_arguments := [Some ''5'', None, None, None, None, None]\<rparr>"

lemma close_captured: "sg_decoder_capture_entry no_libc open_decoder 7 [] close_event = Some (True, [], close_captured)"
  by code_simp

lemma close_found: "sg_syscall_by_number 3 = Some (syscalls ! 3)"
  by code_simp

theorem printed_call_keeps_entry_texts_witness:
  "\<exists>args. length args = effective_argument_count (syscalls ! 3) close_event \<and>
    renders (sg_decode_syscall no_libc (open_decoder\<lparr>memory_read := None\<rparr>) 7
        (close_captured\<lparr>ev_result := - 1, ev_error_number := 9\<rparr>))
      (sc_name (syscalls ! 3) @ ''('' @ join '', '' args @ '')'' @
        result_text no_libc (close_captured\<lparr>ev_result := - 1, ev_error_number := 9\<rparr>)) \<and>
    (\<forall>i < effective_argument_count (syscalls ! 3) close_event.
       renders (if is_output_argument (kind (sc_arguments (syscalls ! 3) ! i))
                then render_argument no_libc (open_decoder\<lparr>memory_read := None\<rparr>) 7
                       (close_captured\<lparr>ev_result := - 1, ev_error_number := 9\<rparr>) (sc_arguments (syscalls ! 3) ! i) i
                else render_argument no_libc open_decoder 7 close_event (sc_arguments (syscalls ! 3) ! i) i)
         (args ! i))"
proof (rule printed_call_keeps_entry_texts [OF _ _ _ _ _ _ close_captured refl])
  show "event_ok close_event" "event_ok (close_captured\<lparr>ev_result := - 1, ev_error_number := 9\<rparr>)"
    "ev_decoded_arguments close_event = replicate 6 None"
    by (simp_all add: close_captured_def close_event_def event_ok_def zero_syscall_event_def)
  show "sg_syscall_by_number (ev_number close_event) = Some (syscalls ! 3)"
    by (simp add: close_event_def close_found)
  show "reader_ok (open_decoder\<lparr>memory_read := None\<rparr>)" by (simp add: reader_ok_def)
qed simp_all

section \<open>Where the decoder misreads\<close>



end
