(* ===== verification/Decimal_Double.thy ===== *)
theory Decimal_Double
  imports Prelude
begin

text \<open>
  The doubles of the summaries of \<open>src/output.c\<close> and their \<open>%.2f\<close> and \<open>%.6f\<close> formats. All of
  them are conversions of 64-bit counters, products with 100 and quotients of such values, so
  none is negative, subnormal or infinite. A double is a fraction of natural numbers; every
  operation rounds to 53 significant bits, ties to even, and a format rounds the exact value of
  the double to its decimal places, ties to even.
\<close>

section \<open>Rounding\<close>

type_synonym double = "nat \<times> nat"

definition nearest :: "nat \<Rightarrow> nat \<Rightarrow> nat" where
  "nearest n d =
     (let q = n div d; r = n mod d
      in if 2 * r < d \<or> (2 * r = d \<and> even q) then q else q + 1)"

function bit_length :: "nat \<Rightarrow> nat" where
  "bit_length n = (if n = 0 then 0 else Suc (bit_length (n div 2)))"
  by pat_completeness auto
termination
  by (relation "measure id") auto

declare bit_length.simps [simp del]

text \<open>The fraction \<open>n / d\<close> times \<open>2 ^ k\<close>, for a positive or negative \<open>k\<close>.\<close>

definition scaled :: "nat \<Rightarrow> nat \<Rightarrow> int \<Rightarrow> nat \<times> nat" where
  "scaled n d k = (n * 2 ^ nat k, d * 2 ^ nat (- k))"

text \<open>The exponent for which the significand of \<open>n / d\<close> has 53 bits.\<close>

definition precision_exponent :: "nat \<Rightarrow> nat \<Rightarrow> int" where
  "precision_exponent n d =
     (let k = 53 + int (bit_length d) - int (bit_length n)
      in case scaled n d k of (a, b) \<Rightarrow> if a div b < 2 ^ 53 then k else k - 1)"

definition round_double :: "nat \<Rightarrow> nat \<Rightarrow> double" where
  "round_double n d =
     (if n = 0 then (0, 1)
      else let k = precision_exponent n d
        in case scaled n d k of (a, b) \<Rightarrow> (nearest a b * 2 ^ nat (- k), 2 ^ nat k))"

definition double_of :: "u64 \<Rightarrow> double" where
  "double_of w = round_double (unat w) 1"

definition double_times :: "double \<Rightarrow> nat \<Rightarrow> double" where
  "double_times x n = round_double (fst x * n) (snd x)"

definition double_divide :: "double \<Rightarrow> double \<Rightarrow> double" where
  "double_divide x y = round_double (fst x * snd y) (snd x * fst y)"

definition fixed_format :: "nat \<Rightarrow> double \<Rightarrow> string" where
  "fixed_format places x =
     (let v = nearest (fst x * 10 ^ places) (snd x)
      in dec_nat (v div 10 ^ places) @ ''.'' @ pad_zero places (dec_nat (v mod 10 ^ places)))"

text \<open>A minimum field width, filled with blanks on the left.\<close>

definition pad_left :: "nat \<Rightarrow> string \<Rightarrow> string" where
  "pad_left width s = replicate (width - length s) CHR '' '' @ s"

section \<open>Accuracy\<close>

lemma nearest_error:
  assumes "0 < d"
  shows "2 * (nearest n d * d) \<le> 2 * n + d" and "2 * n \<le> 2 * (nearest n d * d) + d"
proof -
  define q r where "q = n div d" and "r = n mod d"
  have n: "n = q * d + r" and r: "r < d" using assms by (simp_all add: q_def r_def)
  have "nearest n d = (if 2 * r < d \<or> (2 * r = d \<and> even q) then q else q + 1)"
    by (simp add: nearest_def Let_def q_def r_def)
  then show "2 * (nearest n d * d) \<le> 2 * n + d" and "2 * n \<le> 2 * (nearest n d * d) + d"
    using r by (auto simp: n algebra_simps)
qed

lemma nearest_exact: "0 < d \<Longrightarrow> nearest (q * d) d = q"
  by (simp add: nearest_def)

lemma nearest_le: "nearest n d \<le> n + 1"
  using div_le_dividend [of n d] by (simp add: nearest_def Let_def le_SucI)

lemma bit_length_bounds: "0 < n \<Longrightarrow> 2 ^ (bit_length n - 1) \<le> n \<and> n < 2 ^ bit_length n \<and> 0 < bit_length n"
proof (induction n rule: bit_length.induct)
  case (1 n)
  show ?case
  proof (cases "n = 1")
    case True
    then show ?thesis by (simp add: bit_length.simps [of "Suc 0"] bit_length.simps [of 0])
  next
    case False
    with 1 have ih: "2 ^ (bit_length (n div 2) - 1) \<le> n div 2" "n div 2 < 2 ^ bit_length (n div 2)"
        "0 < bit_length (n div 2)"
      by auto
    have "bit_length n = Suc (bit_length (n div 2))" using 1(2) by (subst bit_length.simps) simp
    moreover have "2 * 2 ^ (bit_length (n div 2) - 1) = (2::nat) ^ bit_length (n div 2)"
      using ih(3) by (simp flip: power_Suc)
    moreover have "2 * (n div 2) \<le> n" "n \<le> 2 * (n div 2) + 1" by presburger+
    ultimately show ?thesis using ih(1,2) by (simp del: times_div_less_eq_dividend)
  qed
qed

lemma first_exponent:
  assumes "0 < n" and "0 < d"
    and "scaled n d (53 + int (bit_length d) - int (bit_length n)) = (a, b)"
  shows "2 ^ 52 * b \<le> a" and "a < 2 ^ 54 * b" and "0 < b"
proof -
  obtain p q where p: "bit_length n = Suc p" and q: "bit_length d = Suc q"
    using bit_length_bounds [OF assms(1)] bit_length_bounds [OF assms(2)] by (metis Suc_pred)
  have n: "2 ^ p \<le> n" "n < 2 * 2 ^ p" and d: "2 ^ q \<le> d" "d < 2 * 2 ^ q"
    using bit_length_bounds [OF assms(1)] bit_length_bounds [OF assms(2)] by (simp_all add: p q)
  have b: "0 < b" using assms by (auto simp: scaled_def)
  have "2 ^ 52 * b \<le> a \<and> a < 2 ^ 54 * b"
  proof (cases "p \<le> 53 + q")
    case True
    then have ab: "a = n * 2 ^ (53 + q - p)" "b = d"
      using assms(3) by (auto simp: scaled_def p q nat_diff_distrib nat_add_distrib)
    have "(2::nat) ^ p * 2 ^ (53 + q - p) = 2 ^ (53 + q)" using True by (simp flip: power_add)
    then have e: "(2::nat) ^ p * 2 ^ (53 + q - p) = 2 ^ 53 * 2 ^ q" by (simp only: power_add)
    have "2 ^ p * 2 ^ (53 + q - p) \<le> a" "a < (2 * 2 ^ p) * 2 ^ (53 + q - p)"
      using n by (simp_all add: ab)
    then show ?thesis using d ab(2) e by (simp add: mult.assoc)
  next
    case False
    then have ab: "a = n" "b = d * 2 ^ (p - (53 + q))"
      using assms(3) by (auto simp: scaled_def p q nat_diff_distrib nat_add_distrib)
    have e: "(2::nat) ^ q * 2 ^ (p - (53 + q)) * 2 ^ 53 = 2 ^ p"
      by (simp only: power_add [symmetric]) (use False in simp)
    have "2 ^ q * 2 ^ (p - (53 + q)) \<le> b" "b < (2 * 2 ^ q) * 2 ^ (p - (53 + q))"
      using d by (simp_all add: ab)
    then show ?thesis using n ab(1) e by (simp add: mult.assoc)
  qed
  then show "2 ^ 52 * b \<le> a" and "a < 2 ^ 54 * b" and "0 < b" using b by auto
qed

lemma scaled_half:
  assumes "scaled n d k = (a, b)" and "scaled n d (k - 1) = (a', b')"
  shows "(a = 2 * a' \<and> b' = b) \<or> (a' = a \<and> b' = 2 * b)"
proof (cases "1 \<le> k")
  case True
  then have "nat k = Suc (nat (k - 1))" by simp
  with True assms show ?thesis by (simp add: scaled_def)
next
  case False
  then have "nat (- (k - 1)) = Suc (nat (- k))" by simp
  with False assms show ?thesis by (simp add: scaled_def)
qed

lemma precision_exponent_bounds:
  assumes "0 < n" and "0 < d" and "scaled n d (precision_exponent n d) = (a, b)"
  shows "2 ^ 52 * b \<le> a" and "a < 2 ^ 53 * b" and "0 < b"
proof -
  define k where "k = 53 + int (bit_length d) - int (bit_length n)"
  obtain a0 b0 where ab: "scaled n d k = (a0, b0)" by (cases "scaled n d k")
  note first = first_exponent [OF assms(1,2) ab [unfolded k_def]]
  have pe: "precision_exponent n d = (if a0 div b0 < 2 ^ 53 then k else k - 1)"
    using ab by (simp add: precision_exponent_def k_def)
  have div: "a0 div b0 < 2 ^ 53 \<longleftrightarrow> a0 < 2 ^ 53 * b0"
    using first(3) by (simp add: div_less_iff_less_mult)
  have "2 ^ 52 * b \<le> a \<and> a < 2 ^ 53 * b \<and> 0 < b"
  proof (cases "a0 < 2 ^ 53 * b0")
    case True
    then show ?thesis using assms(3) ab pe div first by simp
  next
    case False
    then have "scaled n d (k - 1) = (a, b)" using assms(3) pe div by simp
    from scaled_half [OF ab this] False first show ?thesis by auto
  qed
  then show "2 ^ 52 * b \<le> a" and "a < 2 ^ 53 * b" and "0 < b" by auto
qed

text \<open>Every rounded operation is exact up to a relative error of \<open>2 ^ -53\<close>.\<close>

lemma round_double_accurate:
  assumes "0 < d" and "round_double n d = (x, y)"
  shows "0 < y" and "2 ^ 53 * (x * d) \<le> (2 ^ 53 + 1) * (n * y)"
    and "2 ^ 53 * (n * y) \<le> 2 ^ 53 * (x * d) + n * y"
proof -
  have "0 < y \<and> 2 ^ 53 * (x * d) \<le> (2 ^ 53 + 1) * (n * y) \<and> 2 ^ 53 * (n * y) \<le> 2 ^ 53 * (x * d) + n * y"
  proof (cases "n = 0")
    case True
    then show ?thesis using assms by (simp add: round_double_def)
  next
    case False
    define k where "k = precision_exponent n d"
    obtain a b where ab: "scaled n d k = (a, b)" by (cases "scaled n d k")
    from False assms(1) have bounds: "2 ^ 52 * b \<le> a" "0 < b"
      using precision_exponent_bounds [OF _ assms(1) ab [unfolded k_def]] by auto
    have x: "x = nearest a b * 2 ^ nat (- k)" and y: "y = 2 ^ nat k"
      using assms(2) False ab by (auto simp: round_double_def Let_def k_def)
    have a: "a = n * y" and b: "b = d * 2 ^ nat (- k)" using ab by (auto simp: scaled_def y)
    have xd: "x * d = nearest a b * b" by (simp add: x b)
    have "2 * (nearest a b * b) \<le> 2 * a + b" "2 * a \<le> 2 * (nearest a b * b) + b"
      using nearest_error [OF bounds(2)] by blast+
    moreover have "0 < y" by (simp add: y)
    ultimately show ?thesis
      using bounds(1) unfolding xd a [symmetric] by auto
  qed
  then show "0 < y" and "2 ^ 53 * (x * d) \<le> (2 ^ 53 + 1) * (n * y)"
    and "2 ^ 53 * (n * y) \<le> 2 ^ 53 * (x * d) + n * y"
    by blast+
qed

text \<open>Rounding keeps numerators and denominators within bounds that add up over the operations.\<close>

lemma bit_length_le:
  assumes "n < 2 ^ q"
  shows "bit_length n \<le> q"
proof (rule ccontr)
  assume "\<not> bit_length n \<le> q"
  then have "q \<le> bit_length n - 1" "0 < n" by (cases n; auto simp: bit_length.simps [of 0])+
  then have "2 ^ q \<le> (2::nat) ^ (bit_length n - 1)" "2 ^ (bit_length n - 1) \<le> n"
    using bit_length_bounds [of n] by (auto intro: power_increasing)
  with assms show False by linarith
qed

lemma round_double_size:
  assumes "n < 2 ^ p" and "d < 2 ^ q" and "0 < d"
  shows "fst (round_double n d) < 2 ^ (p + q + 54)" and "snd (round_double n d) \<le> 2 ^ (q + 53)"
    and "0 < snd (round_double n d)" and "0 < n \<Longrightarrow> 0 < fst (round_double n d)"
proof -
  obtain x y where xy: "round_double n d = (x, y)" by (cases "round_double n d")
  note acc = round_double_accurate [OF assms(3) xy]
  have "precision_exponent n d \<le> 53 + int (bit_length d)"
    by (auto simp: precision_exponent_def Let_def split: prod.split)
  also have "\<dots> \<le> int (q + 53)" using bit_length_le [OF assms(2)] by simp
  finally have "nat (precision_exponent n d) \<le> q + 53" by linarith
  then have "(2::nat) ^ nat (precision_exponent n d) \<le> 2 ^ (q + 53)" by (intro power_increasing) simp_all
  moreover have "(1::nat) \<le> 2 ^ (q + 53)" by simp
  ultimately have y: "y \<le> 2 ^ (q + 53)"
    using xy by (auto simp: round_double_def Let_def split: if_splits prod.splits)
  have "x \<le> x * d" using assms(3) by simp
  moreover have "x \<le> 2 * b" if "2 ^ 53 * a \<le> (2 ^ 53 + 1) * b" "x \<le> a" for a b :: nat using that by simp
  ultimately have x: "x \<le> 2 * (n * y)" using acc(2) by blast
  have "2 * (n * y) < 2 ^ (p + q + 54)"
  proof -
    have "n * y \<le> n * 2 ^ (q + 53)" using y by (intro mult_left_mono) simp_all
    also have "\<dots> < 2 ^ p * 2 ^ (q + 53)" using assms(1) by (intro mult_strict_right_mono) simp_all
    finally have "2 * (n * y) < 2 * (2 ^ p * 2 ^ (q + 53))" by simp
    also have "\<dots> = 2 ^ (p + q + 54)" by (simp add: power_add)
    finally show ?thesis .
  qed
  with x show "fst (round_double n d) < 2 ^ (p + q + 54)" by (simp add: xy)
  show "snd (round_double n d) \<le> 2 ^ (q + 53)" "0 < snd (round_double n d)" using y acc(1) by (simp_all add: xy)
  show "0 < fst (round_double n d)" if "0 < n"
  proof -
    have "0 < n * y" using that acc(1) by simp
    with acc(3) have "0 < x * d" by (cases "x * d = 0") simp_all
    then show ?thesis by (simp add: xy)
  qed
qed

end
