(* ===== verification/Output.thy ===== *)
theory Output
  imports Cli Decoded_Call Stats Decimal_Double
begin

text \<open>
  The trace output, \<open>src/output.c\<close>: text lines with the bookkeeping of unfinished calls, NDJSON
  records and the two summaries.

  A stream is the text it has received and the answers of the calls to come: \<open>None\<close> for a write
  that succeeds, \<open>Some n\<close> for one that stops after \<open>n\<close> bytes. An operation returns \<open>None\<close> when
  it would leave defined behaviour; otherwise the reported error, \<open>None\<close> for success, with the
  heap and the output after it.
\<close>

section \<open>Streams\<close>

record stream =
  written :: string
  answers :: "nat option list"

definition fwrite :: "string \<Rightarrow> stream \<Rightarrow> bool \<times> stream" where
  "fwrite bytes st =
     (case answers st of
        [] \<Rightarrow> (True, st\<lparr>written := written st @ bytes\<rparr>)
      | a # rest \<Rightarrow>
          (let n = (case a of None \<Rightarrow> length bytes | Some n \<Rightarrow> min n (length bytes))
           in (n = length bytes, \<lparr>written = written st @ take n bytes, answers = rest\<rparr>)))"

definition fflush :: "stream \<Rightarrow> bool \<times> stream" where
  "fflush st =
     (case answers st of
        [] \<Rightarrow> (True, st)
      | a # rest \<Rightarrow> (a = None, st\<lparr>answers := rest\<rparr>))"

section \<open>The output and its errors\<close>

text \<open>
  \<open>unfinished_tids\<close> holds the thread ids below \<open>unfinished_count\<close>; \<open>unfinished_capacity\<close> is the
  size of the array.
\<close>

record sg_output =
  out_stream :: stream
  out_decoder :: sg_decoder
  out_format :: sg_output_format
  unfinished_tids :: "int list"
  unfinished_count :: u64
  unfinished_capacity :: u64
  show_tids :: bool
  out_summary :: bool

datatype output_error =
    Out_No_Memory
  | Out_Write_Failed
  | Out_Cannot_Render int
  | Out_No_Metadata
  | Out_No_Event
  | Out_No_Sorted
  | Out_No_Summary
  | Out_Flush_Failed

type_synonym out_result = "(output_error option \<times> heap \<times> sg_output) option"

section \<open>Pieces of text\<close>

definition append_json_byte :: "char \<Rightarrow> emitter" where
  "append_json_byte c =
     (if c = CHR 0x22 \<or> c = CHR 0x5C then (\<lambda>h b. sg_buffer_append h b (Some [CHR 0x5C, c]) 2)
      else if c = CHR 0x08 then cstr [CHR 0x5C, CHR ''b'']
      else if c = CHR 0x0C then cstr [CHR 0x5C, CHR ''f'']
      else if c = CHR 0x0A then cstr [CHR 0x5C, CHR ''n'']
      else if c = CHR 0x0D then cstr [CHR 0x5C, CHR ''r'']
      else if c = CHR 0x09 then cstr [CHR 0x5C, CHR ''t'']
      else if (of_char c :: nat) < 0x20 then fmt ([CHR 0x5C, CHR ''u''] @ pad_zero 4 (hex_nat (of_char c)))
      else (\<lambda>h b. sg_buffer_append h b (Some [c]) 1))"

definition append_json_string :: "string \<Rightarrow> emitter" where
  "append_json_string value =
     and_then (cstr [CHR 0x22])
       (and_then (emit_all (map append_json_byte (c_str value))) (cstr [CHR 0x22]))"

definition append_tid_prefix :: "sg_output \<Rightarrow> sg_event \<Rightarrow> emitter" where
  "append_tid_prefix out event =
     (if show_tids out then fmt (''[pid '' @ dec_int (event_tid event) @ ''] '') else skip)"

text \<open>\<open>write_buffer\<close>: a newline, then the whole buffer to the stream, then a flush.\<close>

definition write_buffer :: "heap \<Rightarrow> sg_output \<Rightarrow> sg_buffer \<Rightarrow> out_result" where
  "write_buffer h out b =
     (case cstr [CHR 0x0A] h b of
        None \<Rightarrow> None
      | Some (ok, h', b') \<Rightarrow>
          if \<not> ok then Some (Some Out_No_Memory, h', out)
          else (case fwrite (buffer_text b') (out_stream out) of (ok1, st) \<Rightarrow>
            if \<not> ok1 then Some (Some Out_Write_Failed, h', out\<lparr>out_stream := st\<rparr>)
            else (case fflush st of (ok2, st') \<Rightarrow>
              Some (if ok2 then None else Some Out_Write_Failed, h', out\<lparr>out_stream := st'\<rparr>))))"

text \<open>
  The end of every writing function: \<open>r\<close> is the outcome of the appends to a fresh buffer,
  \<open>e\<close> the error they report; \<open>out\<close> is the output at this point.
\<close>

definition write_rendered ::
    "output_error \<Rightarrow> sg_output \<Rightarrow> (bool \<times> heap \<times> sg_buffer) option \<Rightarrow> out_result" where
  "write_rendered e out r =
     (case r of
        None \<Rightarrow> None
      | Some (ok, h, b) \<Rightarrow> if ok then write_buffer h out b else Some (Some e, h, out))"

section \<open>Unfinished calls\<close>

fun position_from :: "int list \<Rightarrow> int \<Rightarrow> nat \<Rightarrow> nat option" where
  "position_from [] t index = None"
| "position_from (x # xs) t index = (if x = t then Some index else position_from xs t (Suc index))"

definition unfinished_contains :: "sg_output \<Rightarrow> int \<Rightarrow> nat option" where
  "unfinished_contains out t = position_from (unfinished_tids out) t 0"

definition sizeof_pid :: u64 where
  "sizeof_pid = 4"

definition unfinished_add :: "heap \<Rightarrow> sg_output \<Rightarrow> int \<Rightarrow> bool \<times> heap \<times> sg_output" where
  "unfinished_add h out t =
     (let store = (\<lambda>o1. o1\<lparr>unfinished_tids := unfinished_tids o1 @ [t],
                           unfinished_count := unfinished_count o1 + 1\<rparr>)
      in if unfinished_contains out t \<noteq> None then (True, h, out)
         else if unfinished_count out < unfinished_capacity out then (True, h, store out)
         else let capacity = (if unfinished_capacity out = 0 then 8 else unfinished_capacity out * 2)
           in if capacity < unfinished_capacity out \<or> capacity > SIZE_MAX div sizeof_pid
              then (False, h, out)
              else case alloc h of (ok, h') \<Rightarrow>
                (if ok then (True, h', store (out\<lparr>unfinished_capacity := capacity\<rparr>))
                 else (False, h', out)))"

definition unfinished_remove :: "sg_output \<Rightarrow> int \<Rightarrow> bool \<times> sg_output" where
  "unfinished_remove out t =
     (case unfinished_contains out t of
        None \<Rightarrow> (False, out)
      | Some position \<Rightarrow>
          (let last = length (unfinished_tids out) - 1
           in (True, out\<lparr>unfinished_count := unfinished_count out - 1,
                 unfinished_tids := take last ((unfinished_tids out)[position := unfinished_tids out ! last])\<rparr>)))"

definition syscall_name :: "int \<Rightarrow> string" where
  "syscall_name number =
     (case sg_syscall_by_number number of
        Some d \<Rightarrow> sc_name d
      | None \<Rightarrow> ''syscall_'' @ dec_int number)"

section \<open>Text events\<close>

definition write_text_syscall :: "libc \<Rightarrow> heap \<Rightarrow> sg_output \<Rightarrow> sg_event \<Rightarrow> sg_syscall_event \<Rightarrow> out_result" where
  "write_text_syscall lc h out event syscall =
     (let t = event_tid event; failed = Out_Cannot_Render (ev_number syscall)
      in case append_tid_prefix out event h sg_buffer_init of
           None \<Rightarrow> None
         | Some (ok, h1, b1) \<Rightarrow>
             (let continue = (\<lambda>e. if ok then e h1 b1 else Some (False, h1, b1))
              in if \<not> ev_completed syscall then
                   (if unfinished_contains out t \<noteq> None then Some (None, h1, out)
                    else case continue (and_then (sg_decode_syscall_entry lc (out_decoder out) t syscall)
                                         (cstr '' <unfinished ...>'')) of
                           None \<Rightarrow> None
                         | Some (ok2, h2, b2) \<Rightarrow>
                             (if \<not> ok2 then write_rendered failed out (Some (False, h2, b2))
                              else case unfinished_add h2 out t of (ok3, h3, out') \<Rightarrow>
                                write_rendered failed out' (Some (ok3, h3, b2))))
                 else case unfinished_remove out t of (removed, out') \<Rightarrow>
                   if removed
                   then write_rendered failed out' (continue
                          (and_then (fmt (''<... '' @ syscall_name (ev_number syscall) @ '' resumed>)''))
                                    (sg_decode_syscall_result lc syscall)))
                   else write_rendered failed out' (continue
                          (sg_decode_syscall lc (out_decoder out) t syscall))))"

definition append_signal_name :: "libc \<Rightarrow> int \<Rightarrow> emitter" where
  "append_signal_name lc number =
     (case sigabbrev_np lc number of
        None \<Rightarrow> fmt (''signal '' @ dec_int number)
      | Some abbreviation \<Rightarrow> fmt (''SIG'' @ abbreviation))"

definition write_text_event :: "libc \<Rightarrow> heap \<Rightarrow> sg_output \<Rightarrow> sg_event \<Rightarrow> out_result" where
  "write_text_event lc h out event =
     (case event_data event of
        SG_EVENT_SYSCALL syscall \<Rightarrow> write_text_syscall lc h out event syscall
      | SG_EVENT_SIGNAL sig \<Rightarrow>
          write_rendered Out_No_Memory out
            (and_then (append_tid_prefix out event)
              (and_then (cstr ''--- '')
                (and_then (append_signal_name lc (signal_number sig))
                  (and_then (fmt ('' {si_code='' @ dec_int (signal_code sig) @ ''}''))
                    (and_then (if fault_address sig \<noteq> 0
                               then fmt ('' {si_addr=0x'' @ hex_nat (unat (fault_address sig)) @ ''}'') else skip)
                      (cstr '' ---''))))) h sg_buffer_init)
      | SG_EVENT_PROCESS_START life \<Rightarrow>
          write_rendered Out_No_Memory out
            (and_then (append_tid_prefix out event)
              (fmt (''+++ spawned '' @ dec_int (related_tid life) @ '' +++'')) h sg_buffer_init)
      | SG_EVENT_PROCESS_EXIT life \<Rightarrow>
          write_rendered Out_No_Memory (snd (unfinished_remove out (event_tid event)))
            (and_then (append_tid_prefix out event)
              (if signaled life
               then and_then (cstr ''+++ killed by '')
                      (and_then (append_signal_name lc (status life)) (cstr '' +++''))
               else fmt (''+++ exited with '' @ dec_int (status life) @ '' +++'')) h sg_buffer_init))"

section \<open>NDJSON events\<close>

text \<open>The duration of a call, without the overflow check of \<open>stats.c\<close>.\<close>

definition output_elapsed :: "sg_syscall_event \<Rightarrow> u64 option" where
  "output_elapsed event =
     (let seconds = tv_sec (ev_exited_at event) - tv_sec (ev_entered_at event);
          nanoseconds = tv_nsec (ev_exited_at event) - tv_nsec (ev_entered_at event)
      in if \<not> INT64_ok seconds \<or> \<not> INT64_ok nanoseconds then None
         else if seconds < 0 \<or> (seconds = 0 \<and> nanoseconds < 0) then Some 0
         else let (seconds, nanoseconds) =
                (if nanoseconds < 0 then (seconds - 1, nanoseconds + 1000000000)
                 else (seconds, nanoseconds))
           in Some (of_int seconds * 1000000000 + of_int nanoseconds))"

definition Q :: string where
  "Q = [CHR 0x22]"

definition SG_SCHEMA :: string where
  "SG_SCHEMA = ''sysgaze.trace/v1''"

definition timestamp_ns :: "timespec \<Rightarrow> u64" where
  "timestamp_ns at = (if tv_sec at < 0 then 0 else of_int (tv_sec at) * 1000000000 + of_int (tv_nsec at))"

definition append_json_header :: "string \<Rightarrow> sg_event option \<Rightarrow> emitter" where
  "append_json_header type event =
     and_then (cstr (''{'' @ Q @ ''schema'' @ Q @ '':'' @ Q))
      (and_then (cstr SG_SCHEMA)
       (and_then (cstr (Q @ '','' @ Q @ ''type'' @ Q @ '':''))
        (and_then (append_json_string type)
          (case event of
             None \<Rightarrow> skip
           | Some ev \<Rightarrow>
               fmt ('','' @ Q @ ''tid'' @ Q @ '':'' @ dec_int (event_tid ev) @ '','' @ Q @ ''tgid'' @ Q @ '':'' @
                    dec_int (event_tgid ev) @ '','' @ Q @ ''timestamp_ns'' @ Q @ '':'' @ Q @
                    dec_nat (unat (timestamp_ns (observed_at ev))) @ Q)))))"

definition json_arguments :: "sg_syscall_event \<Rightarrow> emitter" where
  "json_arguments syscall =
     emit_all (map (\<lambda>index. and_then (if index = 0 then skip else cstr '','')
       (if index < length (ev_arguments syscall)
        then fmt (Q @ ''0x'' @ hex_nat (unat (ev_arguments syscall ! index)) @ Q)
        else (\<lambda>h b. None))) [0..<ev_argument_count syscall])"

text \<open>The record of a call once its text is known.\<close>

definition json_syscall_body :: "libc \<Rightarrow> sg_event \<Rightarrow> sg_syscall_event \<Rightarrow> string \<Rightarrow> emitter" where
  "json_syscall_body lc event syscall line =
     and_then (append_json_header ''syscall'' (Some event))
      (and_then (fmt ('','' @ Q @ ''number'' @ Q @ '':'' @ Q @ dec_int (ev_number syscall) @ Q @
                      '','' @ Q @ ''name'' @ Q @ '':''))
      (and_then (append_json_string (syscall_name (ev_number syscall)))
      (and_then (cstr ('','' @ Q @ ''arguments'' @ Q @ '':[''))
      (and_then (json_arguments syscall)
      (and_then (fmt (''],'' @ Q @ ''result'' @ Q @ '':'' @ Q @ dec_int (ev_result syscall) @ Q @
                      '','' @ Q @ ''error'' @ Q @ '':''))
      (and_then (if ev_error_number syscall = 0 then cstr ''null''
                 else and_then (fmt (''{'' @ Q @ ''number'' @ Q @ '':'' @ dec_int (ev_error_number syscall) @
                                     '','' @ Q @ ''name'' @ Q @ '':''))
                   (and_then (case strerrorname_np lc (ev_error_number syscall) of
                                None \<Rightarrow> cstr ''null'' | Some name \<Rightarrow> append_json_string name)
                     (cstr ''}'')))
      (and_then (case output_elapsed syscall of
                   None \<Rightarrow> (\<lambda>h b. None)
                 | Some ns \<Rightarrow> fmt ('','' @ Q @ ''duration_ns'' @ Q @ '':'' @ Q @ dec_nat (unat ns) @ Q @
                                  '','' @ Q @ ''text'' @ Q @ '':''))
      (and_then (append_json_string line)
        (cstr ''}'')))))))))"

definition append_json_syscall :: "libc \<Rightarrow> sg_output \<Rightarrow> sg_event \<Rightarrow> sg_syscall_event \<Rightarrow> emitter" where
  "append_json_syscall lc out event syscall h b =
     (case sg_decode_syscall lc (out_decoder out) (event_tid event) syscall h sg_buffer_init of
        None \<Rightarrow> None
      | Some (ok, h1, text) \<Rightarrow>
          if \<not> ok then Some (False, h1, b)
          else json_syscall_body lc event syscall (buffer_text text) h1 b)"

definition append_json_event :: "libc \<Rightarrow> sg_output \<Rightarrow> sg_event \<Rightarrow> emitter" where
  "append_json_event lc out event =
     (case event_data event of
        SG_EVENT_SYSCALL syscall \<Rightarrow> append_json_syscall lc out event syscall
      | SG_EVENT_SIGNAL sig \<Rightarrow>
          and_then (append_json_header ''signal'' (Some event))
           (and_then (fmt ('','' @ Q @ ''number'' @ Q @ '':'' @ dec_int (signal_number sig) @
                           '','' @ Q @ ''name'' @ Q @ '':''))
           (and_then (case sigabbrev_np lc (signal_number sig) of
                        None \<Rightarrow> cstr ''null'' | Some abbreviation \<Rightarrow> fmt (Q @ ''SIG'' @ abbreviation @ Q))
           (and_then (fmt ('','' @ Q @ ''code'' @ Q @ '':'' @ dec_int (signal_code sig) @
                           '','' @ Q @ ''fault_address'' @ Q @ '':''))
             (if fault_address sig = 0 then cstr ''null}''
              else fmt (Q @ ''0x'' @ hex_nat (unat (fault_address sig)) @ Q @ ''}'')))))
      | SG_EVENT_PROCESS_START life \<Rightarrow>
          and_then (append_json_header ''process-start'' (Some event))
            (fmt ('','' @ Q @ ''child_tid'' @ Q @ '':'' @ dec_int (related_tid life) @ '','' @ Q @ ''ptrace_event'' @
                  Q @ '':'' @ dec_nat (unat (ptrace_event life)) @ ''}''))
      | SG_EVENT_PROCESS_EXIT life \<Rightarrow>
          and_then (append_json_header ''process-exit'' (Some event))
            (fmt ('','' @ Q @ ''status'' @ Q @ '':'' @ dec_int (status life) @ '','' @ Q @ ''signaled'' @
                  Q @ '':'' @ (if signaled life then ''true'' else ''false'') @ ''}'')))"

section \<open>The interface of the output\<close>

definition sg_output_init ::
    "heap \<Rightarrow> stream \<Rightarrow> sg_output_format \<Rightarrow> sg_decoder \<Rightarrow> bool \<Rightarrow> bool \<Rightarrow> out_result" where
  "sg_output_init h st format decoder tids summarize =
     (let out = \<lparr>out_stream = st, out_decoder = decoder, out_format = format, unfinished_tids = [],
            unfinished_count = 0, unfinished_capacity = 0, show_tids = tids, out_summary = summarize\<rparr>
      in if format = SG_FORMAT_TEXT \<or> summarize then Some (None, h, out)
         else write_rendered Out_No_Metadata out
           (and_then (append_json_header ''metadata'' None)
             (cstr ('','' @ Q @ ''architecture'' @ Q @ '':'' @ Q @ ''x86_64'' @ Q @ '','' @ Q @ ''format'' @ Q @ '':'' @
                    Q @ ''ndjson'' @ Q @ ''}'')) h sg_buffer_init))"

definition is_unfinished_syscall :: "sg_event \<Rightarrow> bool" where
  "is_unfinished_syscall event =
     (case event_data event of SG_EVENT_SYSCALL syscall \<Rightarrow> \<not> ev_completed syscall | _ \<Rightarrow> False)"

definition sg_output_write_event :: "libc \<Rightarrow> heap \<Rightarrow> sg_output \<Rightarrow> sg_event \<Rightarrow> out_result" where
  "sg_output_write_event lc h out event =
     (if out_summary out then Some (None, h, out)
      else if out_format out = SG_FORMAT_TEXT then write_text_event lc h out event
      else if is_unfinished_syscall event then Some (None, h, out)
      else write_rendered Out_No_Event out (append_json_event lc out event h sg_buffer_init))"

definition sg_output_migrate_tid :: "sg_output \<Rightarrow> int \<Rightarrow> int \<Rightarrow> sg_output" where
  "sg_output_migrate_tid out former current =
     (if former = current then out
      else case unfinished_contains out former of
             None \<Rightarrow> out
           | Some position \<Rightarrow>
               if unfinished_contains out current \<noteq> None then snd (unfinished_remove out former)
               else out\<lparr>unfinished_tids := (unfinished_tids out)[position := current]\<rparr>)"

section \<open>Summaries\<close>

definition rule_line :: string where
  "rule_line = ''------ ----------- ----------- --------- --------- ----------------'' @ [CHR 0x0A]"

definition title_line :: string where
  "title_line = ''% time     seconds  usecs/call     calls    errors syscall'' @ [CHR 0x0A]"

definition percent_of :: "sg_stats \<Rightarrow> sg_syscall_stat \<Rightarrow> double" where
  "percent_of stats row =
     (if total_nanoseconds stats = 0 then (0, 1)
      else double_divide (double_times (double_of (nanoseconds row)) 100) (double_of (total_nanoseconds stats)))"

definition seconds_of :: "u64 \<Rightarrow> double" where
  "seconds_of ns = double_divide (double_of ns) (1000000000, 1)"

definition text_row :: "sg_stats \<Rightarrow> sg_syscall_stat \<Rightarrow> string" where
  "text_row stats row =
     (let microseconds = (if calls row = 0 then 0 else nanoseconds row div calls row div 1000)
      in pad_left 6 (fixed_format 2 (percent_of stats row)) @ '' '' @
         pad_left 11 (fixed_format 6 (seconds_of (nanoseconds row))) @ '' '' @
         pad_left 11 (dec_nat (unat microseconds)) @ '' '' @
         pad_left 9 (dec_nat (unat (calls row))) @ '' '' @
         pad_left 9 (dec_nat (unat (errors row))) @ '' '' @ syscall_name (st_number row) @ [CHR 0x0A])"

definition total_row :: "sg_stats \<Rightarrow> string" where
  "total_row stats =
     pad_left 6 (fixed_format 2 (if total_nanoseconds stats = 0 then (0, 1) else (100, 1))) @ '' '' @
     pad_left 11 (fixed_format 6 (seconds_of (total_nanoseconds stats))) @ '' '' @ pad_left 11 [] @ '' '' @
     pad_left 9 (dec_nat (unat (total_calls stats))) @ '' '' @
     pad_left 9 (dec_nat (unat (total_errors stats))) @ '' total''"

definition text_summary_body :: "sg_stats \<Rightarrow> sg_syscall_stat list \<Rightarrow> emitter" where
  "text_summary_body stats rows =
     and_then (cstr (title_line @ rule_line))
      (and_then (emit_all (map (\<lambda>row. fmt (text_row stats row)) rows))
       (and_then (cstr rule_line) (fmt (total_row stats))))"

definition write_text_summary :: "heap \<Rightarrow> sg_output \<Rightarrow> sg_stats \<Rightarrow> out_result" where
  "write_text_summary h out stats =
     (case sg_stats_sorted_copy h stats of
        ((ok, rows, n), h1) \<Rightarrow>
          if \<not> ok then Some (Some Out_No_Sorted, h1, out)
          else write_rendered Out_No_Summary out (text_summary_body stats rows h1 sg_buffer_init))"

definition append_json_row :: "sg_stats \<Rightarrow> sg_syscall_stat \<Rightarrow> emitter" where
  "append_json_row stats row =
     (let average = (if calls row = 0 then 0 else nanoseconds row div calls row)
      in and_then (fmt (''{'' @ Q @ ''number'' @ Q @ '':'' @ Q @ dec_int (st_number row) @ Q @ '','' @ Q @ ''name'' @ Q @ '':''))
          (and_then (append_json_string (syscall_name (st_number row)))
            (fmt ('','' @ Q @ ''calls'' @ Q @ '':'' @ Q @ dec_nat (unat (calls row)) @ Q @
                  '','' @ Q @ ''errors'' @ Q @ '':'' @ Q @ dec_nat (unat (errors row)) @ Q @
                  '','' @ Q @ ''nanoseconds'' @ Q @ '':'' @ Q @ dec_nat (unat (nanoseconds row)) @ Q @
                  '','' @ Q @ ''average_nanoseconds'' @ Q @ '':'' @ Q @ dec_nat (unat average) @ Q @
                  '','' @ Q @ ''percent'' @ Q @ '':'' @ Q @ fixed_format 2 (percent_of stats row) @ Q @ ''}''))))"

definition json_summary_body :: "sg_stats \<Rightarrow> sg_syscall_stat list \<Rightarrow> emitter" where
  "json_summary_body stats rows =
     and_then (fmt (''{'' @ Q @ ''schema'' @ Q @ '':'' @ Q @ ''sysgaze.summary/v1'' @ Q @ '','' @
                    Q @ ''type'' @ Q @ '':'' @ Q @ ''summary'' @ Q @ '','' @
                    Q @ ''total_calls'' @ Q @ '':'' @ Q @ dec_nat (unat (total_calls stats)) @ Q @ '','' @
                    Q @ ''total_errors'' @ Q @ '':'' @ Q @ dec_nat (unat (total_errors stats)) @ Q @ '','' @
                    Q @ ''total_nanoseconds'' @ Q @ '':'' @ Q @ dec_nat (unat (total_nanoseconds stats)) @ Q @ '','' @
                    Q @ ''syscalls'' @ Q @ '':[''))
      (and_then (emit_all (map (\<lambda>index. and_then (if index = 0 then skip else cstr '','')
                   (append_json_row stats (rows ! index))) [0..<length rows]))
        (cstr '']}''))"

definition write_json_summary :: "heap \<Rightarrow> sg_output \<Rightarrow> sg_stats \<Rightarrow> out_result" where
  "write_json_summary h out stats =
     (case sg_stats_sorted_copy h stats of
        ((ok, rows, n), h1) \<Rightarrow>
          if \<not> ok then Some (Some Out_No_Sorted, h1, out)
          else write_rendered Out_No_Summary out (json_summary_body stats rows h1 sg_buffer_init))"

definition sg_output_write_summary :: "heap \<Rightarrow> sg_output \<Rightarrow> sg_stats \<Rightarrow> out_result" where
  "sg_output_write_summary h out stats =
     (if \<not> out_summary out then Some (None, h, out)
      else if out_format out = SG_FORMAT_TEXT then write_text_summary h out stats
      else write_json_summary h out stats)"

definition sg_output_finish :: "sg_output \<Rightarrow> output_error option \<times> sg_output" where
  "sg_output_finish out =
     (case fflush (out_stream out) of (ok, st) \<Rightarrow>
        (if ok then None else Some Out_Flush_Failed, out\<lparr>out_stream := st\<rparr>))"

text \<open>
  \<open>sg_output_destroy\<close> frees the array and zeroes the structure; what the pointers to the stream
  and the decoder referred to belongs to the caller and stays.
\<close>

definition sg_output_destroy :: "sg_output \<Rightarrow> sg_output" where
  "sg_output_destroy out =
     out\<lparr>out_format := SG_FORMAT_TEXT, unfinished_tids := [], unfinished_count := 0,
       unfinished_capacity := 0, show_tids := False, out_summary := False\<rparr>"

section \<open>The unfinished calls as a set\<close>

text \<open>
  The interface the text output relies on: membership, insertion and removal of thread ids in a
  collection with a representation invariant. The laws are those of a finite set; insertion may
  be refused. A sequence of operations then behaves as on a set.
\<close>

locale tid_collection =
  fixes holds :: "'s \<Rightarrow> bool"
    and members :: "'s \<Rightarrow> int set"
    and has :: "'s \<Rightarrow> int \<Rightarrow> bool"
    and add :: "heap \<Rightarrow> 's \<Rightarrow> int \<Rightarrow> bool \<times> heap \<times> 's"
    and remove :: "'s \<Rightarrow> int \<Rightarrow> bool \<times> 's"
  assumes has_iff: "holds s \<Longrightarrow> has s t \<longleftrightarrow> t \<in> members s"
    and add_law: "holds s \<Longrightarrow> add h s t = (ok, h', s') \<Longrightarrow>
      holds s' \<and> suffix h' h \<and> members s' = (if ok then insert t (members s) else members s)"
    and remove_law: "holds s \<Longrightarrow> remove s t = (found, s') \<Longrightarrow>
      holds s' \<and> found = (t \<in> members s) \<and> members s' = members s - {t}"
begin

lemma add_then_has: "holds s \<Longrightarrow> add h s t = (True, h', s') \<Longrightarrow> has s' u \<longleftrightarrow> u = t \<or> has s u"
  using add_law [of s h t True h' s'] by (auto simp: has_iff)

lemma remove_then_has: "holds s \<Longrightarrow> remove s t = (found, s') \<Longrightarrow> has s' u \<longleftrightarrow> u \<noteq> t \<and> has s u"
  using remove_law [of s t found s'] by (auto simp: has_iff)

lemma remove_found: "holds s \<Longrightarrow> fst (remove s t) = has s t"
  using remove_law [of s t "fst (remove s t)" "snd (remove s t)"] by (simp add: has_iff)

lemma remove_snd: "holds s \<Longrightarrow> holds (snd (remove s t)) \<and> members (snd (remove s t)) = members s - {t}"
  using remove_law [of s t "fst (remove s t)" "snd (remove s t)"] by simp

lemma add_remove: "holds s \<Longrightarrow> \<not> has s t \<Longrightarrow> add h s t = (True, h', s') \<Longrightarrow>
    fst (remove s' t) \<and> members (snd (remove s' t)) = members s"
  using add_law [of s h t True h' s'] remove_snd [of s' t] remove_found [of s' t] by (auto simp: has_iff)

end

definition output_wf :: "sg_output \<Rightarrow> bool" where
  "output_wf out \<longleftrightarrow> distinct (unfinished_tids out) \<and>
     unat (unfinished_count out) = length (unfinished_tids out) \<and>
     unat (unfinished_count out) \<le> unat (unfinished_capacity out) \<and>
     unat (unfinished_capacity out) \<le> 4611686018427387903"

definition unfinished :: "sg_output \<Rightarrow> int set" where
  "unfinished out = set (unfinished_tids out)"

lemma position_from_Some:
  "position_from xs t k = Some i \<Longrightarrow> k \<le> i \<and> i - k < length xs \<and> xs ! (i - k) = t"
proof (induction xs arbitrary: k)
  case (Cons x xs)
  show ?case
  proof (cases "x = t")
    case False
    then have "Suc k \<le> i \<and> i - Suc k < length xs \<and> xs ! (i - Suc k) = t" using Cons by simp
    then show ?thesis by (cases i) (auto simp: Suc_diff_le)
  qed (use Cons.prems in auto)
qed simp

lemma position_from_None: "position_from xs t k = None \<longleftrightarrow> t \<notin> set xs"
  by (induction xs arbitrary: k) auto

lemma contains_iff: "unfinished_contains out t \<noteq> None \<longleftrightarrow> t \<in> unfinished out"
  by (simp add: unfinished_contains_def unfinished_def position_from_None)

lemma swap_remove:
  assumes "distinct xs" and "i < length xs"
  defines "ys \<equiv> take (length xs - 1) (xs[i := xs ! (length xs - 1)])"
  shows "distinct ys" and "set ys = set xs - {xs ! i}" and "length ys = length xs - 1"
proof -
  obtain zs z where xs: "xs = zs @ [z]" using assms(2) by (cases xs rule: rev_cases) auto
  have ys: "ys = (if i < length zs then zs[i := z] else zs)"
    using assms(2) by (auto simp: ys_def xs list_update_append)
  show "length ys = length xs - 1" by (simp add: ys xs)
  show "distinct ys" "set ys = set xs - {xs ! i}"
    using assms(1,2) by (auto simp: ys xs nth_append distinct_list_update set_update_distinct)
qed

lemma contains_Some:
  "unfinished_contains out t = Some i \<Longrightarrow> i < length (unfinished_tids out) \<and> unfinished_tids out ! i = t"
  using position_from_Some [of "unfinished_tids out" t 0 i] by (simp add: unfinished_contains_def)

lemma unfinished_add_law:
  assumes wf: "output_wf out" and add: "unfinished_add h out t = (ok, h', out')"
  shows "output_wf out' \<and> suffix h' h \<and>
    unfinished out' = (if ok then insert t (unfinished out) else unfinished out)"
proof (cases "t \<in> unfinished out")
  case True
  then show ?thesis
    using assms contains_iff [of out t] by (auto simp: unfinished_add_def Let_def)
next
  case False
  then have none: "unfinished_contains out t = None" using contains_iff [of out t] by simp
  let ?store = "\<lambda>o1. o1\<lparr>unfinished_tids := unfinished_tids o1 @ [t], unfinished_count := unfinished_count o1 + 1\<rparr>"
  have store: "output_wf (?store out1) \<and> unfinished (?store out1) = insert t (unfinished out)"
    if "output_wf out1" "unfinished_tids out1 = unfinished_tids out" "unat (unfinished_count out1) < unat (unfinished_capacity out1)"
    for out1
  proof -
    have "unat (unfinished_count out1 + 1) = unat (unfinished_count out1) + 1"
      using that(3) unat_lt_u64 [of "unfinished_capacity out1"] by (subst unat_add_no_wrap) simp_all
    with that False show ?thesis by (auto simp: output_wf_def unfinished_def)
  qed
  show ?thesis
  proof (cases "unfinished_count out < unfinished_capacity out")
    case True
    then show ?thesis using store [OF wf refl] none add
      by (auto simp: unfinished_add_def Let_def word_less_nat_alt)
  next
    case full: False
    define c where "c = (if unfinished_capacity out = 0 then 8 else unfinished_capacity out * 2)"
    have small: "unat (unfinished_capacity out) \<le> 4611686018427387903" using wf by (simp add: output_wf_def)
    then have c: "unat c = (if unfinished_capacity out = 0 then 8 else 2 * unat (unfinished_capacity out))"
      by (auto simp: c_def unat_mult_no_wrap)
    have grown: "unat (unfinished_count out) < unat c"
      using wf c unat_gt_0 [of "unfinished_capacity out"] by (cases "unfinished_capacity out = 0") (auto simp: output_wf_def)
    show ?thesis
    proof (cases "c < unfinished_capacity out \<or> c > SIZE_MAX div sizeof_pid")
      case True
      then show ?thesis using full none add wf
        by (auto simp: unfinished_add_def Let_def simp flip: c_def)
    next
      case False
      obtain ok1 h1 where a: "alloc h = (ok1, h1)" by (cases "alloc h")
      have "unat c \<le> 4611686018427387903"
        using False by (simp add: word_le_nat_alt word_less_nat_alt sizeof_pid_def unat_div)
      then have "output_wf (out\<lparr>unfinished_capacity := c\<rparr>)"
        using wf grown by (simp add: output_wf_def)
      from store [OF this] grown alloc_suffix [OF a] full none False add a wf show ?thesis
        by (auto simp: unfinished_add_def Let_def simp flip: c_def split: if_splits)
    qed
  qed
qed

lemma unfinished_remove_law:
  assumes wf: "output_wf out" and rm: "unfinished_remove out t = (found, out')"
  shows "output_wf out' \<and> found = (t \<in> unfinished out) \<and> unfinished out' = unfinished out - {t}"
proof (cases "unfinished_contains out t")
  case None
  then show ?thesis using assms contains_iff [of out t] by (auto simp: unfinished_remove_def)
next
  case (Some i)
  note i = contains_Some [OF Some]
  have d: "distinct (unfinished_tids out)" using wf by (simp add: output_wf_def)
  define ys where "ys = take (length (unfinished_tids out) - 1)
        ((unfinished_tids out)[i := unfinished_tids out ! (length (unfinished_tids out) - 1)])"
  have ys: "distinct ys" "set ys = unfinished out - {t}" "length ys = length (unfinished_tids out) - 1"
    using swap_remove [OF d conjunct1 [OF i]] i unfolding ys_def unfinished_def by simp_all
  have pos: "0 < length (unfinished_tids out)" using i by auto
  have cnt: "unat (unfinished_count out - 1) = length (unfinished_tids out) - 1"
    using wf pos by (subst unat_sub_no_wrap) (auto simp: output_wf_def Suc_le_eq)
  have t: "t \<in> unfinished out" using contains_iff [of out t] Some by simp
  have out': "found" "out' = out\<lparr>unfinished_count := unfinished_count out - 1, unfinished_tids := ys\<rparr>"
    using Some rm by (simp_all add: unfinished_remove_def Let_def ys_def)
  have "unfinished out' = unfinished out - {t}" using ys(2) by (simp add: out'(2) unfinished_def)
  moreover have "output_wf out'" using ys(1,3) cnt wf by (simp add: out'(2) output_wf_def) linarith
  ultimately show ?thesis using out'(1) t by simp
qed

interpretation calls: tid_collection output_wf unfinished
  "\<lambda>out t. unfinished_contains out t \<noteq> None" unfinished_add unfinished_remove
  by unfold_locales (use contains_iff unfinished_add_law unfinished_remove_law in blast)+

section \<open>Writing a line\<close>

text \<open>
  \<open>writes_line h out s r\<close>: the result \<open>r\<close> of writing the line \<open>s\<close> to \<open>out\<close>. Only the stream
  changes, by a prefix of the line and its newline, the whole of it on success; and it succeeds
  when no allocation and no write fails.
\<close>

definition writes_line :: "heap \<Rightarrow> sg_output \<Rightarrow> string \<Rightarrow> out_result \<Rightarrow> bool" where
  "writes_line h out s r \<longleftrightarrow>
     (\<exists>e h' st p. r = Some (e, h', out\<lparr>out_stream := st\<rparr>) \<and> suffix h' h \<and>
        written st = written (out_stream out) @ p \<and> prefix p (s @ [CHR 0x0A]) \<and>
        (e = None \<longrightarrow> p = s @ [CHR 0x0A]) \<and>
        (answers (out_stream out) = [] \<longrightarrow> answers st = []) \<and>
        (h = [] \<and> answers (out_stream out) = [] \<and> length s + 2 < 2 ^ 64 \<longrightarrow> e = None))"

lemma fwrite_outcome:
  assumes "fwrite bytes st = (ok, st')"
  shows "\<exists>p. written st' = written st @ p \<and> prefix p bytes \<and> (ok \<longrightarrow> p = bytes) \<and>
    (answers st = [] \<longrightarrow> ok \<and> answers st' = [])"
proof (cases "answers st")
  case Nil
  then show ?thesis using assms by (auto simp: fwrite_def)
next
  case (Cons a rest)
  define n where "n = (case a of None \<Rightarrow> length bytes | Some n \<Rightarrow> min n (length bytes))"
  have "ok = (n = length bytes)" "written st' = written st @ take n bytes"
    using assms Cons by (auto simp: fwrite_def n_def Let_def)
  then show ?thesis using Cons by (intro exI [of _ "take n bytes"]) (auto simp: take_is_prefix)
qed

lemma fflush_outcome:
  assumes "fflush st = (ok, st')"
  shows "written st' = written st \<and> (answers st = [] \<longrightarrow> ok \<and> answers st' = [])"
  using assms by (cases "answers st") (auto simp: fflush_def)

lemma write_buffer_line:
  assumes wf: "buffer_wf b" and b: "buffer_text b = s"
  shows "writes_line h out s (write_buffer h out b)"
proof -
  have "appended h b [CHR 0x0A] (cstr [CHR 0x0A] h b)"
    using renders_cstr [of "[CHR 0x0A]"] wf by (simp add: renders_def)
  then obtain ok h' b' p where c: "cstr [CHR 0x0A] h b = Some (ok, h', b')" "suffix h' h"
      "buffer_text b' = s @ p" "ok \<longrightarrow> p = [CHR 0x0A]"
      "h = [] \<and> length s + 2 < 2 ^ 64 \<longrightarrow> ok"
    by (rule appendedE) (simp add: b)
  show ?thesis
  proof (cases ok)
    case False
    with c show ?thesis unfolding writes_line_def
      by (intro exI [of _ "Some Out_No_Memory"] exI [of _ h'] exI [of _ "out_stream out"] exI [of _ "[]"])
        (auto simp: write_buffer_def)
  next
    case True
    obtain ok1 st1 where w: "fwrite (s @ [CHR 0x0A]) (out_stream out) = (ok1, st1)" by fastforce
    obtain ok2 st2 where f: "fflush st1 = (ok2, st2)" by fastforce
    obtain q where q: "written st1 = written (out_stream out) @ q" "prefix q (s @ [CHR 0x0A])"
        "ok1 \<longrightarrow> q = s @ [CHR 0x0A]" "answers (out_stream out) = [] \<longrightarrow> ok1 \<and> answers st1 = []"
      using fwrite_outcome [OF w] by blast
    note ff = fflush_outcome [OF f]
    have res: "write_buffer h out b =
        (if ok1 then Some (if ok2 then None else Some Out_Write_Failed, h', out\<lparr>out_stream := st2\<rparr>)
         else Some (Some Out_Write_Failed, h', out\<lparr>out_stream := st1\<rparr>))"
      using c True w f by (simp add: write_buffer_def)
    show ?thesis
    proof (cases ok1)
      case True
      with res q ff c(2) show ?thesis unfolding writes_line_def
        by (intro exI [of _ "if ok2 then None else Some Out_Write_Failed"] exI [of _ h'] exI [of _ st2] exI [of _ q]) auto
    next
      case False
      with res q c(2) show ?thesis unfolding writes_line_def
        by (intro exI [of _ "Some Out_Write_Failed"] exI [of _ h'] exI [of _ st1] exI [of _ q]) auto
    qed
  qed
qed

lemma writes_line_fails:
  assumes "suffix h' h" and "h = [] \<Longrightarrow> answers (out_stream out) = [] \<Longrightarrow> length s + 2 < 2 ^ 64 \<Longrightarrow> False"
  shows "writes_line h out s (Some (Some e, h', out))"
  unfolding writes_line_def
  by (intro exI [of _ "Some e"] exI [of _ h'] exI [of _ "out_stream out"] exI [of _ "[]"]) (use assms in auto)

lemma writes_line_suffix:
  assumes "writes_line h' out s r" and "suffix h' h"
  shows "writes_line h out s r"
proof -
  have h: "h = [] \<Longrightarrow> h' = []" using assms(2) by simp
  obtain e h2 st p where r: "r = Some (e, h2, out\<lparr>out_stream := st\<rparr>)" "suffix h2 h'"
      "written st = written (out_stream out) @ p" "prefix p (s @ [CHR 0x0A])" "e = None \<longrightarrow> p = s @ [CHR 0x0A]"
      "answers (out_stream out) = [] \<longrightarrow> answers st = []"
      "h' = [] \<and> answers (out_stream out) = [] \<and> length s + 2 < 2 ^ 64 \<longrightarrow> e = None"
    using assms(1) unfolding writes_line_def by blast
  then show ?thesis unfolding writes_line_def
    using h assms(2) suffix_order.trans [OF r(2) assms(2)]
    by (intro exI [of _ e] exI [of _ h2] exI [of _ st] exI [of _ p]) simp
qed

lemma write_rendered_appended:
  assumes "appended h sg_buffer_init s r"
  shows "writes_line h out s (write_rendered e out r)"
proof -
  from assms obtain ok h' b p where r: "r = Some (ok, h', b)" "buffer_wf b" "suffix h' h"
      "buffer_text b = p" "ok \<longrightarrow> p = s" "h = [] \<and> length s + 1 < 2 ^ 64 \<longrightarrow> ok"
    by (rule appendedE) simp
  show ?thesis
  proof (cases ok)
    case True
    with r have "writes_line h' out s (write_buffer h' out b)" by (intro write_buffer_line) simp_all
    with r(3) show ?thesis using True by (auto simp: write_rendered_def r(1) intro: writes_line_suffix)
  next
    case False
    with r show ?thesis by (auto simp: write_rendered_def intro!: writes_line_fails)
  qed
qed

lemma write_rendered_line:
  "renders em s \<Longrightarrow> writes_line h out s (write_rendered e out (em h sg_buffer_init))"
  by (rule write_rendered_appended) (simp add: renders_def)

end
