(* ===== verification/Output_Log.thy ===== *)
theory Output_Log
  imports Output
begin

text \<open>
  The text output as an abstract log. The specification keeps a set of thread ids with an
  unfinished call and says for each event which line it adds, if any; \<open>sg_output_write_event\<close>
  implements it with the array of \<open>Output\<close>, through the interface \<open>tid_collection\<close>. A line is
  named by the emitter of its text, so that \<open>renders\<close> gives the text itself.
\<close>

section \<open>The abstract log\<close>

definition tid_prefix :: "bool \<Rightarrow> sg_event \<Rightarrow> emitter" where
  "tid_prefix tids event = (if tids then fmt (''[pid '' @ dec_int (event_tid event) @ ''] '') else skip)"

definition log_body :: "libc \<Rightarrow> sg_decoder \<Rightarrow> int set \<Rightarrow> sg_event \<Rightarrow> emitter option" where
  "log_body lc decoder S event =
     (let t = event_tid event
      in case event_data event of
           SG_EVENT_SYSCALL syscall \<Rightarrow>
             if \<not> ev_completed syscall
             then (if t \<in> S then None
                   else Some (and_then (sg_decode_syscall_entry lc decoder t syscall) (cstr '' <unfinished ...>'')))
             else if t \<in> S
             then Some (and_then (fmt (''<... '' @ syscall_name (ev_number syscall) @ '' resumed>)''))
                          (sg_decode_syscall_result lc syscall))
             else Some (sg_decode_syscall lc decoder t syscall)
         | SG_EVENT_SIGNAL sig \<Rightarrow>
             Some (and_then (cstr ''--- '')
               (and_then (append_signal_name lc (signal_number sig))
                 (and_then (fmt ('' {si_code='' @ dec_int (signal_code sig) @ ''}''))
                   (and_then (if fault_address sig \<noteq> 0
                              then fmt ('' {si_addr=0x'' @ hex_nat (unat (fault_address sig)) @ ''}'') else skip)
                     (cstr '' ---'')))))
         | SG_EVENT_PROCESS_START life \<Rightarrow>
             Some (fmt (''+++ spawned '' @ dec_int (related_tid life) @ '' +++''))
         | SG_EVENT_PROCESS_EXIT life \<Rightarrow>
             Some (if signaled life
                   then and_then (cstr ''+++ killed by '')
                          (and_then (append_signal_name lc (status life)) (cstr '' +++''))
                   else fmt (''+++ exited with '' @ dec_int (status life) @ '' +++'')))"

definition log_line :: "libc \<Rightarrow> sg_decoder \<Rightarrow> bool \<Rightarrow> int set \<Rightarrow> sg_event \<Rightarrow> emitter option" where
  "log_line lc decoder tids S event =
     map_option (\<lambda>body. and_then (tid_prefix tids event) body) (log_body lc decoder S event)"

definition log_next :: "int set \<Rightarrow> sg_event \<Rightarrow> int set" where
  "log_next S event =
     (case event_data event of
        SG_EVENT_SYSCALL syscall \<Rightarrow>
          if ev_completed syscall then S - {event_tid event} else insert (event_tid event) S
      | SG_EVENT_PROCESS_EXIT life \<Rightarrow> S - {event_tid event}
      | _ \<Rightarrow> S)"

section \<open>Every line is a text\<close>

definition in_long :: "int \<Rightarrow> bool" where
  "in_long i \<longleftrightarrow> LONG_MIN \<le> i \<and> i \<le> LONG_MAX"

definition sg_event_ok :: "sg_event \<Rightarrow> bool" where
  "sg_event_ok event \<longleftrightarrow> in_long (event_tid event) \<and> in_long (event_tgid event) \<and>
     (case event_data event of
        SG_EVENT_SYSCALL syscall \<Rightarrow> event_ok syscall
      | SG_EVENT_SIGNAL sig \<Rightarrow> in_long (signal_number sig) \<and> in_long (signal_code sig)
      | SG_EVENT_PROCESS_START life \<Rightarrow> in_long (related_tid life)
      | SG_EVENT_PROCESS_EXIT life \<Rightarrow> in_long (status life))"

lemma in_long_length: "in_long i \<Longrightarrow> 65 \<le> k \<Longrightarrow> length (dec_int i) \<le> k"
  by (rule long_length) (simp_all add: in_long_def)

lemma syscall_name_ok:
  assumes "in_long n"
  shows "length (syscall_name n) \<le> 200" and "NUL \<notin> set (syscall_name n)" and "syscall_name n \<noteq> []"
proof -
  have name: "length (sc_name d) < 100 \<and> NUL \<notin> set (sc_name d) \<and> sc_name d \<noteq> []"
    if "sg_syscall_by_number n = Some d" for d
    using descriptor_in_catalog [OF that] catalog_names_short by (auto simp: list_all_iff descriptor_ok_def)
  note dec = in_long_length [OF assms, of 100]
  have "length (syscall_name n) \<le> 200 \<and> NUL \<notin> set (syscall_name n) \<and> syscall_name n \<noteq> []"
    using name dec by (cases "sg_syscall_by_number n") (fastforce simp: syscall_name_def)+
  then show "length (syscall_name n) \<le> 200" and "NUL \<notin> set (syscall_name n)" and "syscall_name n \<noteq> []"
    by blast+
qed

lemma writes1_signal_name:
  "libc_ok lc \<Longrightarrow> in_long i \<Longrightarrow> writes1 (append_signal_name lc i)"
  using libc_okD(1) [of lc i] in_long_length [of i 100]
  by (cases "sigabbrev_np lc i") (auto simp: append_signal_name_def intro!: writes1_fmt)

lemma writes1_decode:
  assumes "reader_ok decoder" "libc_ok lc" "event_ok e"
  shows "writes1 (sg_decode_syscall_entry lc decoder t e)" and "writes1 (sg_decode_syscall_result lc e)"
    and "writes1 (sg_decode_syscall lc decoder t e)"
proof -
  let ?d = "sg_syscall_by_number (ev_number e)"
  have arg: "writes (entry_argument lc decoder t ?d e i)" if "i < shown_argument_count e" for i
    using entry_argument_text [OF assms, of i t] that shown_count_le [OF assms(3)] by (auto simp: writes_def)
  have "writes1 (case ?d of None \<Rightarrow> fmt (''syscall_'' @ dec_int (ev_number e) @ ''('') | Some d \<Rightarrow> fmt (sc_name d @ ''(''))"
    using syscall_name_ok [of "ev_number e"] assms(3)
    by (auto simp: syscall_name_def event_ok_def in_long_def intro!: writes1_fmt split: option.splits)
  then show entry: "writes1 (sg_decode_syscall_entry lc decoder t e)"
    unfolding sg_decode_syscall_entry_def Let_def shown_argument_count_def [symmetric]
    by (intro writes1_and_then1 writes_emit_all)
      (auto intro!: writes_and_then arg writes_cstr writes_skip)
  have "NUL \<notin> set (result_text lc e)" "result_text lc e \<noteq> []"
    using libc_okD(2,3) [OF assms(2)] by (auto simp: result_text_def split: option.split)
  then show res: "writes1 (sg_decode_syscall_result lc e)"
    using renders_result [OF assms(2,3)] by (auto simp: writes1_def)
  show "writes1 (sg_decode_syscall lc decoder t e)"
    unfolding sg_decode_syscall_def
    by (intro writes1_and_then1 entry writes_and_then writes1_writes [OF res] writes_cstr) simp_all
qed

lemma writes_tid_prefix: "sg_event_ok ev \<Longrightarrow> writes (tid_prefix tids ev)"
  using in_long_length [of "event_tid ev" 100]
  by (auto simp: tid_prefix_def sg_event_ok_def intro!: writes_fmt writes_skip)

lemma writes1_log_body:
  assumes env: "reader_ok decoder" "libc_ok lc" and ev: "sg_event_ok ev"
    and body: "log_body lc decoder S ev = Some em"
  shows "writes1 em"
proof (cases "event_data ev")
  case (SG_EVENT_SYSCALL e)
  with ev have e: "event_ok e" by (simp add: sg_event_ok_def)
  then have n: "in_long (ev_number e)" by (simp add: event_ok_def in_long_def)
  note parts = writes1_decode [OF env e]
  have "writes1 (and_then (sg_decode_syscall_entry lc decoder t e) (cstr '' <unfinished ...>''))" for t
    by (intro writes1_and_then1 parts writes_cstr) simp_all
  moreover have "writes1 (and_then (fmt (''<... '' @ syscall_name (ev_number e) @ '' resumed>)''))
      (sg_decode_syscall_result lc e))"
    using syscall_name_ok [OF n] by (intro writes1_and_then1 writes1_fmt writes1_writes [OF parts(2)]) auto
  ultimately show ?thesis
    using body SG_EVENT_SYSCALL parts(3) by (auto simp: log_body_def Let_def split: if_splits)
next
  case (SG_EVENT_SIGNAL sig)
  with ev have "in_long (signal_number sig)" "length (dec_int (signal_code sig)) \<le> 100"
    using in_long_length [of "signal_code sig" 100] by (simp_all add: sg_event_ok_def)
  then have "writes1 (and_then (cstr ''--- '')
      (and_then (append_signal_name lc (signal_number sig))
        (and_then (fmt ('' {si_code='' @ dec_int (signal_code sig) @ ''}''))
          (and_then (if fault_address sig \<noteq> 0
                     then fmt ('' {si_addr=0x'' @ hex_nat (unat (fault_address sig)) @ ''}'') else skip)
            (cstr '' ---'')))))"
    by (intro writes1_and_then1 writes_and_then writes_if writes_cstr writes_fmt writes_skip
        writes1_writes [OF writes1_signal_name [OF env(2)]] writes1_cstr) simp_all
  with body SG_EVENT_SIGNAL show ?thesis by (simp add: log_body_def Let_def)
next
  case (SG_EVENT_PROCESS_START life)
  with ev have "length (dec_int (related_tid life)) \<le> 100"
    using in_long_length [of "related_tid life" 100] by (simp add: sg_event_ok_def)
  with body SG_EVENT_PROCESS_START show ?thesis by (auto simp: log_body_def intro!: writes1_fmt)
next
  case (SG_EVENT_PROCESS_EXIT life)
  with ev have s: "in_long (status life)" "length (dec_int (status life)) \<le> 100"
    using in_long_length [of "status life" 100] by (simp_all add: sg_event_ok_def)
  have "writes1 (and_then (cstr ''+++ killed by '') (and_then (append_signal_name lc (status life)) (cstr '' +++'')))"
    using s by (intro writes1_and_then1 writes_and_then writes_cstr
        writes1_writes [OF writes1_signal_name [OF env(2)]] writes1_cstr) simp_all
  moreover have "writes1 (fmt (''+++ exited with '' @ dec_int (status life) @ '' +++''))"
    using s by (intro writes1_fmt) simp_all
  ultimately show ?thesis using body SG_EVENT_PROCESS_EXIT by (auto simp: log_body_def)
qed

section \<open>One event\<close>

definition same_setup :: "sg_output \<Rightarrow> sg_output \<Rightarrow> bool" where
  "same_setup out out' \<longleftrightarrow> out_decoder out' = out_decoder out \<and> out_format out' = out_format out \<and>
     show_tids out' = show_tids out \<and> out_summary out' = out_summary out"

text \<open>
  \<open>log_result\<close>: the outcome of writing an event. The output stays well-formed; on success the
  log has the line of the specification, if there is one, and the set is that of the
  specification; and the event is written when no allocation and no write fails.
\<close>

definition log_result :: "libc \<Rightarrow> heap \<Rightarrow> sg_output \<Rightarrow> sg_event \<Rightarrow> out_result \<Rightarrow> bool" where
  "log_result lc h out ev r \<longleftrightarrow>
     (\<exists>e h' out'. r = Some (e, h', out') \<and> output_wf out' \<and> suffix h' h \<and> same_setup out out' \<and>
        (answers (out_stream out) = [] \<longrightarrow> answers (out_stream out') = []) \<and>
        (let line = log_line lc (out_decoder out) (show_tids out) (unfinished out) ev
         in (e = None \<longrightarrow> unfinished out' = log_next (unfinished out) ev \<and>
              (case line of
                 None \<Rightarrow> written (out_stream out') = written (out_stream out)
               | Some em \<Rightarrow> \<exists>s. renders em s \<and>
                   written (out_stream out') = written (out_stream out) @ s @ [CHR 0x0A])) \<and>
            (h = [] \<and> answers (out_stream out) = [] \<and> unat (unfinished_capacity out) < 2 ^ 61 \<and>
             (\<forall>em. line = Some em \<longrightarrow> (\<exists>s. renders em s \<and> length s + 2 < 2 ^ 64)) \<longrightarrow> e = None)))"

lemma renders_unique:
  assumes "renders e s" and "renders e s'" and "length s + 1 < 2 ^ 64"
  shows "s' = s"
proof -
  from renders_fresh [OF assms(1,3)] obtain b where b: "e [] sg_buffer_init = Some (True, [], b)" "buffer_text b = s"
    by blast
  have "appended [] sg_buffer_init s' (e [] sg_buffer_init)" using assms(2) by (simp add: renders_def)
  then show ?thesis using b by (auto elim!: appendedE)
qed

text \<open>The common case: one line, and an output that differs from the old one in its set only.\<close>

lemma log_result_line:
  assumes wf: "output_wf out1" and same: "same_setup out out1" "out_stream out1 = out_stream out"
    and line: "log_line lc (out_decoder out) (show_tids out) (unfinished out) ev = Some em"
    and s: "renders em s" and "next": "unfinished out1 = log_next (unfinished out) ev"
    and r: "writes_line h out1 s r"
  shows "log_result lc h out ev r"
proof -
  obtain e h' st p where w: "r = Some (e, h', out1\<lparr>out_stream := st\<rparr>)" "suffix h' h"
      "written st = written (out_stream out) @ p" "e = None \<longrightarrow> p = s @ [CHR 0x0A]"
      "answers (out_stream out) = [] \<longrightarrow> answers st = []"
      "h = [] \<and> answers (out_stream out) = [] \<and> length s + 2 < 2 ^ 64 \<longrightarrow> e = None"
    using r unfolding writes_line_def same(2) by blast
  have len: "length s + 2 < 2 ^ 64" if "renders em s'" "length s' + 2 < 2 ^ 64" for s'
    using renders_unique [OF that(1) s] that(2) by simp
  show ?thesis
    unfolding log_result_def Let_def line
    using w wf same(1) s "next" len
    by (intro exI [of _ e] exI [of _ h'] exI [of _ "out1\<lparr>out_stream := st\<rparr>"])
      (auto simp: output_wf_def same_setup_def unfinished_def)
qed

lemma prefix_emitter: "append_tid_prefix out ev = tid_prefix (show_tids out) ev"
  by (simp add: append_tid_prefix_def tid_prefix_def)

lemma renders_line:
  assumes "reader_ok decoder" "libc_ok lc" "sg_event_ok ev" and "log_line lc decoder tids S ev = Some em"
  shows "\<exists>s. renders em s"
proof -
  from assms(4) obtain body where b: "log_body lc decoder S ev = Some body" "em = and_then (tid_prefix tids ev) body"
    by (auto simp: log_line_def)
  with writes_tid_prefix [OF assms(3), of tids] writes1_log_body [OF assms(1-3) b(1)] show ?thesis
    by (auto simp: writes_def writes1_def dest: renders_and_then)
qed

lemma removed_output:
  assumes "output_wf out" and "unfinished_remove out t = (found, out1)"
  shows "output_wf out1" "unfinished out1 = unfinished out - {t}" "found = (t \<in> unfinished out)"
    and "same_setup out out1" "out_stream out1 = out_stream out"
proof -
  show "output_wf out1" "unfinished out1 = unfinished out - {t}" "found = (t \<in> unfinished out)"
    using unfinished_remove_law [OF assms] by auto
  show "same_setup out out1" "out_stream out1 = out_stream out"
    using assms(2) by (auto simp: unfinished_remove_def same_setup_def Let_def split: option.splits)
qed

lemma added_output:
  assumes "output_wf out" and "unfinished_add h out t = (ok, h', out1)"
  shows "output_wf out1" "suffix h' h" "unfinished out1 = (if ok then insert t (unfinished out) else unfinished out)"
    and "same_setup out out1" "out_stream out1 = out_stream out"
    and "h = [] \<Longrightarrow> unat (unfinished_capacity out) < 2 ^ 61 \<Longrightarrow> ok"
proof -
  show "output_wf out1" "suffix h' h" "unfinished out1 = (if ok then insert t (unfinished out) else unfinished out)"
    using unfinished_add_law [OF assms] by auto
  show "same_setup out out1" "out_stream out1 = out_stream out"
    using assms(2) by (auto simp: unfinished_add_def same_setup_def Let_def split: if_splits prod.splits)
  assume h: "h = []" and c: "unat (unfinished_capacity out) < 2 ^ 61"
  define k where "k = (if unfinished_capacity out = 0 then 8 else unfinished_capacity out * 2)"
  have "unat k = (if unfinished_capacity out = 0 then 8 else 2 * unat (unfinished_capacity out))"
    using c by (auto simp: k_def unat_mult_no_wrap)
  then have "\<not> (k < unfinished_capacity out \<or> k > SIZE_MAX div sizeof_pid)"
    using c by (auto simp: word_less_nat_alt sizeof_pid_def unat_div split: if_splits)
  then show ok using assms(2) h
    by (auto simp: unfinished_add_def Let_def simp flip: k_def split: if_splits)
qed

lemma tid_prefix_runs:
  assumes "sg_event_ok ev"
  shows "\<exists>ok h1 b1. append_tid_prefix out ev h sg_buffer_init = Some (ok, h1, b1) \<and> suffix h1 h"
proof -
  obtain p where "renders (append_tid_prefix out ev) p"
    using writes_tid_prefix [OF assms] by (auto simp: writes_def prefix_emitter)
  then have "appended h sg_buffer_init p (append_tid_prefix out ev h sg_buffer_init)" by (simp add: renders_def)
  then show ?thesis by (rule appendedE) blast
qed

lemma write_unfinished:
  assumes env: "reader_ok (out_decoder out)" "libc_ok lc" and ev: "sg_event_ok ev" and wf: "output_wf out"
    and data: "event_data ev = SG_EVENT_SYSCALL e" "\<not> ev_completed e"
  shows "log_result lc h out ev (write_text_syscall lc h out ev e)"
proof -
  let ?t = "event_tid ev"
  obtain ok1 h1 b1 where pre: "append_tid_prefix out ev h sg_buffer_init = Some (ok1, h1, b1)" "suffix h1 h"
    using tid_prefix_runs [OF ev] by blast
  show ?thesis
  proof (cases "?t \<in> unfinished out")
    case True
    then have "write_text_syscall lc h out ev e = Some (None, h1, out)"
      using data pre contains_iff [of out ?t] by (simp add: write_text_syscall_def Let_def)
    with True data pre wf show ?thesis
      by (auto simp: log_result_def log_line_def log_body_def log_next_def same_setup_def insert_absorb)
  next
    case False
    define em where "em = and_then (append_tid_prefix out ev)
      (and_then (sg_decode_syscall_entry lc (out_decoder out) ?t e) (cstr '' <unfinished ...>''))"
    have line: "log_line lc (out_decoder out) (show_tids out) (unfinished out) ev = Some em"
      using False data by (simp add: log_line_def log_body_def em_def prefix_emitter)
    obtain s where s: "renders em s" using renders_line [OF env ev line] by blast
    then have "appended h sg_buffer_init s (em h sg_buffer_init)" by (simp add: renders_def)
    then obtain ok2 h2 b2 q where r2: "em h sg_buffer_init = Some (ok2, h2, b2)" "buffer_wf b2" "suffix h2 h"
        "buffer_text b2 = q" "ok2 \<longrightarrow> q = s" "h = [] \<and> length s + 1 < 2 ^ 64 \<longrightarrow> ok2"
      by (rule appendedE) simp
    obtain ok3 h3 out1 where a: "unfinished_add h2 out ?t = (ok3, h3, out1)" by (cases "unfinished_add h2 out ?t")
    note add = added_output [OF wf a]
    have none: "unfinished_contains out ?t = None" using False contains_iff [of out ?t] by simp
    have res: "write_text_syscall lc h out ev e =
        (if ok2 then write_rendered (Out_Cannot_Render (ev_number e)) out1 (Some (ok3, h3, b2))
         else Some (Some (Out_Cannot_Render (ev_number e)), h2, out))"
      using data pre none r2(1) a
      by (simp add: write_text_syscall_def write_rendered_def em_def and_then_def [of "append_tid_prefix out ev"] Let_def)
    have short: "length s + 2 < 2 ^ 64" if "renders em s'" "length s' + 2 < 2 ^ 64" for s'
      using renders_unique [OF that(1) s] that(2) by simp
    consider "ok2" "ok3" | "\<not> ok2" | "ok2" "\<not> ok3" by blast
    then show ?thesis
    proof cases
      case 1
      have "writes_line h3 out1 s (write_buffer h3 out1 b2)"
        using r2 1 by (intro write_buffer_line) simp_all
      then have "writes_line h out1 s (write_text_syscall lc h out ev e)"
        using 1 res add(2) r2(3) by (auto simp: write_rendered_def intro: writes_line_suffix suffix_order.trans)
      moreover have "unfinished out1 = log_next (unfinished out) ev" using add(3) 1 data by (simp add: log_next_def)
      ultimately show ?thesis using log_result_line [OF add(1,4,5) line s] by blast
    next
      case 2
      then have "\<not> (h = [] \<and> length s + 2 < 2 ^ 64)" using r2(6) by auto
      with 2 res r2(3) wf short line show ?thesis
        unfolding log_result_def Let_def line by (auto simp: same_setup_def)
    next
      case 3
      then have "\<not> (h2 = [] \<and> unat (unfinished_capacity out) < 2 ^ 61)" using add(6) by auto
      moreover have "h = [] \<Longrightarrow> h2 = []" using r2(3) by simp
      ultimately show ?thesis
        using 3 res add suffix_order.trans [OF add(2) r2(3)] line
        unfolding log_result_def Let_def line by (auto simp: write_rendered_def)
    qed
  qed
qed

lemma write_completed:
  assumes env: "reader_ok (out_decoder out)" "libc_ok lc" and ev: "sg_event_ok ev" and wf: "output_wf out"
    and data: "event_data ev = SG_EVENT_SYSCALL e" "ev_completed e"
  shows "log_result lc h out ev (write_text_syscall lc h out ev e)"
proof -
  let ?t = "event_tid ev"
  obtain found out1 where rm: "unfinished_remove out ?t = (found, out1)" by fastforce
  note out1 = removed_output [OF wf rm]
  obtain body where body: "log_body lc (out_decoder out) (unfinished out) ev = Some body"
    using data by (cases "?t \<in> unfinished out") (auto simp: log_body_def)
  define em where "em = and_then (append_tid_prefix out ev) body"
  have line: "log_line lc (out_decoder out) (show_tids out) (unfinished out) ev = Some em"
    using body by (simp add: log_line_def em_def prefix_emitter)
  obtain s where s: "renders em s" using renders_line [OF env ev line] by blast
  obtain ok1 h1 b1 where "append_tid_prefix out ev h sg_buffer_init = Some (ok1, h1, b1)" "suffix h1 h"
    using tid_prefix_runs [OF ev] by blast
  then have "write_text_syscall lc h out ev e = write_rendered (Out_Cannot_Render (ev_number e)) out1 (em h sg_buffer_init)"
    using data rm body out1(3)
    by (auto simp: write_text_syscall_def em_def and_then_def [of "append_tid_prefix out ev"] log_body_def Let_def)
  then have "writes_line h out1 s (write_text_syscall lc h out ev e)"
    using write_rendered_line [OF s] by simp
  moreover have "unfinished out1 = log_next (unfinished out) ev" using out1(2) data by (simp add: log_next_def)
  ultimately show ?thesis using log_result_line [OF out1(1,4,5) line s] by blast
qed

lemma write_text_event_log:
  assumes env: "reader_ok (out_decoder out)" "libc_ok lc" and ev: "sg_event_ok ev" and wf: "output_wf out"
  shows "log_result lc h out ev (write_text_event lc h out ev)"
proof -
  have line: "log_result lc h out ev (write_rendered err out1 (em h sg_buffer_init))"
    if l: "log_line lc (out_decoder out) (show_tids out) (unfinished out) ev = Some em"
      and o: "output_wf out1" "same_setup out out1" "out_stream out1 = out_stream out"
      and n: "unfinished out1 = log_next (unfinished out) ev" for err out1 em
  proof -
    obtain s where s: "renders em s" using renders_line [OF env ev l] by blast
    show ?thesis by (rule log_result_line [OF o l s n write_rendered_line [OF s]])
  qed
  have same: "same_setup out out" by (simp add: same_setup_def)
  show ?thesis
  proof (cases "event_data ev")
    case (SG_EVENT_SYSCALL e)
    then show ?thesis
      using write_unfinished [OF env ev wf, of e] write_completed [OF env ev wf, of e]
      by (cases "ev_completed e") (simp_all add: write_text_event_def)
  next
    case (SG_EVENT_SIGNAL sig)
    then have "\<exists>em. log_line lc (out_decoder out) (show_tids out) (unfinished out) ev = Some em \<and>
        write_text_event lc h out ev = write_rendered Out_No_Memory out (em h sg_buffer_init)"
      by (simp add: log_line_def log_body_def write_text_event_def prefix_emitter)
    with line wf same SG_EVENT_SIGNAL show ?thesis by (auto simp: log_next_def)
  next
    case (SG_EVENT_PROCESS_START life)
    then have "\<exists>em. log_line lc (out_decoder out) (show_tids out) (unfinished out) ev = Some em \<and>
        write_text_event lc h out ev = write_rendered Out_No_Memory out (em h sg_buffer_init)"
      by (simp add: log_line_def log_body_def write_text_event_def prefix_emitter)
    with line wf same SG_EVENT_PROCESS_START show ?thesis by (auto simp: log_next_def)
  next
    case (SG_EVENT_PROCESS_EXIT life)
    obtain found out1 where rm: "unfinished_remove out (event_tid ev) = (found, out1)" by fastforce
    note out1 = removed_output [OF wf rm]
    from SG_EVENT_PROCESS_EXIT have "\<exists>em. log_line lc (out_decoder out) (show_tids out) (unfinished out) ev = Some em \<and>
        write_text_event lc h out ev = write_rendered Out_No_Memory out1 (em h sg_buffer_init)"
      by (simp add: log_line_def log_body_def write_text_event_def prefix_emitter rm)
    with line out1 SG_EVENT_PROCESS_EXIT show ?thesis by (auto simp: log_next_def)
  qed
qed

section \<open>A whole trace\<close>

text \<open>The events of a trace are written one after the other, up to the first error.\<close>

fun write_events :: "libc \<Rightarrow> heap \<Rightarrow> sg_output \<Rightarrow> sg_event list \<Rightarrow> out_result" where
  "write_events lc h out [] = Some (None, h, out)"
| "write_events lc h out (ev # evs) =
     (case sg_output_write_event lc h out ev of
        None \<Rightarrow> None
      | Some (Some e, h', out') \<Rightarrow> Some (Some e, h', out')
      | Some (None, h', out') \<Rightarrow> write_events lc h' out' evs)"

fun log_lines :: "libc \<Rightarrow> sg_decoder \<Rightarrow> bool \<Rightarrow> int set \<Rightarrow> sg_event list \<Rightarrow> emitter list" where
  "log_lines lc decoder tids S [] = []"
| "log_lines lc decoder tids S (ev # evs) =
     (case log_line lc decoder tids S ev of None \<Rightarrow> [] | Some em \<Rightarrow> [em]) @
     log_lines lc decoder tids (log_next S ev) evs"

definition concerns :: "int \<Rightarrow> sg_event \<Rightarrow> bool" where
  "concerns t ev \<longleftrightarrow> event_tid ev = t \<and>
     (case event_data ev of SG_EVENT_SYSCALL e \<Rightarrow> True | SG_EVENT_PROCESS_EXIT l \<Rightarrow> True | _ \<Rightarrow> False)"

definition pending :: "sg_event list \<Rightarrow> int \<Rightarrow> bool" where
  "pending evs t \<longleftrightarrow> filter (concerns t) evs \<noteq> [] \<and> is_unfinished_syscall (last (filter (concerns t) evs))"

lemma log_next_pending: "foldl log_next {} evs = {t. pending evs t}"
proof (induction evs rule: rev_induct)
  case (snoc ev evs)
  then show ?case
    by (cases "event_data ev") (auto simp: pending_def concerns_def log_next_def is_unfinished_syscall_def)
qed (simp add: pending_def)

lemma write_events_log:
  assumes "libc_ok lc" and "\<forall>ev \<in> set evs. sg_event_ok ev"
    and "reader_ok (out_decoder out)" and "output_wf out" and "out_format out = SG_FORMAT_TEXT" and "\<not> out_summary out"
  shows "\<exists>e h' out'. write_events lc h out evs = Some (e, h', out') \<and> output_wf out' \<and>
    (e = None \<longrightarrow> unfinished out' = foldl log_next (unfinished out) evs \<and>
      (\<exists>lines. list_all2 renders (log_lines lc (out_decoder out) (show_tids out) (unfinished out) evs) lines \<and>
        written (out_stream out') = written (out_stream out) @ concat (map (\<lambda>s. s @ [CHR 0x0A]) lines)))"
  using assms(2-)
proof (induction evs arbitrary: h out)
  case (Cons ev evs)
  have ev: "sg_event_ok ev" using Cons.prems by simp
  have step: "sg_output_write_event lc h out ev = write_text_event lc h out ev"
    using Cons.prems(4,5) by (simp add: sg_output_write_event_def)
  let ?line = "log_line lc (out_decoder out) (show_tids out) (unfinished out) ev"
  obtain e h' out' where r: "sg_output_write_event lc h out ev = Some (e, h', out')" "output_wf out'"
      "same_setup out out'"
      "e = None \<longrightarrow> unfinished out' = log_next (unfinished out) ev \<and>
         (case ?line of None \<Rightarrow> written (out_stream out') = written (out_stream out)
          | Some em \<Rightarrow> \<exists>s. renders em s \<and> written (out_stream out') = written (out_stream out) @ s @ [CHR 0x0A])"
    using write_text_event_log [OF Cons.prems(2) assms(1) ev Cons.prems(3), of h]
    unfolding step log_result_def Let_def by blast
  show ?case
  proof (cases e)
    case (Some err)
    then show ?thesis using r by simp
  next
    case None
    have same: "out_decoder out' = out_decoder out" "show_tids out' = show_tids out"
        "out_format out' = out_format out" "out_summary out' = out_summary out"
      using r(3) by (simp_all add: same_setup_def)
    obtain e2 h2 out2 where r2: "write_events lc h' out' evs = Some (e2, h2, out2)" "output_wf out2"
        "e2 = None \<longrightarrow> unfinished out2 = foldl log_next (unfinished out') evs \<and>
          (\<exists>lines. list_all2 renders (log_lines lc (out_decoder out) (show_tids out) (unfinished out') evs) lines \<and>
            written (out_stream out2) = written (out_stream out') @ concat (map (\<lambda>s. s @ [CHR 0x0A]) lines))"
      using Cons.IH [of out' h'] Cons.prems r(2) same by auto
    have res: "write_events lc h out (ev # evs) = Some (e2, h2, out2)" using r(1) r2(1) None by simp
    have "\<exists>lines. list_all2 renders (log_lines lc (out_decoder out) (show_tids out) (unfinished out) (ev # evs)) lines \<and>
        written (out_stream out2) = written (out_stream out) @ concat (map (\<lambda>s. s @ [CHR 0x0A]) lines)"
      if e2: "e2 = None"
    proof -
      obtain lines where l: "list_all2 renders (log_lines lc (out_decoder out) (show_tids out) (log_next (unfinished out) ev) evs) lines"
          "written (out_stream out2) = written (out_stream out') @ concat (map (\<lambda>s. s @ [CHR 0x0A]) lines)"
        using r2(3) r(4) None e2 by auto
      show ?thesis
      proof (cases ?line)
        case None
        then show ?thesis using l r(4) \<open>e = None\<close> by (intro exI [of _ lines]) simp
      next
        case (Some em)
        then obtain s where "renders em s" "written (out_stream out') = written (out_stream out) @ s @ [CHR 0x0A]"
          using r(4) \<open>e = None\<close> by auto
        then show ?thesis using l Some by (intro exI [of _ "s # lines"]) simp
      qed
    qed
    then show ?thesis using res r2(2,3) r(4) None by auto
  qed
qed (auto intro: exI [of _ "[]"])

text \<open>
  C37. Writing any sequence of events in text format to a fresh output always returns and keeps
  the output well-formed. When no error is reported, the stream has received exactly the lines of
  the abstract log, in order, one per line; and the threads recorded as unfinished are those
  whose last call is still pending. So a line \<open>resumed\<close> is written for a thread if and only if
  its call was announced as unfinished and neither completed nor ended by an exit since.
\<close>

theorem text_log_correct:
  assumes "reader_ok decoder" and "libc_ok lc" and "\<forall>ev \<in> set evs. sg_event_ok ev"
    and "sg_output_init h st SG_FORMAT_TEXT decoder tids False = Some (None, h0, out)"
  shows "\<exists>e h' out'. write_events lc h0 out evs = Some (e, h', out') \<and> output_wf out' \<and>
    (e = None \<longrightarrow> unfinished out' = {t. pending evs t} \<and>
      (\<exists>lines. list_all2 renders (log_lines lc decoder tids {} evs) lines \<and>
        written (out_stream out') = written st @ concat (map (\<lambda>s. s @ [CHR 0x0A]) lines)))"
proof -
  have out: "out_decoder out = decoder" "show_tids out = tids" "unfinished out = {}" "out_stream out = st"
      "output_wf out" "out_format out = SG_FORMAT_TEXT" "\<not> out_summary out"
    using assms(4) by (auto simp: sg_output_init_def unfinished_def output_wf_def)
  show ?thesis
    using write_events_log [OF assms(2,3), of out h0] out assms(1) by (simp add: log_next_pending)
qed

definition demo_syscall :: "bool \<Rightarrow> sg_event" where
  "demo_syscall finished = \<lparr>event_tid = 7, event_tgid = 7, observed_at = zero_timespec,
     event_data = SG_EVENT_SYSCALL (close_captured\<lparr>ev_completed := finished\<rparr>)\<rparr>"

theorem text_log_correct_witness:
  "\<exists>e h' out'. write_events no_libc []
      \<lparr>out_stream = \<lparr>written = [], answers = []\<rparr>, out_decoder = open_decoder, out_format = SG_FORMAT_TEXT,
       unfinished_tids = [], unfinished_count = 0, unfinished_capacity = 0, show_tids = True, out_summary = False\<rparr>
      [demo_syscall False, demo_syscall True] = Some (e, h', out') \<and> output_wf out' \<and>
    (e = None \<longrightarrow> unfinished out' = {t. pending [demo_syscall False, demo_syscall True] t} \<and>
      (\<exists>lines. list_all2 renders (log_lines no_libc open_decoder True {} [demo_syscall False, demo_syscall True]) lines \<and>
        written (out_stream out') = [] @ concat (map (\<lambda>s. s @ [CHR 0x0A]) lines)))"
proof -
  have ok: "\<forall>ev \<in> set [demo_syscall False, demo_syscall True]. sg_event_ok ev"
    by (simp add: demo_syscall_def sg_event_ok_def in_long_def event_ok_def close_captured_def close_event_def
        zero_syscall_event_def)
  show ?thesis
    using text_log_correct [of open_decoder no_libc "[demo_syscall False, demo_syscall True]" "[]"
        "\<lparr>written = [], answers = []\<rparr>" True, OF _ _ ok]
    by (simp add: sg_output_init_def)
qed

lemma migrate_correct:
  assumes "output_wf out"
  shows "output_wf (sg_output_migrate_tid out former current) \<and>
    out_stream (sg_output_migrate_tid out former current) = out_stream out \<and>
    same_setup out (sg_output_migrate_tid out former current) \<and>
    unfinished (sg_output_migrate_tid out former current) =
      (if former \<in> unfinished out then insert current (unfinished out - {former}) else unfinished out)"
proof (cases "unfinished_contains out former")
  case None
  then show ?thesis using assms contains_iff [of out former] by (auto simp: sg_output_migrate_tid_def same_setup_def)
next
  case (Some i)
  note i = contains_Some [OF Some]
  have mem: "former \<in> unfinished out" using contains_iff [of out former] Some by simp
  obtain found out1 where rm: "unfinished_remove out former = (found, out1)" by fastforce
  note out1 = removed_output [OF assms rm]
  have d: "distinct (unfinished_tids out)" using assms by (simp add: output_wf_def)
  show ?thesis
  proof (cases "former = current")
    case True
    then show ?thesis using assms mem by (auto simp: sg_output_migrate_tid_def same_setup_def)
  next
    case neq: False
    show ?thesis
    proof (cases "current \<in> unfinished out")
      case True
      then have "unfinished_contains out current \<noteq> None" using contains_iff [of out current] by simp
      then show ?thesis using neq Some rm out1 mem True by (auto simp: sg_output_migrate_tid_def same_setup_def)
    next
      case False
      then have new: "unfinished_contains out current = None" using contains_iff [of out current] by simp
      have res: "sg_output_migrate_tid out former current =
          out\<lparr>unfinished_tids := (unfinished_tids out)[i := current]\<rparr>"
        using neq Some new by (simp add: sg_output_migrate_tid_def)
      have "distinct ((unfinished_tids out)[i := current])"
        using d False by (intro distinct_list_update) (auto simp: unfinished_def)
      moreover have "set ((unfinished_tids out)[i := current]) = insert current (unfinished out - {former})"
        using i set_update_distinct [OF d, of i current] by (simp add: unfinished_def)
      ultimately show ?thesis unfolding res using assms mem by (simp add: output_wf_def unfinished_def same_setup_def)
    qed
  qed
qed

text \<open>
  C40. One event in text format, whatever fails: the call returns, the stream only grows, the
  list of unfinished threads stays well-formed, and without failing allocations and writes the
  event is written. After an exec has changed a thread id, \<open>sg_output_migrate_tid\<close> renames the
  pending call of the former id and merges it with one of the new id.
\<close>

theorem text_event_total:
  assumes "reader_ok (out_decoder out)" and "libc_ok lc" and "sg_event_ok ev" and "output_wf out"
    and "out_format out = SG_FORMAT_TEXT" and "\<not> out_summary out"
  shows "log_result lc h out ev (sg_output_write_event lc h out ev) \<and>
    output_wf (sg_output_migrate_tid out former current) \<and>
    out_stream (sg_output_migrate_tid out former current) = out_stream out \<and>
    unfinished (sg_output_migrate_tid out former current) =
      (if former \<in> unfinished out then insert current (unfinished out - {former}) else unfinished out)"
proof (intro conjI)
  show "log_result lc h out ev (sg_output_write_event lc h out ev)"
    using write_text_event_log [OF assms(1-4)] assms(5,6) by (simp add: sg_output_write_event_def)
qed (use migrate_correct [OF assms(4), of former current] in blast)+

definition demo_output :: sg_output where
  "demo_output = \<lparr>out_stream = \<lparr>written = [], answers = []\<rparr>, out_decoder = open_decoder, out_format = SG_FORMAT_TEXT,
     unfinished_tids = [7], unfinished_count = 1, unfinished_capacity = 8, show_tids = True, out_summary = False\<rparr>"

theorem text_event_total_witness:
  "log_result no_libc [] demo_output (demo_syscall True) (sg_output_write_event no_libc [] demo_output (demo_syscall True)) \<and>
    output_wf (sg_output_migrate_tid demo_output 7 5) \<and>
    out_stream (sg_output_migrate_tid demo_output 7 5) = out_stream demo_output \<and>
    unfinished (sg_output_migrate_tid demo_output 7 5) =
      (if 7 \<in> unfinished demo_output then insert 5 (unfinished demo_output - {7}) else unfinished demo_output)"
proof (rule text_event_total)
  show "sg_event_ok (demo_syscall True)"
    by (simp add: demo_syscall_def sg_event_ok_def in_long_def event_ok_def close_captured_def close_event_def
        zero_syscall_event_def)
qed (simp_all add: demo_output_def output_wf_def)

end
