(* ===== verification/Json.thy ===== *)
theory Json
  imports Cli Decoder
begin

text \<open>
  The texts of \<open>src/output.c\<close> in JSON: a datatype of values, the compact text of a value, and a
  reader for it. The records the program writes are proved to be texts of such values in
  \<open>Output_Json\<close>; that the reader inverts the text shows that a record can be read back, that
  no string ends early and that no control character is left unescaped.
\<close>

section \<open>Values and their texts\<close>

datatype json =
    JNull
  | JBool bool
  | JNum int
  | JStr string
  | JArr "json list"
  | JObj "(string \<times> json) list"

definition json_escape :: "char \<Rightarrow> string" where
  "json_escape c =
     (if c = CHR 0x22 \<or> c = CHR 0x5C then [CHR 0x5C, c]
      else if c = CHR 0x08 then [CHR 0x5C, CHR ''b'']
      else if c = CHR 0x0C then [CHR 0x5C, CHR ''f'']
      else if c = CHR 0x0A then [CHR 0x5C, CHR ''n'']
      else if c = CHR 0x0D then [CHR 0x5C, CHR ''r'']
      else if c = CHR 0x09 then [CHR 0x5C, CHR ''t'']
      else if (of_char c :: nat) < 32
      then [CHR 0x5C, CHR ''u'', CHR ''0'', CHR ''0'', digit_char (of_char c div 16), digit_char (of_char c mod 16)]
      else [c])"

definition json_quote :: "string \<Rightarrow> string" where
  "json_quote s = [CHR 0x22] @ concat (map json_escape s) @ [CHR 0x22]"

fun json_text :: "json \<Rightarrow> string" where
  "json_text JNull = ''null''"
| "json_text (JBool b) = (if b then ''true'' else ''false'')"
| "json_text (JNum i) = dec_int i"
| "json_text (JStr s) = json_quote s"
| "json_text (JArr js) = ''['' @ join '','' (map json_text js) @ '']''"
| "json_text (JObj fs) = ''{'' @ join '','' (map (\<lambda>(k, v). json_quote k @ '':'' @ json_text v) fs) @ ''}''"

section \<open>Reading a text\<close>

definition read_escape :: "string \<Rightarrow> (char \<times> string) option" where
  "read_escape s =
     (case s of
        [] \<Rightarrow> None
      | d # s \<Rightarrow>
          if d = CHR 0x22 \<or> d = CHR 0x5C then Some (d, s)
          else if d = CHR ''b'' then Some (CHR 0x08, s)
          else if d = CHR ''f'' then Some (CHR 0x0C, s)
          else if d = CHR ''n'' then Some (CHR 0x0A, s)
          else if d = CHR ''r'' then Some (CHR 0x0D, s)
          else if d = CHR ''t'' then Some (CHR 0x09, s)
          else if d = CHR ''u''
          then (case s of
                  z # z' # a # b # s \<Rightarrow>
                    if z = CHR ''0'' \<and> z' = CHR ''0'' then Some (char_of (16 * hex_value a + hex_value b), s) else None
                | _ \<Rightarrow> None)
          else None)"

text \<open>The rest of a string after its opening quote; a control character is an error.\<close>

function read_string :: "string \<Rightarrow> (string \<times> string) option" where
  "read_string s =
     (case s of
        [] \<Rightarrow> None
      | c # t \<Rightarrow>
          if c = CHR 0x22 then Some ([], t)
          else if (of_char c :: nat) < 32 then None
          else case (if c = CHR 0x5C then read_escape t else Some (c, t)) of
                 None \<Rightarrow> None
               | Some (x, t') \<Rightarrow> map_option (\<lambda>(xs, r). (x # xs, r)) (read_string t'))"
  by pat_completeness auto
termination
  by (relation "measure length") (auto simp: read_escape_def split: list.splits if_splits)

declare read_string.simps [simp del]

definition read_number :: "string \<Rightarrow> (json \<times> string) option" where
  "read_number s =
     (let (negative, t) = (case s of c # t \<Rightarrow> if c = CHR ''-'' then (True, t) else (False, s) | [] \<Rightarrow> (False, []));
          ds = takeWhile c_isdigit t
      in if ds = [] then None
         else Some (JNum (if negative then - int (digits_value ds) else int (digits_value ds)),
                drop (length ds) t))"

definition read_word :: "string \<Rightarrow> json \<Rightarrow> string \<Rightarrow> (json \<times> string) option" where
  "read_word w v s = (if prefix w s then Some (v, drop (length w) s) else None)"

text \<open>Values, the elements of an array and the members of an object; the number bounds the nesting.\<close>

fun read_value :: "nat \<Rightarrow> string \<Rightarrow> (json \<times> string) option"
  and read_elements :: "nat \<Rightarrow> string \<Rightarrow> (json list \<times> string) option"
  and read_members :: "nat \<Rightarrow> string \<Rightarrow> ((string \<times> json) list \<times> string) option" where
  "read_value 0 s = None"
| "read_value (Suc n) s =
     (case s of
        [] \<Rightarrow> None
      | c # t \<Rightarrow>
          if c = CHR 0x22 then map_option (\<lambda>(x, r). (JStr x, r)) (read_string t)
          else if c = CHR ''[''
          then (if t \<noteq> [] \<and> hd t = CHR '']'' then Some (JArr [], tl t)
                else map_option (\<lambda>(vs, r). (JArr vs, r)) (read_elements n t))
          else if c = CHR ''{''
          then (if t \<noteq> [] \<and> hd t = CHR ''}'' then Some (JObj [], tl t)
                else map_option (\<lambda>(fs, r). (JObj fs, r)) (read_members n t))
          else if c = CHR ''n'' then read_word ''null'' JNull s
          else if c = CHR ''t'' then read_word ''true'' (JBool True) s
          else if c = CHR ''f'' then read_word ''false'' (JBool False) s
          else read_number s)"
| "read_elements 0 s = None"
| "read_elements (Suc n) s =
     (case read_value n s of
        None \<Rightarrow> None
      | Some (v, r) \<Rightarrow>
          if r \<noteq> [] \<and> hd r = CHR '','' then map_option (\<lambda>(vs, r'). (v # vs, r')) (read_elements n (tl r))
          else if r \<noteq> [] \<and> hd r = CHR '']'' then Some ([v], tl r)
          else None)"
| "read_members 0 s = None"
| "read_members (Suc n) s =
     (if s = [] \<or> hd s \<noteq> CHR 0x22 then None
      else case read_string (tl s) of
        None \<Rightarrow> None
      | Some (k, r0) \<Rightarrow>
          if r0 = [] \<or> hd r0 \<noteq> CHR '':'' then None
          else (case read_value n (tl r0) of
            None \<Rightarrow> None
          | Some (v, r) \<Rightarrow>
              if r \<noteq> [] \<and> hd r = CHR '','' then map_option (\<lambda>(fs, r'). ((k, v) # fs, r')) (read_members n (tl r))
              else if r \<noteq> [] \<and> hd r = CHR ''}'' then Some ([(k, v)], tl r)
              else None))"

definition read_json :: "string \<Rightarrow> (json \<times> string) option" where
  "read_json s = read_value (Suc (length s)) s"

section \<open>Strings and numbers are read back\<close>

lemma read_string_escape:
  "read_string (json_escape c @ rest) = map_option (\<lambda>(xs, r). (c # xs, r)) (read_string rest)"
proof -
  have "16 * hex_value (digit_char (of_char c div 16)) + hex_value (digit_char (of_char c mod 16)) = of_char c"
    using of_char_div_16 [of c] by (simp add: hex_value_digit)
  then show ?thesis
    by (subst read_string.simps) (simp add: json_escape_def read_escape_def)
qed

lemma read_string_quote:
  "read_string (concat (map json_escape s) @ [CHR 0x22] @ rest) = Some (s, rest)"
proof (induction s)
  case Nil
  show ?case by (subst read_string.simps) simp
next
  case (Cons c s)
  then show ?case by (simp add: read_string_escape)
qed

definition number_ends :: "string \<Rightarrow> bool" where
  "number_ends rest \<longleftrightarrow> rest = [] \<or> \<not> c_isdigit (hd rest)"

lemma takeWhile_digits:
  assumes "\<forall>c \<in> set ds. c_isdigit c" and "number_ends rest"
  shows "takeWhile c_isdigit (ds @ rest) = ds"
proof -
  have "takeWhile c_isdigit rest = []" using assms(2) by (cases rest) (auto simp: number_ends_def)
  with assms(1) show ?thesis by (simp add: takeWhile_append2)
qed

lemma dec_nat_first: "\<exists>c ds. dec_nat n = c # ds \<and> c_isdigit c"
  using dec_nat_digits(1,2) [of n] by (cases "dec_nat n") auto

lemma read_number_dec:
  assumes "number_ends rest"
  shows "read_number (dec_int i @ rest) = Some (JNum i, rest)"
proof (cases "i < 0")
  case True
  have "takeWhile c_isdigit (dec_nat (nat (- i)) @ rest) = dec_nat (nat (- i))"
    using dec_nat_digits(1) assms by (rule takeWhile_digits)
  with True show ?thesis by (simp add: read_number_def dec_int_def dec_nat_digits(2,3) Let_def)
next
  case False
  obtain c ds where c: "dec_nat (nat i) = c # ds" "c_isdigit c" using dec_nat_first by blast
  then have "c \<noteq> CHR ''-''" by (auto simp: c_isdigit_def)
  moreover have "takeWhile c_isdigit (dec_nat (nat i) @ rest) = dec_nat (nat i)"
    using dec_nat_digits(1) assms by (rule takeWhile_digits)
  ultimately show ?thesis
    using False dec_nat_digits(3) [of "nat i"] by (simp add: read_number_def dec_int_def c Let_def)
qed

lemma dec_int_first: "\<exists>c ds. dec_int i = c # ds \<and> (c = CHR ''-'' \<or> c_isdigit c)"
  using dec_nat_first [of "nat i"] by (auto simp: dec_int_def)

section \<open>Values are read back\<close>

fun json_cost :: "json \<Rightarrow> nat" where
  "json_cost (JArr js) = 1 + sum_list (map (\<lambda>j. json_cost j + 1) js)"
| "json_cost (JObj fs) = 1 + sum_list (map (\<lambda>(k, j). json_cost j + 1) fs)"
| "json_cost j = 1"

lemma json_text_first:
  "\<exists>c s. json_text j = c # s \<and> c \<notin> {CHR '']'', CHR ''}'', CHR '','', CHR '':''}"
proof (cases j)
  case (JNum i)
  then show ?thesis using dec_int_first [of i] by (auto simp: c_isdigit_def)
qed (auto simp: json_quote_def)

lemma number_ends_delimiters [simp]:
  "number_ends []" "number_ends (CHR '','' # r)" "number_ends (CHR '']'' # r)" "number_ends (CHR ''}'' # r)"
  by (simp_all add: number_ends_def c_isdigit_def)

lemma read_elements_text:
  assumes "\<And>j n rest. j \<in> set js \<Longrightarrow> json_cost j \<le> n \<Longrightarrow> number_ends rest \<Longrightarrow>
      read_value n (json_text j @ rest) = Some (j, rest)"
    and "js \<noteq> []" and "sum_list (map (\<lambda>j. json_cost j + 1) js) \<le> n"
  shows "read_elements n (join '','' (map json_text js) @ '']'' @ rest) = Some (js, rest)"
  using assms
proof (induction js arbitrary: n)
  case (Cons j js)
  then obtain m where n: "n = Suc m" by (cases n) auto
  show ?case
  proof (cases "js = []")
    case True
    then show ?thesis using Cons.prems(1) [of j m "CHR '']'' # rest"] Cons.prems(3) by (simp add: n)
  next
    case False
    then have "read_elements m (join '','' (map json_text js) @ '']'' @ rest) = Some (js, rest)"
      using Cons.prems by (intro Cons.IH) (auto simp: n)
    moreover have "read_value m (json_text j @ CHR '','' # join '','' (map json_text js) @ '']'' @ rest) =
        Some (j, CHR '','' # join '','' (map json_text js) @ '']'' @ rest)"
      using Cons.prems by (intro Cons.prems(1)) (auto simp: n)
    ultimately show ?thesis using False by (simp add: n join_Cons)
  qed
qed simp

lemma read_members_text:
  assumes "\<And>k j n rest. (k, j) \<in> set fs \<Longrightarrow> json_cost j \<le> n \<Longrightarrow> number_ends rest \<Longrightarrow>
      read_value n (json_text j @ rest) = Some (j, rest)"
    and "fs \<noteq> []" and "sum_list (map (\<lambda>(k, j). json_cost j + 1) fs) \<le> n"
  shows "read_members n (join '','' (map (\<lambda>(k, v). json_quote k @ '':'' @ json_text v) fs) @ ''}'' @ rest) = Some (fs, rest)"
  using assms
proof (induction fs arbitrary: n)
  case (Cons f fs)
  then obtain m where n: "n = Suc m" by (cases n) (auto split: prod.splits)
  obtain k j where f: "f = (k, j)" by (cases f)
  let ?rest = "join '','' (map (\<lambda>(k, v). json_quote k @ '':'' @ json_text v) fs) @ ''}'' @ rest"
  have key: "read_string (concat (map json_escape k) @ CHR 0x22 # r) = Some (k, r)" for r
    using read_string_quote [of k r] by simp
  show ?case
  proof (cases "fs = []")
    case True
    then show ?thesis
      using Cons.prems(1) [of k j m "CHR ''}'' # rest"] Cons.prems(3) by (simp add: n f json_quote_def key)
  next
    case False
    then have "read_members m ?rest = Some (fs, rest)"
      using Cons.prems by (intro Cons.IH) (auto simp: n f)
    moreover have "read_value m (json_text j @ CHR '','' # ?rest) = Some (j, CHR '','' # ?rest)"
      using Cons.prems by (intro Cons.prems(1)) (auto simp: n f)
    ultimately show ?thesis using False by (simp add: n f join_Cons json_quote_def key)
  qed
qed simp

lemma join_first: "xs \<noteq> [] \<Longrightarrow> hd xs \<noteq> [] \<Longrightarrow> hd (join sep xs @ r) = hd (hd xs)"
  by (cases xs) (auto simp: join_Cons)

lemma read_value_text:
  "json_cost j \<le> n \<Longrightarrow> number_ends rest \<Longrightarrow> read_value n (json_text j @ rest) = Some (j, rest)"
proof (induction j arbitrary: n rest rule: json.induct)
  case (JNum i)
  then obtain m where n: "n = Suc m" by (cases n) auto
  obtain c ds where c: "dec_int i = c # ds" "c = CHR ''-'' \<or> c_isdigit c" using dec_int_first by blast
  then have "c \<notin> {CHR 0x22, CHR ''['', CHR ''{'', CHR ''n'', CHR ''t'', CHR ''f''}"
    by (auto simp: c_isdigit_def)
  with c read_number_dec [OF JNum(2), of i] show ?case by (simp add: n)
next
  case (JStr s)
  then obtain m where n: "n = Suc m" by (cases n) auto
  show ?case using read_string_quote [of s rest] by (simp add: n json_quote_def)
next
  case (JArr js)
  then obtain m where n: "n = Suc m" by (cases n) auto
  show ?case
  proof (cases "js = []")
    case False
    obtain c s where c: "json_text (hd js) = c # s" "c \<noteq> CHR '']''" using json_text_first [of "hd js"] by auto
    have "read_elements m (join '','' (map json_text js) @ '']'' @ rest) = Some (js, rest)"
      using JArr False by (intro read_elements_text) (auto simp: n)
    moreover have "hd (join '','' (map json_text js) @ '']'' @ rest) = c"
      using False c(1) by (subst join_first) (auto simp: hd_map)
    ultimately show ?thesis using c(2) by (simp add: n)
  qed (simp add: n)
next
  case (JObj fs)
  then obtain m where n: "n = Suc m" by (cases n) auto
  show ?case
  proof (cases "fs = []")
    case False
    let ?t = "join '','' (map (\<lambda>(k, v). json_quote k @ '':'' @ json_text v) fs) @ ''}'' @ rest"
    have "read_members m ?t = Some (fs, rest)"
      using JObj False by (intro read_members_text) (auto simp: n)
    moreover have "hd ?t = CHR 0x22"
      using False by (subst join_first) (auto simp: hd_map json_quote_def split: prod.split)
    ultimately show ?thesis by (simp add: n)
  qed (simp add: n)
qed (auto simp: read_word_def dest!: Suc_le_D)

lemma json_cost_length: "json_cost j \<le> length (json_text j)"
proof (induction j rule: json.induct)
  case (JArr js)
  then have "sum_list (map (\<lambda>j. json_cost j + 1) js) \<le> length (join '','' (map json_text js)) + 1"
    by (induction js) (fastforce simp: join_Cons)+
  then show ?case by simp
next
  case (JObj fs)
  then have "sum_list (map (\<lambda>(k, j). json_cost j + 1) fs) \<le>
      length (join '','' (map (\<lambda>(k, v). json_quote k @ '':'' @ json_text v) fs)) + 1"
    by (induction fs) (fastforce simp: join_Cons)+
  then show ?case by simp
qed (auto simp: json_quote_def Suc_le_eq)

lemma read_json_text: "read_json (json_text j) = Some (j, [])"
  using read_value_text [of j "Suc (length (json_text j))" "[]"] json_cost_length [of j]
  by (simp add: read_json_def)

end
