(* ===== verification/Output_Json.thy ===== *)
theory Output_Json
  imports Output_Log Json
begin

text \<open>
  The NDJSON records and the JSON summary of \<open>src/output.c\<close> as texts of JSON values. \<open>event_json\<close>
  says which object stands for an event, \<open>summary_json\<close> which one for the statistics; the
  emitters of \<open>Output\<close> are proved to write exactly those texts, and \<open>Json\<close> reads them back.
\<close>

section \<open>Strings\<close>

lemma pad_zero_hex4:
  assumes "n < 256"
  shows "pad_zero 4 (hex_nat n) = [CHR ''0'', CHR ''0'', digit_char (n div 16), digit_char (n mod 16)]"
proof (cases "n < 16")
  case True
  then have "hex_nat n = [digit_char n]" by (simp add: hex_nat_def nat_format_def digits_base.simps [of 16 n])
  with True show ?thesis by (simp add: pad_zero_def numeral_3_eq_3 digit_char_zero)
next
  case False
  with assms have "hex_nat n = [digit_char (n div 16), digit_char (n mod 16)]"
    by (simp add: hex_nat_def nat_format_def digits_base.simps [of 16 n] digits_base.simps [of 16 "n div 16"])
  then show ?thesis by (simp add: pad_zero_def numeral_2_eq_2)
qed

lemma renders_json_byte: "renders (append_json_byte c) (json_escape c)"
proof -
  have two: "renders (\<lambda>h b. sg_buffer_append h b (Some [CHR 0x5C, c]) 2) [CHR 0x5C, c]"
    using sg_buffer_append_correct [of _ "[CHR 0x5C, c]"] by (simp add: renders_def)
  have hex: "renders (fmt (CHR 0x5C # CHR ''u'' # pad_zero 4 (hex_nat (of_char c))))
      [CHR 0x5C, CHR ''u'', CHR ''0'', CHR ''0'', digit_char (of_char c div 16), digit_char (of_char c mod 16)]"
    using renders_fmt [of "CHR 0x5C # CHR ''u'' # pad_zero 4 (hex_nat (of_char c))"]
      pad_zero_hex4 [OF of_char_bound [of c]] by simp
  show ?thesis
    unfolding append_json_byte_def json_escape_def by (simp add: two hex renders_append_byte renders_cstr)
qed

lemma renders_json_string: "NUL \<notin> set s \<Longrightarrow> renders (append_json_string s) (json_quote s)"
proof -
  assume "NUL \<notin> set s"
  moreover have "renders (emit_all (map append_json_byte s)) (concat (map json_escape s))"
    by (rule renders_emit_all) (simp add: list_all2_conv_all_nth renders_json_byte)
  ultimately show ?thesis
    unfolding append_json_string_def json_quote_def by (intro renders_and_then renders_cstr) simp_all
qed

text \<open>A string without special characters is its own JSON text, up to the quotes.\<close>

definition plain :: "string \<Rightarrow> bool" where
  "plain s \<longleftrightarrow> list_all (\<lambda>c. c \<noteq> CHR 0x22 \<and> c \<noteq> CHR 0x5C \<and> 32 \<le> (of_char c :: nat)) s"

lemma json_quote_plain: "plain s \<Longrightarrow> json_quote s = Q @ s @ Q"
proof -
  assume "plain s"
  then have "concat (map json_escape s) = s"
    by (induction s) (auto simp: plain_def json_escape_def)
  then show ?thesis by (simp add: json_quote_def Q_def)
qed

lemma plain_append [simp]: "plain (s @ t) \<longleftrightarrow> plain s \<and> plain t"
  by (simp add: plain_def)

lemma plain_Cons [simp]:
  "plain (c # s) \<longleftrightarrow> c \<noteq> CHR 0x22 \<and> c \<noteq> CHR 0x5C \<and> 32 \<le> (of_char c :: nat) \<and> plain s"
  by (auto simp: plain_def)

lemma plain_Nil [simp]: "plain []"
  by (simp add: plain_def)

lemma digit_char_plain: "d < 16 \<Longrightarrow> plain [digit_char d]"
proof -
  assume d: "d < 16"
  then have "(of_char (digit_char d) :: nat) \<noteq> 34" "(of_char (digit_char d) :: nat) \<noteq> 92"
    by (simp_all add: of_char_digit_char)
  then have "digit_char d \<noteq> CHR 0x22" "digit_char d \<noteq> CHR 0x5C" by auto
  with digit_char_ge_48 [OF d] show ?thesis by (simp add: plain_def del: plain_Cons)
qed

lemma plain_nat_format: "2 \<le> base \<Longrightarrow> base \<le> 16 \<Longrightarrow> plain (nat_format base n)"
proof -
  assume "2 \<le> base" "base \<le> 16"
  then have "d < 16" if "d \<in> set (digits_base base n)" for d
    using digits_base_bound [OF _ that] by simp
  then have "plain [digit_char d]" if "d \<in> set (digits_base base n)" for d
    using that by (intro digit_char_plain)
  then show ?thesis by (fastforce simp: plain_def nat_format_def list_all_iff)
qed

lemma plain_numbers [simp]: "plain (dec_nat n)" "plain (hex_nat n)" "plain (dec_int i)"
  using plain_nat_format [of 10] plain_nat_format [of 16 n]
  by (simp_all add: dec_nat_def hex_nat_def dec_int_def plain_def)

section \<open>The records\<close>

definition members_text :: "(string \<times> json) list \<Rightarrow> string" where
  "members_text fs = join '','' (map (\<lambda>(k, v). json_quote k @ '':'' @ json_text v) fs)"

lemma join_append: "xs \<noteq> [] \<Longrightarrow> ys \<noteq> [] \<Longrightarrow> join sep (xs @ ys) = join sep xs @ sep @ join sep ys"
  by (induction xs) (auto simp: join_Cons)

lemma object_text:
  "fs \<noteq> [] \<Longrightarrow> gs \<noteq> [] \<Longrightarrow> json_text (JObj (fs @ gs)) = (''{'' @ members_text fs) @ '','' @ members_text gs @ ''}''"
  by (simp add: members_text_def join_append)

definition header_fields :: "string \<Rightarrow> sg_event \<Rightarrow> (string \<times> json) list" where
  "header_fields type ev =
     [(''schema'', JStr SG_SCHEMA), (''type'', JStr type), (''tid'', JNum (event_tid ev)),
      (''tgid'', JNum (event_tgid ev)), (''timestamp_ns'', JStr (dec_nat (unat (timestamp_ns (observed_at ev)))))]"

definition error_json :: "libc \<Rightarrow> int \<Rightarrow> json" where
  "error_json lc n =
     (if n = 0 then JNull
      else JObj [(''number'', JNum n),
                 (''name'', case strerrorname_np lc n of None \<Rightarrow> JNull | Some name \<Rightarrow> JStr name)])"

definition syscall_fields :: "libc \<Rightarrow> string \<Rightarrow> u64 \<Rightarrow> sg_syscall_event \<Rightarrow> (string \<times> json) list" where
  "syscall_fields lc line ns e =
     [(''number'', JStr (dec_int (ev_number e))), (''name'', JStr (syscall_name (ev_number e))),
      (''arguments'', JArr (map (\<lambda>w. JStr (''0x'' @ hex_nat (unat w))) (take (ev_argument_count e) (ev_arguments e)))),
      (''result'', JStr (dec_int (ev_result e))), (''error'', error_json lc (ev_error_number e)),
      (''duration_ns'', JStr (dec_nat (unat ns))), (''text'', JStr line)]"

definition event_fields :: "libc \<Rightarrow> string \<Rightarrow> u64 \<Rightarrow> sg_event \<Rightarrow> (string \<times> json) list" where
  "event_fields lc line ns ev =
     (case event_data ev of
        SG_EVENT_SYSCALL e \<Rightarrow> syscall_fields lc line ns e
      | SG_EVENT_SIGNAL sig \<Rightarrow>
          [(''number'', JNum (signal_number sig)),
           (''name'', case sigabbrev_np lc (signal_number sig) of None \<Rightarrow> JNull | Some a \<Rightarrow> JStr (''SIG'' @ a)),
           (''code'', JNum (signal_code sig)),
           (''fault_address'', if fault_address sig = 0 then JNull
              else JStr (''0x'' @ hex_nat (unat (fault_address sig))))]
      | SG_EVENT_PROCESS_START life \<Rightarrow>
          [(''child_tid'', JNum (related_tid life)), (''ptrace_event'', JNum (int (unat (ptrace_event life))))]
      | SG_EVENT_PROCESS_EXIT life \<Rightarrow>
          [(''status'', JNum (status life)), (''signaled'', JBool (signaled life))])"

definition event_type :: "sg_event \<Rightarrow> string" where
  "event_type ev =
     (case event_data ev of
        SG_EVENT_SYSCALL e \<Rightarrow> ''syscall'' | SG_EVENT_SIGNAL sig \<Rightarrow> ''signal''
      | SG_EVENT_PROCESS_START life \<Rightarrow> ''process-start'' | SG_EVENT_PROCESS_EXIT life \<Rightarrow> ''process-exit'')"

text \<open>The record of an event; \<open>line\<close> is the decoded call and \<open>ns\<close> its duration.\<close>

definition event_json :: "libc \<Rightarrow> string \<Rightarrow> u64 \<Rightarrow> sg_event \<Rightarrow> json" where
  "event_json lc line ns ev = JObj (header_fields (event_type ev) ev @ event_fields lc line ns ev)"

lemma plain_keys:
  "plain ''schema''" "plain ''type''" "plain ''tid''" "plain ''tgid''" "plain ''timestamp_ns''" "plain ''number''"
  "plain ''name''" "plain ''arguments''" "plain ''result''" "plain ''error''" "plain ''duration_ns''" "plain ''text''"
  "plain ''code''" "plain ''fault_address''" "plain ''child_tid''" "plain ''ptrace_event''" "plain ''status''"
  "plain ''signaled''" "plain SG_SCHEMA" "plain ''0x''" "plain ''SIG''" "plain ''calls''" "plain ''errors''"
  "plain ''nanoseconds''" "plain ''average_nanoseconds''" "plain ''percent''" "plain ''total_calls''"
  "plain ''total_errors''" "plain ''total_nanoseconds''" "plain ''syscalls''" "plain ''summary''"
  "plain ''sysgaze.summary/v1''" "plain ''metadata''" "plain ''architecture''" "plain ''x86_64''" "plain ''format''"
  "plain ''ndjson''" "plain ''syscall''" "plain ''signal''" "plain ''process-start''" "plain ''process-exit''"
  by code_simp+

lemmas quoted_keys = plain_keys [THEN json_quote_plain]

lemma length_Q [simp]: "length Q = 1" "NUL \<notin> set Q" "Q \<noteq> []"
  by (simp_all add: Q_def)

lemma number_less: "length (dec_nat (unat (w :: u64))) < 100" "length (hex_nat (unat w)) < 100"
  using number_length_u64 [of 64 w] by linarith+

lemma renders_header:
  assumes "sg_event_ok ev" and "plain type" and "NUL \<notin> set type"
  shows "renders (append_json_header type (Some ev)) (''{'' @ members_text (header_fields type ev))"
proof -
  have n: "length (dec_int (event_tid ev)) \<le> 100" "length (dec_int (event_tgid ev)) \<le> 100"
    using assms(1) by (auto simp: sg_event_ok_def intro: in_long_length)
  have "renders (append_json_header type (Some ev))
     ((''{'' @ Q @ ''schema'' @ Q @ '':'' @ Q) @ SG_SCHEMA @ (Q @ '','' @ Q @ ''type'' @ Q @ '':'') @ json_quote type @
      ('','' @ Q @ ''tid'' @ Q @ '':'' @ dec_int (event_tid ev) @ '','' @ Q @ ''tgid'' @ Q @ '':'' @
       dec_int (event_tgid ev) @ '','' @ Q @ ''timestamp_ns'' @ Q @ '':'' @ Q @
       dec_nat (unat (timestamp_ns (observed_at ev))) @ Q))"
    unfolding append_json_header_def option.case
    using n number_less [of "timestamp_ns (observed_at ev)"]
    by (intro renders_and_then renders_cstr renders_fmt renders_json_string assms(3)) (simp_all add: SG_SCHEMA_def)
  then show ?thesis
    by (rule renders_cong) (simp add: members_text_def header_fields_def quoted_keys json_quote_plain)
qed

text \<open>An emitter that first renders another text into a buffer of its own.\<close>

lemma renders_nested:
  assumes em: "renders em s" and f: "renders (f s) t" and le: "length s \<le> length t"
    and run: "\<And>h b. run h b = (case em h sg_buffer_init of None \<Rightarrow> None
        | Some (ok, h1, inner) \<Rightarrow> if \<not> ok then Some (False, h1, b) else f (buffer_text inner) h1 b)"
  shows "renders run t"
  unfolding renders_def
proof (intro allI impI)
  fix h b
  assume wf: "buffer_wf b"
  have "appended h sg_buffer_init s (em h sg_buffer_init)" using em by (simp add: renders_def)
  then obtain ok h1 inner p where e: "em h sg_buffer_init = Some (ok, h1, inner)" "suffix h1 h"
      "buffer_text inner = p" "ok \<longrightarrow> p = s" "h = [] \<and> length s + 1 < 2 ^ 64 \<longrightarrow> ok"
    by (rule appendedE) simp
  show "appended h b t (run h b)"
  proof (cases ok)
    case False
    with e le wf show ?thesis by (intro appendedI [where ok = False and p = "[]"]) (auto simp: run)
  next
    case True
    from f wf have "appended h1 b t (f s h1 b)" by (simp add: renders_def)
    then obtain ok2 h2 b2 q where g: "f s h1 b = Some (ok2, h2, b2)" "buffer_wf b2" "suffix h2 h1"
        "prefix q t" "buffer_text b2 = buffer_text b @ q" "ok2 \<longrightarrow> q = t"
        "h1 = [] \<and> length (buffer_text b) + length t + 1 < 2 ^ 64 \<longrightarrow> ok2"
      by (rule appendedE)
    moreover have "h = [] \<Longrightarrow> h1 = []" using e(2) by simp
    moreover have "run h b = Some (ok2, h2, b2)" using True e g(1) by (simp add: run)
    ultimately show ?thesis using suffix_order.trans [OF g(3) e(2)]
      by (intro appendedI [where ok = ok2 and p = q]) auto
  qed
qed

definition libc_plain :: "libc \<Rightarrow> bool" where
  "libc_plain lc \<longleftrightarrow> (\<forall>i a. sigabbrev_np lc i = Some a \<longrightarrow> plain a)"

lemma json_quote_prefixed:
  "json_quote (CHR ''0'' # CHR ''x'' # hex_nat n) = Q @ CHR ''0'' # CHR ''x'' # hex_nat n @ Q"
  "plain a \<Longrightarrow> json_quote (CHR ''S'' # CHR ''I'' # CHR ''G'' # a) = Q @ CHR ''S'' # CHR ''I'' # CHR ''G'' # a @ Q"
  using json_quote_plain [of "''0x'' @ hex_nat n"] json_quote_plain [of "''SIG'' @ a"] by simp_all

lemma renders_emit_upt:
  "(\<And>i. i < n \<Longrightarrow> renders (f i) (ts i)) \<Longrightarrow> renders (emit_all (map f [0..<n])) (concat (map ts [0..<n]))"
  by (intro renders_emit_all) (simp add: list_all2_conv_all_nth)

lemma renders_json_arguments:
  assumes "event_ok e"
  shows "renders (json_arguments e)
    (join '','' (map json_text (map (\<lambda>w. JStr (''0x'' @ hex_nat (unat w))) (take (ev_argument_count e) (ev_arguments e)))))"
proof -
  let ?n = "ev_argument_count e"
  let ?ts = "\<lambda>i. Q @ ''0x'' @ hex_nat (unat (ev_arguments e ! i)) @ Q"
  have n: "?n \<le> 6" "length (ev_arguments e) = 6" using assms by (auto simp: event_ok_def)
  have "renders (and_then (if i = 0 then skip else cstr '','')
      (if i < length (ev_arguments e) then fmt (?ts i) else (\<lambda>h b. None)))
      ((if i \<noteq> 0 then '','' else []) @ ?ts i)" if "i < ?n" for i
    using that n number_less [of "ev_arguments e ! i"]
    by (intro renders_and_then) (auto simp: renders_skip renders_cstr intro!: renders_fmt)
  then have "renders (json_arguments e) (concat (map (\<lambda>i. (if i \<noteq> 0 then '','' else []) @ ?ts i) [0..<?n]))"
    unfolding json_arguments_def by (rule renders_emit_upt)
  moreover have "map ?ts [0..<?n] =
      map json_text (map (\<lambda>w. JStr (''0x'' @ hex_nat (unat w))) (take ?n (ev_arguments e)))"
    using n by (intro nth_equalityI) (simp_all add: json_quote_prefixed)
  ultimately show ?thesis unfolding join_upt by simp
qed

lemma renders_error:
  assumes "libc_ok lc" and "event_ok e"
  shows "renders (if ev_error_number e = 0 then cstr ''null''
      else and_then (fmt (''{'' @ Q @ ''number'' @ Q @ '':'' @ dec_int (ev_error_number e) @ '','' @ Q @ ''name'' @ Q @ '':''))
        (and_then (case strerrorname_np lc (ev_error_number e) of None \<Rightarrow> cstr ''null'' | Some name \<Rightarrow> append_json_string name)
          (cstr ''}''))) (json_text (error_json lc (ev_error_number e)))"
proof (cases "ev_error_number e = 0")
  case True
  then show ?thesis by (simp add: error_json_def renders_cstr)
next
  case False
  let ?n = "ev_error_number e"
  let ?name = "case strerrorname_np lc ?n of None \<Rightarrow> JNull | Some name \<Rightarrow> JStr name"
  have n: "length (dec_int ?n) \<le> 100" using assms(2) by (intro long_length) (simp_all add: event_ok_def)
  have "renders (case strerrorname_np lc ?n of None \<Rightarrow> cstr ''null'' | Some name \<Rightarrow> append_json_string name) (json_text ?name)"
    using libc_okD(2) [OF assms(1), of ?n] by (auto intro!: renders_cstr renders_json_string split: option.split)
  then have "renders (and_then (fmt (''{'' @ Q @ ''number'' @ Q @ '':'' @ dec_int ?n @ '','' @ Q @ ''name'' @ Q @ '':''))
        (and_then (case strerrorname_np lc ?n of None \<Rightarrow> cstr ''null'' | Some name \<Rightarrow> append_json_string name) (cstr ''}'')))
      ((''{'' @ Q @ ''number'' @ Q @ '':'' @ dec_int ?n @ '','' @ Q @ ''name'' @ Q @ '':'') @ json_text ?name @ ''}'')"
    using n by (intro renders_and_then renders_fmt renders_cstr) simp_all
  with False show ?thesis by (simp add: error_json_def quoted_keys)
qed

lemma renders_json_syscall:
  assumes env: "reader_ok (out_decoder out)" "libc_ok lc" and ev: "sg_event_ok ev"
    and data: "event_data ev = SG_EVENT_SYSCALL e" and ns: "output_elapsed e = Some ns"
    and line: "renders (sg_decode_syscall lc (out_decoder out) (event_tid ev) e) line" "NUL \<notin> set line"
  shows "renders (append_json_syscall lc out ev e) (json_text (event_json lc line ns ev))"
proof -
  have e: "event_ok e" using ev data by (simp add: sg_event_ok_def)
  then have n: "in_long (ev_number e)" by (simp add: event_ok_def in_long_def)
  have len: "length (dec_int (ev_number e)) \<le> 100" "length (dec_int (ev_result e)) \<le> 100"
    using e by (intro long_length; simp add: event_ok_def)+
  let ?args = "join '','' (map json_text (map (\<lambda>w. JStr (''0x'' @ hex_nat (unat w))) (take (ev_argument_count e) (ev_arguments e))))"
  define t where "t = (''{'' @ members_text (header_fields ''syscall'' ev)) @
    ('','' @ Q @ ''number'' @ Q @ '':'' @ Q @ dec_int (ev_number e) @ Q @ '','' @ Q @ ''name'' @ Q @ '':'') @
    json_quote (syscall_name (ev_number e)) @ ('','' @ Q @ ''arguments'' @ Q @ '':['') @ ?args @
    (''],'' @ Q @ ''result'' @ Q @ '':'' @ Q @ dec_int (ev_result e) @ Q @ '','' @ Q @ ''error'' @ Q @ '':'') @
    json_text (error_json lc (ev_error_number e)) @
    ('','' @ Q @ ''duration_ns'' @ Q @ '':'' @ Q @ dec_nat (unat ns) @ Q @ '','' @ Q @ ''text'' @ Q @ '':'') @
    json_quote line @ ''}''"
  have "event_json lc line ns ev = JObj (header_fields ''syscall'' ev @ syscall_fields lc line ns e)"
    by (simp add: event_json_def event_type_def event_fields_def data)
  then have written_as: "json_text (event_json lc line ns ev) = t"
    by (simp only: object_text header_fields_def syscall_fields_def list.distinct simp_thms)
      (simp add: members_text_def t_def header_fields_def quoted_keys json_quote_plain plain_keys)
  have "length line \<le> length (json_quote line)"
    by (induction line) (auto simp: json_quote_def json_escape_def)
  then have le: "length line \<le> length t" by (simp add: t_def)
  show ?thesis unfolding written_as
  proof (rule renders_nested [OF line(1) _ le])
    show "append_json_syscall lc out ev e h b =
      (case sg_decode_syscall lc (out_decoder out) (event_tid ev) e h sg_buffer_init of None \<Rightarrow> None
       | Some (ok, h1, inner) \<Rightarrow> if \<not> ok then Some (False, h1, b)
           else json_syscall_body lc ev e (buffer_text inner) h1 b)" for h b
      by (simp add: append_json_syscall_def)
    show "renders (json_syscall_body lc ev e line) t"
      unfolding t_def json_syscall_body_def ns option.case
      using len number_less [of ns]
      by (intro renders_and_then renders_header ev renders_fmt renders_cstr renders_json_string syscall_name_ok(2) n
          renders_json_arguments e renders_error env(2) line(2)) simp_all
  qed
qed

lemma renders_json_event:
  assumes env: "reader_ok (out_decoder out)" "libc_ok lc" "libc_plain lc" and ev: "sg_event_ok ev"
    and ns: "\<And>e. event_data ev = SG_EVENT_SYSCALL e \<Longrightarrow> output_elapsed e = Some ns"
  shows "\<exists>line. renders (append_json_event lc out ev) (json_text (event_json lc line ns ev)) \<and>
    (\<forall>e. event_data ev = SG_EVENT_SYSCALL e \<longrightarrow>
       renders (sg_decode_syscall lc (out_decoder out) (event_tid ev) e) line)"
proof (cases "event_data ev")
  case (SG_EVENT_SYSCALL e)
  then have e: "event_ok e" using ev by (simp add: sg_event_ok_def)
  obtain line where l: "NUL \<notin> set line" "renders (sg_decode_syscall lc (out_decoder out) (event_tid ev) e) line"
    using writes1_decode(3) [OF env(1,2) e] by (auto simp: writes1_def)
  with renders_json_syscall [OF env(1,2) ev SG_EVENT_SYSCALL ns [OF SG_EVENT_SYSCALL] l(2,1)] SG_EVENT_SYSCALL
  show ?thesis by (auto simp: append_json_event_def)
next
  case (SG_EVENT_SIGNAL sig)
  let ?name = "case sigabbrev_np lc (signal_number sig) of None \<Rightarrow> JNull | Some a \<Rightarrow> JStr (''SIG'' @ a)"
  let ?addr = "if fault_address sig = 0 then JNull else JStr (''0x'' @ hex_nat (unat (fault_address sig)))"
  have len: "length (dec_int (signal_number sig)) \<le> 100" "length (dec_int (signal_code sig)) \<le> 100"
    using ev SG_EVENT_SIGNAL by (auto simp: sg_event_ok_def intro: in_long_length)
  have name: "renders (case sigabbrev_np lc (signal_number sig) of None \<Rightarrow> cstr ''null''
      | Some abbreviation \<Rightarrow> fmt (Q @ ''SIG'' @ abbreviation @ Q)) (json_text ?name)"
  proof (cases "sigabbrev_np lc (signal_number sig)")
    case (Some a)
    then have "plain a" "length a \<le> 1024" using env(3) libc_okD(1) [OF env(2) Some] by (auto simp: libc_plain_def)
    then show ?thesis using Some renders_fmt [of "Q @ ''SIG'' @ a @ Q"] by (simp add: json_quote_prefixed)
  qed (simp add: renders_cstr)
  have addr: "renders (if fault_address sig = 0 then cstr ''null}''
      else fmt (Q @ ''0x'' @ hex_nat (unat (fault_address sig)) @ Q @ ''}'')) (json_text ?addr @ ''}'')"
    using number_less(2) [of "fault_address sig"]
      renders_fmt [of "Q @ ''0x'' @ hex_nat (unat (fault_address sig)) @ Q @ ''}''"]
    by (simp add: renders_cstr json_quote_prefixed)
  have "renders (append_json_event lc out ev) ((''{'' @ members_text (header_fields ''signal'' ev)) @
      ('','' @ Q @ ''number'' @ Q @ '':'' @ dec_int (signal_number sig) @ '','' @ Q @ ''name'' @ Q @ '':'') @
      json_text ?name @ ('','' @ Q @ ''code'' @ Q @ '':'' @ dec_int (signal_code sig) @
                           '','' @ Q @ ''fault_address'' @ Q @ '':'') @ json_text ?addr @ ''}'')"
    unfolding append_json_event_def SG_EVENT_SIGNAL sg_event_data.case using len
    by (intro renders_and_then renders_header ev name addr renders_fmt) simp_all
  then show ?thesis using SG_EVENT_SIGNAL
    by (simp add: event_json_def event_type_def event_fields_def members_text_def header_fields_def quoted_keys)
next
  case (SG_EVENT_PROCESS_START life)
  have len: "length (dec_int (related_tid life)) \<le> 100"
    using ev SG_EVENT_PROCESS_START by (auto simp: sg_event_ok_def intro: in_long_length)
  have "unat (ptrace_event life) < 2 ^ LENGTH(32)" by (rule unsigned_less)
  then have "length (dec_nat (unat (ptrace_event life))) \<le> 64" by (intro dec_nat_length) simp_all
  with len have "renders (append_json_event lc out ev) ((''{'' @ members_text (header_fields ''process-start'' ev)) @
      ('','' @ Q @ ''child_tid'' @ Q @ '':'' @ dec_int (related_tid life) @ '','' @ Q @ ''ptrace_event'' @
                  Q @ '':'' @ dec_nat (unat (ptrace_event life)) @ ''}''))"
    unfolding append_json_event_def SG_EVENT_PROCESS_START sg_event_data.case
    by (intro renders_and_then renders_header ev renders_fmt) simp_all
  then show ?thesis using SG_EVENT_PROCESS_START
    by (simp add: event_json_def event_type_def event_fields_def members_text_def header_fields_def quoted_keys dec_int_def)
next
  case (SG_EVENT_PROCESS_EXIT life)
  have len: "length (dec_int (status life)) \<le> 100"
    using ev SG_EVENT_PROCESS_EXIT by (auto simp: sg_event_ok_def intro: in_long_length)
  then have "renders (append_json_event lc out ev) ((''{'' @ members_text (header_fields ''process-exit'' ev)) @
      ('','' @ Q @ ''status'' @ Q @ '':'' @ dec_int (status life) @ '','' @ Q @ ''signaled'' @
                  Q @ '':'' @ (if signaled life then ''true'' else ''false'') @ ''}''))"
    unfolding append_json_event_def SG_EVENT_PROCESS_EXIT sg_event_data.case
    by (intro renders_and_then renders_header ev renders_fmt) simp_all
  then show ?thesis using SG_EVENT_PROCESS_EXIT
    by (simp add: event_json_def event_type_def event_fields_def members_text_def header_fields_def quoted_keys)
qed

section \<open>One record, one line\<close>

definition no_control :: "string \<Rightarrow> bool" where
  "no_control s \<longleftrightarrow> list_all (\<lambda>c. 32 \<le> (of_char c :: nat)) s"

lemma no_control_simps [simp]:
  "no_control []" "no_control (c # s) \<longleftrightarrow> 32 \<le> (of_char c :: nat) \<and> no_control s"
  "no_control (s @ t) \<longleftrightarrow> no_control s \<and> no_control t"
  by (auto simp: no_control_def)

lemma no_control_join: "no_control sep \<Longrightarrow> (\<And>s. s \<in> set ss \<Longrightarrow> no_control s) \<Longrightarrow> no_control (join sep ss)"
  by (induction ss) (auto simp: join_Cons)

lemma no_control_escape: "no_control (json_escape c)"
proof -
  have "32 \<le> (of_char (digit_char d) :: nat)" if "d < 16" for d
    using digit_char_ge_48 [OF that] by linarith
  then have "32 \<le> (of_char (digit_char (of_char c div 16)) :: nat)" "32 \<le> (of_char (digit_char (of_char c mod 16)) :: nat)"
    using of_char_div_16 [of c] by simp_all
  then show ?thesis by (simp add: json_escape_def)
qed

lemma no_control_quote: "no_control (json_quote s)"
proof -
  have "no_control (concat (map json_escape s))" by (induction s) (simp_all add: no_control_escape)
  then show ?thesis by (simp add: json_quote_def)
qed

lemma plain_no_control: "plain s \<Longrightarrow> no_control s"
  by (auto simp: plain_def no_control_def list_all_iff)

lemma no_control_json: "no_control (json_text j)"
proof (induction j rule: json.induct)
  case (JArr js)
  then show ?case by (auto intro!: no_control_join)
next
  case (JObj fs)
  then have "no_control (json_quote k @ '':'' @ json_text v)" if "(k, v) \<in> set fs" for k v
    using that by (auto simp: no_control_quote)
  then show ?case by (auto intro!: no_control_join)
qed (simp_all add: no_control_quote plain_no_control)

section \<open>The summary\<close>

definition row_json :: "sg_stats \<Rightarrow> sg_syscall_stat \<Rightarrow> json" where
  "row_json stats row = JObj
     [(''number'', JStr (dec_int (st_number row))), (''name'', JStr (syscall_name (st_number row))),
      (''calls'', JStr (dec_nat (unat (calls row)))), (''errors'', JStr (dec_nat (unat (errors row)))),
      (''nanoseconds'', JStr (dec_nat (unat (nanoseconds row)))),
      (''average_nanoseconds'', JStr (dec_nat (if calls row = 0 then 0 else unat (nanoseconds row) div unat (calls row)))),
      (''percent'', JStr (fixed_format 2 (percent_of stats row)))]"

definition summary_json :: "sg_stats \<Rightarrow> sg_syscall_stat list \<Rightarrow> json" where
  "summary_json stats rows = JObj
     [(''schema'', JStr ''sysgaze.summary/v1''), (''type'', JStr ''summary''),
      (''total_calls'', JStr (dec_nat (unat (total_calls stats)))),
      (''total_errors'', JStr (dec_nat (unat (total_errors stats)))),
      (''total_nanoseconds'', JStr (dec_nat (unat (total_nanoseconds stats)))),
      (''syscalls'', JArr (map (row_json stats) rows))]"

text \<open>A formatted double is short: its integral part has no more digits than its numerator.\<close>

lemma dec_nat_length_pow: "n < 2 ^ k \<Longrightarrow> 0 < k \<Longrightarrow> length (dec_nat n) \<le> k"
proof -
  assume n: "n < 2 ^ k" and k: "0 < k"
  have "(2::nat) ^ k \<le> 10 ^ k" by (rule power_mono) simp_all
  with n have "n < 10 ^ k" by linarith
  then show ?thesis using k unfolding dec_nat_def by (intro nat_format_length) simp_all
qed

lemma fixed_format_ok:
  assumes "places \<le> 6" and "fst x < 2 ^ 600"
  shows "length (fixed_format places x) \<le> 2000" and "plain (fixed_format places x)"
proof -
  define v where "v = nearest (fst x * 10 ^ places) (snd x)"
  have "(10::nat) ^ places \<le> 10 ^ 6" using assms(1) by (intro power_increasing) simp_all
  then have "fst x * 10 ^ places \<le> fst x * 2 ^ 24" by (intro mult_left_mono) simp_all
  also have "\<dots> < 2 ^ 600 * 2 ^ 24" using assms(2) by (intro mult_strict_right_mono) simp_all
  finally have "fst x * 10 ^ places + 1 \<le> 2 ^ 624" by (simp only: power_add [symmetric]) simp
  then have "v \<le> 2 ^ 624" using nearest_le [of "fst x * 10 ^ places" "snd x"] by (simp only: v_def)
  then have v: "v < 2 ^ 625" by (rule le_less_trans) simp
  have "length (dec_nat (v div 10 ^ places)) \<le> 625" "length (dec_nat (v mod 10 ^ places)) \<le> 625"
    by (rule dec_nat_length_pow [OF le_less_trans [OF div_le_dividend v]] dec_nat_length_pow [OF le_less_trans [OF mod_less_eq_dividend v]], simp)+
  then show "length (fixed_format places x) \<le> 2000"
    using assms(1) by (simp add: fixed_format_def Let_def pad_zero_def flip: v_def)
  have "plain (replicate n CHR ''0'')" for n by (induction n) simp_all
  then show "plain (fixed_format places x)" by (simp add: fixed_format_def Let_def pad_zero_def)
qed

lemma double_of_size:
  "fst (double_of w) < 2 ^ 119" "snd (double_of w) < 2 ^ 55" "0 < snd (double_of w)"
  "w \<noteq> 0 \<Longrightarrow> 0 < fst (double_of w)"
proof -
  have w: "unat w < 2 ^ 64" using unat_lt_u64 [of w] by simp
  have one: "(1::nat) < 2 ^ 1" "0 < (1::nat)" by simp_all
  note size = round_double_size [OF w one]
  show "fst (double_of w) < 2 ^ 119" using size(1) by (simp only: double_of_def) simp
  show "snd (double_of w) < 2 ^ 55"
    unfolding double_of_def by (rule le_less_trans [OF size(2)]) simp
  show "0 < snd (double_of w)" using size(3) by (simp only: double_of_def)
  show "0 < fst (double_of w)" if "w \<noteq> 0" using size(4) that by (simp add: double_of_def unat_gt_0)
qed

lemma mult_less_pow: "a < 2 ^ p \<Longrightarrow> b < 2 ^ q \<Longrightarrow> a * b < (2::nat) ^ (p + q)"
  unfolding power_add by (rule mult_strict_mono) simp_all

lemma seconds_of_size: "fst (seconds_of w) < 2 ^ 600"
proof -
  have n: "fst (double_of w) * 1 < 2 ^ 119" using double_of_size(1) [of w] by simp
  have d: "snd (double_of w) * 1000000000 < 2 ^ (55 + 30)" using double_of_size(2) [of w] by (intro mult_less_pow) simp_all
  have "fst (seconds_of w) < 2 ^ (119 + (55 + 30) + 54)"
    unfolding seconds_of_def double_divide_def fst_conv snd_conv
    by (rule round_double_size(1) [OF n d]) (simp add: double_of_size(3))
  also have "\<dots> \<le> (2::nat) ^ 600" by (intro power_increasing) simp_all
  finally show ?thesis .
qed

lemma percent_of_size: "fst (percent_of stats row) < 2 ^ 600"
proof (cases "total_nanoseconds stats = 0")
  case False
  let ?a = "double_of (nanoseconds row)" and ?t = "double_of (total_nanoseconds stats)"
  have n: "fst ?a * 100 < 2 ^ (119 + 7)" using double_of_size(1) by (intro mult_less_pow) simp_all
  note times = round_double_size [OF n double_of_size(2) [of "nanoseconds row"] double_of_size(3)]
  let ?p = "double_times ?a 100"
  have p: "fst ?p < 2 ^ (119 + 7 + 55 + 54)" "snd ?p < 2 ^ (55 + 53 + 1)" "0 < snd ?p"
    using times(1,3) le_less_trans [OF times(2)] by (simp_all add: double_times_def)
  have num: "fst ?p * snd ?t < 2 ^ (119 + 7 + 55 + 54 + 55)" by (rule mult_less_pow [OF p(1) double_of_size(2)])
  have den: "snd ?p * fst ?t < 2 ^ (55 + 53 + 1 + 119)" by (rule mult_less_pow [OF p(2) double_of_size(1)])
  have "fst (percent_of stats row) < 2 ^ (119 + 7 + 55 + 54 + 55 + (55 + 53 + 1 + 119) + 54)"
    using False p(3) double_of_size(4) [OF False] round_double_size(1) [OF num den]
    by (simp add: percent_of_def double_divide_def)
  also have "\<dots> \<le> (2::nat) ^ 600" by (intro power_increasing) simp_all
  finally show ?thesis .
qed (simp add: percent_of_def)

lemmas percent_text = fixed_format_ok [OF _ percent_of_size]
lemmas seconds_text = fixed_format_ok [OF _ seconds_of_size]

lemma renders_json_row:
  assumes "in_long (st_number row)"
  shows "renders (append_json_row stats row) (json_text (row_json stats row))"
proof -
  have len: "length (dec_int (st_number row)) \<le> 100" "length (fixed_format 2 (percent_of stats row)) \<le> 2000"
    using in_long_length [OF assms] percent_text(1) [of 2 stats row] by simp_all
  have avg: "unat (if calls row = 0 then 0 else nanoseconds row div calls row) =
      (if calls row = 0 then 0 else unat (nanoseconds row) div unat (calls row))" by (simp add: unat_div)
  let ?avg = "if calls row = 0 then 0 else nanoseconds row div calls row"
  have "renders (append_json_row stats row)
      ((''{'' @ Q @ ''number'' @ Q @ '':'' @ Q @ dec_int (st_number row) @ Q @ '','' @ Q @ ''name'' @ Q @ '':'') @
       json_quote (syscall_name (st_number row)) @
       ('','' @ Q @ ''calls'' @ Q @ '':'' @ Q @ dec_nat (unat (calls row)) @ Q @
        '','' @ Q @ ''errors'' @ Q @ '':'' @ Q @ dec_nat (unat (errors row)) @ Q @
        '','' @ Q @ ''nanoseconds'' @ Q @ '':'' @ Q @ dec_nat (unat (nanoseconds row)) @ Q @
        '','' @ Q @ ''average_nanoseconds'' @ Q @ '':'' @ Q @ dec_nat (unat ?avg) @ Q @
        '','' @ Q @ ''percent'' @ Q @ '':'' @ Q @ fixed_format 2 (percent_of stats row) @ Q @ ''}''))"
    unfolding append_json_row_def Let_def
    using len number_less(1) [of "calls row"] number_less(1) [of "errors row"] number_less(1) [of "nanoseconds row"]
      number_less(1) [of ?avg]
    by (intro renders_and_then renders_fmt renders_json_string syscall_name_ok(2) assms) simp_all
  then show ?thesis
    unfolding avg by (rule renders_cong) (simp add: row_json_def quoted_keys json_quote_plain percent_text)
qed

lemma length_pad_left: "length (pad_left w s) \<le> w + length s"
  by (simp add: pad_left_def)

lemma renders_text_row:
  assumes "in_long (st_number row)"
  shows "renders (fmt (text_row stats row)) (text_row stats row)"
proof (rule renders_fmt)
  let ?us = "if calls row = 0 then 0 else nanoseconds row div calls row div 1000"
  have "length (text_row stats row) \<le> 6 + 2000 + (11 + 2000) + (11 + 100) + (9 + 100) + (9 + 100) + 200 + 6"
    using length_pad_left [of 6 "fixed_format 2 (percent_of stats row)"] percent_text(1) [of 2 stats row]
      length_pad_left [of 11 "fixed_format 6 (seconds_of (nanoseconds row))"] seconds_text(1) [of 6 "nanoseconds row"]
      length_pad_left [of 11 "dec_nat (unat ?us)"] number_less(1) [of ?us]
      length_pad_left [of 9 "dec_nat (unat (calls row))"] number_less(1) [of "calls row"]
      length_pad_left [of 9 "dec_nat (unat (errors row))"] number_less(1) [of "errors row"]
      syscall_name_ok(1) [OF assms]
    unfolding text_row_def Let_def length_append by (simp del: number_length_u64)
  then show "int (length (text_row stats row)) \<le> INT_MAX" by simp
qed

lemma length_total_row: "length (total_row stats) \<le> 10000"
proof -
  let ?x = "if total_nanoseconds stats = 0 then (0, 1) else (100, 1)"
  have "fst ?x < (2::nat) ^ 600" by simp
  then have f: "length (fixed_format 2 ?x) \<le> 2000" by (intro fixed_format_ok) simp_all
  have "length (total_row stats) \<le> 6 + 2000 + (11 + 2000) + 11 + (9 + 100) + (9 + 100) + 12"
    using length_pad_left [of 6 "fixed_format 2 ?x"] f
      length_pad_left [of 11 "fixed_format 6 (seconds_of (total_nanoseconds stats))"]
      seconds_text(1) [of 6 "total_nanoseconds stats"] length_pad_left [of 11 "[]"]
      length_pad_left [of 9 "dec_nat (unat (total_calls stats))"] number_less(1) [of "total_calls stats"]
      length_pad_left [of 9 "dec_nat (unat (total_errors stats))"] number_less(1) [of "total_errors stats"]
    unfolding total_row_def length_append by (simp del: number_length_u64)
  then show ?thesis by simp
qed

lemma renders_total_row: "renders (fmt (total_row stats)) (total_row stats)"
  by (rule renders_fmt) (use length_total_row [of stats] in simp)

definition text_summary :: "sg_stats \<Rightarrow> sg_syscall_stat list \<Rightarrow> string" where
  "text_summary stats rows =
     (title_line @ rule_line) @ concat (map (text_row stats) rows) @ rule_line @ total_row stats"

lemma renders_text_summary:
  assumes "\<forall>r \<in> set rows. in_long (st_number r)"
  shows "renders (text_summary_body stats rows) (text_summary stats rows)"
proof -
  have "renders (emit_all (map (\<lambda>row. fmt (text_row stats row)) rows)) (concat (map (text_row stats) rows))"
    using assms renders_text_row by (intro renders_emit_all) (simp add: list_all2_conv_all_nth)
  then show ?thesis
    unfolding text_summary_def text_summary_body_def
    by (intro renders_and_then renders_cstr renders_total_row) (simp_all add: title_line_def rule_line_def)
qed

lemma renders_json_summary:
  assumes "\<forall>r \<in> set rows. in_long (st_number r)"
  shows "renders (json_summary_body stats rows) (json_text (summary_json stats rows))"
proof -
  let ?ts = "\<lambda>i. json_text (row_json stats (rows ! i))"
  have "renders (and_then (if i = 0 then skip else cstr '','') (append_json_row stats (rows ! i)))
      ((if i \<noteq> 0 then '','' else []) @ ?ts i)" if "i < length rows" for i
    using that assms by (intro renders_and_then renders_json_row) (auto simp: renders_skip renders_cstr)
  then have "renders (emit_all (map (\<lambda>index. and_then (if index = 0 then skip else cstr '','')
      (append_json_row stats (rows ! index))) [0..<length rows])) (join '','' (map ?ts [0..<length rows]))"
    unfolding join_upt [symmetric] by (rule renders_emit_upt)
  moreover have "map ?ts [0..<length rows] = map json_text (map (row_json stats) rows)"
    by (intro nth_equalityI) simp_all
  ultimately have rows: "renders (emit_all (map (\<lambda>index. and_then (if index = 0 then skip else cstr '','')
      (append_json_row stats (rows ! index))) [0..<length rows])) (join '','' (map json_text (map (row_json stats) rows)))"
    by simp
  show ?thesis
    using number_less(1) [of "total_calls stats"] number_less(1) [of "total_errors stats"]
      number_less(1) [of "total_nanoseconds stats"]
    unfolding json_summary_body_def
    by (intro renders_cong [OF renders_and_then [OF renders_fmt renders_and_then [OF rows renders_cstr]]])
      (simp_all add: summary_json_def quoted_keys json_quote_plain)
qed

section \<open>The first and the last record\<close>

definition metadata_json :: json where
  "metadata_json = JObj [(''schema'', JStr SG_SCHEMA), (''type'', JStr ''metadata''),
     (''architecture'', JStr ''x86_64''), (''format'', JStr ''ndjson'')]"

lemma output_init_correct:
  fixes st fm d tids summarize
  defines "out \<equiv> \<lparr>out_stream = st, out_decoder = d, out_format = fm, unfinished_tids = [],
    unfinished_count = 0, unfinished_capacity = 0, show_tids = tids, out_summary = summarize\<rparr>"
  shows "if fm = SG_FORMAT_TEXT \<or> summarize then sg_output_init h st fm d tids summarize = Some (None, h, out)
    else writes_line h out (json_text metadata_json) (sg_output_init h st fm d tids summarize)"
proof -
  let ?em = "and_then (append_json_header ''metadata'' None)
     (cstr ('','' @ Q @ ''architecture'' @ Q @ '':'' @ Q @ ''x86_64'' @ Q @ '','' @ Q @ ''format'' @ Q @ '':'' @
            Q @ ''ndjson'' @ Q @ ''}''))"
  have "renders ?em
     (((''{'' @ Q @ ''schema'' @ Q @ '':'' @ Q) @ SG_SCHEMA @ (Q @ '','' @ Q @ ''type'' @ Q @ '':'') @
       json_quote ''metadata'' @ []) @ '','' @ Q @ ''architecture'' @ Q @ '':'' @ Q @ ''x86_64'' @ Q @ '','' @ Q @
       ''format'' @ Q @ '':'' @ Q @ ''ndjson'' @ Q @ ''}'')"
    unfolding append_json_header_def option.case
    by (intro renders_and_then renders_cstr renders_json_string renders_skip) (simp_all add: SG_SCHEMA_def)
  then have "renders ?em (json_text metadata_json)"
    by (rule renders_cong) (simp add: metadata_json_def quoted_keys)
  then show ?thesis
    unfolding sg_output_init_def Let_def out_def [symmetric] using write_rendered_line by simp
qed

definition summary_text :: "sg_output_format \<Rightarrow> sg_stats \<Rightarrow> string" where
  "summary_text fm stats =
     (let rows = qsort compare_rows (st_rows stats)
      in if fm = SG_FORMAT_TEXT then text_summary stats rows else json_text (summary_json stats rows))"

text \<open>Writing a summary returns, whatever fails; when it succeeds, the text and a newline are written.\<close>

lemma write_summary_correct:
  assumes "\<forall>r \<in> set (st_rows stats). in_long (st_number r)" and "unat (st_count stats) = length (st_rows stats)"
  shows "\<exists>e h' st. sg_output_write_summary h out stats = Some (e, h', out\<lparr>out_stream := st\<rparr>) \<and>
    (e = None \<longrightarrow> written st =
       written (out_stream out) @ (if out_summary out then summary_text (out_format out) stats @ [CHR 0x0A] else [])) \<and>
    (h = [] \<and> st_rows stats = [] \<and> answers (out_stream out) = [] \<and> length (summary_text (out_format out) stats) + 2 < 2 ^ 64 \<longrightarrow>
       e = None \<and> answers st = [])"
proof (cases "out_summary out")
  case False
  then show ?thesis by (auto simp: sg_output_write_summary_def intro: exI [of _ "out_stream out"])
next
  case True
  let ?body = "\<lambda>rows. if out_format out = SG_FORMAT_TEXT then text_summary_body stats rows else json_summary_body stats rows"
  obtain ok rows n h1 where copy: "sg_stats_sorted_copy h stats = ((ok, rows, n), h1)" by (metis surj_pair)
  have run: "sg_output_write_summary h out stats = (if \<not> ok then Some (Some Out_No_Sorted, h1, out)
      else write_rendered Out_No_Summary out (?body rows h1 sg_buffer_init))"
    using True copy by (simp add: sg_output_write_summary_def write_text_summary_def write_json_summary_def)
  have rows: "rows = qsort compare_rows (st_rows stats)" if ok
    using copy that assms(2) by (auto simp: sg_stats_sorted_copy_def qsort_def split: if_splits prod.splits)
  have "\<forall>r \<in> set (qsort compare_rows (st_rows stats)). in_long (st_number r)"
    using assms(1) mset_eq_setD [OF cmp.mset_qsort, of "st_rows stats"] by simp
  then have "writes_line h1 out (summary_text (out_format out) stats)
      (write_rendered Out_No_Summary out (?body rows h1 sg_buffer_init))" if ok
    using rows [OF that] write_rendered_line [OF renders_text_summary] write_rendered_line [OF renders_json_summary]
    by (simp add: summary_text_def Let_def)
  moreover have "ok \<and> h1 = []" if "st_rows stats = []" "h = []"
    using copy assms(2) that by (simp add: sg_stats_sorted_copy_def unat_eq_zero)
  ultimately show ?thesis
    using True run by (cases ok) (fastforce simp: writes_line_def intro: exI [of _ "out_stream out"])+
qed

section \<open>Any event in any format\<close>

lemma output_elapsed_defined: "valid_times e \<Longrightarrow> \<exists>ns. output_elapsed e = Some ns"
  by (auto simp: valid_times_def output_elapsed_def INT64_ok_def Let_def)

text \<open>Whatever fails, writing an event returns and keeps the output well-formed and set up as it was.\<close>

lemma write_event_correct:
  assumes env: "reader_ok (out_decoder out)" "libc_ok lc" "libc_plain lc" and ev: "sg_event_ok ev"
    and times: "\<And>e. event_data ev = SG_EVENT_SYSCALL e \<Longrightarrow> valid_times e" and wf: "output_wf out"
  shows "\<exists>e h' out'. sg_output_write_event lc h out ev = Some (e, h', out') \<and> output_wf out' \<and> same_setup out out'"
proof -
  have text_case: ?thesis if "\<not> out_summary out" "out_format out = SG_FORMAT_TEXT"
    using write_text_event_log [OF env(1,2) ev wf, of h] that
    unfolding log_result_def sg_output_write_event_def by auto
  have json: ?thesis if fm: "\<not> out_summary out" "out_format out \<noteq> SG_FORMAT_TEXT" "\<not> is_unfinished_syscall ev"
  proof -
    obtain ns where ns: "\<And>e. event_data ev = SG_EVENT_SYSCALL e \<Longrightarrow> output_elapsed e = Some ns"
      using times output_elapsed_defined by (cases "event_data ev") fastforce+
    obtain s where s: "renders (append_json_event lc out ev) s"
      using renders_json_event [OF env ev ns] by blast
    have "writes_line h out s (sg_output_write_event lc h out ev)"
      using write_rendered_line [OF s] fm by (simp add: sg_output_write_event_def)
    then show ?thesis using wf by (auto simp: writes_line_def output_wf_def same_setup_def)
  qed
  show ?thesis
    using text_case json wf by (cases "out_summary out \<or> (out_format out \<noteq> SG_FORMAT_TEXT \<and> is_unfinished_syscall ev)")
      (auto simp: sg_output_write_event_def same_setup_def)
qed

section \<open>Where the summary goes\<close>

lemma sorted_rows:
  "mset (qsort compare_rows rs) = mset rs"
  "sorted_wrt (\<lambda>a b. nanoseconds a \<ge> nanoseconds b) (qsort compare_rows rs)"
proof -
  show "mset (qsort compare_rows rs) = mset rs" by (simp add: cmp.mset_qsort)
  show "sorted_wrt (\<lambda>a b. nanoseconds a \<ge> nanoseconds b) (qsort compare_rows rs)"
    using cmp.sorted_qsort
    by (rule sorted_wrt_mono_rel [rotated])
      (auto simp: compare_rows_chain then_by_def by_time_def split: if_splits)
qed

text \<open>The three ways a summary can go: none is wanted, the copy of the rows is refused, or one line.\<close>

lemma write_summary_line:
  assumes "unat (st_count stats) = length (st_rows stats)" and "\<forall>r \<in> set (st_rows stats). in_long (st_number r)"
    and "length (st_rows stats) < 2 ^ 59" and "out_summary out"
  shows "if st_rows stats \<noteq> [] \<and> \<not> fst (alloc h)
    then sg_output_write_summary h out stats = Some (Some Out_No_Sorted, snd (alloc h), out)
    else writes_line h out (summary_text (out_format out) stats) (sg_output_write_summary h out stats)"
proof -
  define rows where "rows = qsort compare_rows (st_rows stats)"
  have empty: "st_rows stats = [] \<longleftrightarrow> st_count stats = 0" using assms(1) by (auto simp: word_nat)
  have "\<forall>r \<in> set rows. in_long (st_number r)"
    using assms(2) mset_eq_setD [OF sorted_rows(1), of "st_rows stats"] by (simp add: rows_def)
  then have line: "writes_line h1 out (summary_text (out_format out) stats) (write_rendered Out_No_Summary out
      ((if out_format out = SG_FORMAT_TEXT then text_summary_body stats rows else json_summary_body stats rows)
         h1 sg_buffer_init))" for h1
    using write_rendered_line [OF renders_text_summary] write_rendered_line [OF renders_json_summary]
    by (simp add: summary_text_def rows_def Let_def)
  have small: "\<not> st_count stats > SIZE_MAX div sizeof_stat"
    using assms(1,3) by (simp add: word_less_nat_alt sizeof_stat_def unat_div)
  obtain ok h' where a: "alloc h = (ok, h')" by (cases "alloc h")
  note defs = sg_output_write_summary_def write_text_summary_def write_json_summary_def sg_stats_sorted_copy_def
  consider "st_rows stats = []" | "st_rows stats \<noteq> []" ok | "st_rows stats \<noteq> []" "\<not> ok" by blast
  then show ?thesis
  proof cases
    case 1
    then show ?thesis using assms(4) line [of h] empty by (simp add: defs rows_def qsort_def split: if_splits)
  next
    case 2
    have "writes_line h' out (summary_text (out_format out) stats) (sg_output_write_summary h out stats)"
      using 2 assms(4) line [of h'] empty a small by (simp add: defs flip: rows_def split: if_splits)
    then show ?thesis using 2 a writes_line_suffix alloc_suffix [OF a] by auto
  next
    case 3
    then show ?thesis using assms(4) empty a small by (simp add: defs)
  qed
qed

section \<open>Properties\<close>

text \<open>
  C38. In NDJSON format every event except an unfinished call becomes one line: the compact text
  of the JSON object of the event. The text holds no control character, so the newline after it
  is the only one, and reading it gives the object back; for a call the member \<open>text\<close> is the line
  the decoder renders. Only a prefix of the line is written when a write fails. An unfinished
  call writes nothing.
\<close>

theorem ndjson_record:
  assumes "reader_ok (out_decoder out)" and "libc_ok lc" and "libc_plain lc" and "sg_event_ok ev"
    and "out_format out \<noteq> SG_FORMAT_TEXT" and "\<not> out_summary out"
    and "\<And>e. event_data ev = SG_EVENT_SYSCALL e \<Longrightarrow> output_elapsed e = Some ns"
  shows "if is_unfinished_syscall ev then sg_output_write_event lc h out ev = Some (None, h, out)
    else \<exists>line. writes_line h out (json_text (event_json lc line ns ev)) (sg_output_write_event lc h out ev) \<and>
      read_json (json_text (event_json lc line ns ev)) = Some (event_json lc line ns ev, []) \<and>
      no_control (json_text (event_json lc line ns ev)) \<and>
      (\<forall>e. event_data ev = SG_EVENT_SYSCALL e \<longrightarrow>
         renders (sg_decode_syscall lc (out_decoder out) (event_tid ev) e) line)"
proof (cases "is_unfinished_syscall ev")
  case True
  then show ?thesis using assms(5,6) by (simp add: sg_output_write_event_def)
next
  case False
  then have step: "sg_output_write_event lc h out ev =
      write_rendered Out_No_Event out (append_json_event lc out ev h sg_buffer_init)"
    using assms(5,6) by (simp add: sg_output_write_event_def)
  obtain line where l: "renders (append_json_event lc out ev) (json_text (event_json lc line ns ev))"
      "\<forall>e. event_data ev = SG_EVENT_SYSCALL e \<longrightarrow>
         renders (sg_decode_syscall lc (out_decoder out) (event_tid ev) e) line"
    using renders_json_event [OF assms(1-4,7)] by blast
  have "writes_line h out (json_text (event_json lc line ns ev)) (sg_output_write_event lc h out ev)"
    unfolding step by (rule write_rendered_line [OF l(1)])
  with False l(2) read_json_text no_control_json show ?thesis by auto
qed

definition demo_signal :: sg_event where
  "demo_signal = \<lparr>event_tid = 7, event_tgid = 7, observed_at = zero_timespec,
     event_data = SG_EVENT_SIGNAL \<lparr>signal_number = 11, signal_code = 1, fault_address = 16\<rparr>\<rparr>"

theorem ndjson_record_witness:
  "\<exists>line. writes_line [] (demo_output\<lparr>out_format := SG_FORMAT_NDJSON\<rparr>)
      (json_text (event_json no_libc line 0 demo_signal))
      (sg_output_write_event no_libc [] (demo_output\<lparr>out_format := SG_FORMAT_NDJSON\<rparr>) demo_signal) \<and>
    read_json (json_text (event_json no_libc line 0 demo_signal)) = Some (event_json no_libc line 0 demo_signal, []) \<and>
    no_control (json_text (event_json no_libc line 0 demo_signal))"
proof -
  have ok: "sg_event_ok demo_signal" "\<not> is_unfinished_syscall demo_signal" "libc_plain no_libc"
      "reader_ok (out_decoder (demo_output\<lparr>out_format := SG_FORMAT_NDJSON\<rparr>))"
    by (simp_all add: demo_signal_def sg_event_ok_def in_long_def is_unfinished_syscall_def libc_plain_def
        no_libc_def demo_output_def)
  show ?thesis
    using ndjson_record [OF ok(4) libc_ok_no_libc ok(3,1), of 0 "[]"] ok(2)
    by (auto simp: demo_signal_def demo_output_def)
qed



end
