(* ===== verification/Trace.thy ===== *)
theory Trace
  imports Seccomp Tracee_Table Output_Json
begin

text \<open>
  The tracer, first part of \<open>src/trace.c\<close>: its context, the requests it makes to the kernel and
  the life of a system call, from the stop at its entry to the record of its result.

  The kernel is an environment. Every call to it takes the next of a list of answers, one list
  for each kind of call (\<open>world\<close>); a list that has run out stands for a kernel that fails from
  then on. The requests, and the events handed to the output, are logged in order. Tracees are read and written through the table, as
  the code does through the pointers into it.

  An operation is a function from the context to an error or a value and the context after it;
  \<open>None\<close> is undefined behaviour, such as a null pointer or an index out of range.
\<close>

section \<open>The kernel\<close>

record siginfo =
  si_signo :: int
  si_code :: int
  si_addr :: u64

text \<open>\<open>struct ptrace_syscall_info\<close>; \<open>entry\<close> and \<open>seccomp\<close> share the number and the arguments.\<close>

record ptrace_syscall_info =
  info_op :: nat
  info_arch :: u32
  info_nr :: u64
  info_args :: "u64 list"
  info_rval :: int
  info_is_error :: nat

datatype ptrace_request =
    PT_SYSCALL int int
  | PT_CONT int int
  | PT_LISTEN int
  | PT_SETOPTIONS int u64
  | PT_SEIZE int u64
  | PT_INTERRUPT int
  | PT_DETACH int int
  | PT_GETEVENTMSG int
  | PT_GETSIGINFO int
  | PT_GET_SYSCALL_INFO int
  | KILL int int

text \<open>
  A return of \<open>waitpid\<close>: the shutdown signal that has arrived by then and the one that arrives
  while the stop is handled (0 for none), what memory of the tracees can be read until the next
  return, and the answer itself, an error number or a thread id with its status.
\<close>

type_synonym wait_status = u32

type_synonym memory_reader = "int \<Rightarrow> u64 \<Rightarrow> nat \<Rightarrow> char list option"

record wait_return =
  signal_before :: int
  signal_after :: int
  process_vm_readv :: memory_reader
  waited_for :: "int + int \<times> wait_status"

text \<open>A listing of a task directory: the names, and the error number at its end, 0 for none.\<close>

type_synonym task_listing = "string list \<times> int"

record world =
  w_heap :: heap
  clock_answers :: "timespec option list"
  info_answers :: "(int + nat \<times> ptrace_syscall_info) list"
  message_answers :: "(int + u64) list"
  siginfo_answers :: "(int + siginfo) list"
  control_answers :: "int option list"
  status_files :: "string option list"
  wait_answers :: "wait_return list"
  task_listings :: "task_listing option list"
  requests :: "ptrace_request list"
  emitted :: "sg_event list"
  ptrace_call_count :: u64

definition next_answer :: "'a \<Rightarrow> 'a list \<Rightarrow> 'a \<times> 'a list" where
  "next_answer d xs = (case xs of [] \<Rightarrow> (d, []) | x # rest \<Rightarrow> (x, rest))"

definition EPERM :: int where "EPERM = 1"
definition ESRCH :: int where "ESRCH = 3"
definition EINTR :: int where "EINTR = 4"
definition EINVAL :: int where "EINVAL = 22"
definition SIGKILL :: int where "SIGKILL = 9"
definition SIGTRAP :: int where "SIGTRAP = 5"
definition SIGSTOP :: int where "SIGSTOP = 19"
definition SYS_execve :: int where "SYS_execve = 59"
definition SYS_execveat :: int where "SYS_execveat = 322"
definition SYS_restart_syscall :: int where "SYS_restart_syscall = 219"
definition PTRACE_SYSCALL_INFO_ENTRY :: nat where "PTRACE_SYSCALL_INFO_ENTRY = 1"
definition PTRACE_SYSCALL_INFO_EXIT :: nat where "PTRACE_SYSCALL_INFO_EXIT = 2"
definition PTRACE_SYSCALL_INFO_SECCOMP :: nat where "PTRACE_SYSCALL_INFO_SECCOMP = 3"
definition SG_RESTART_SYS :: int where "SG_RESTART_SYS = 512"
definition SG_RESTART_NOINTR :: int where "SG_RESTART_NOINTR = 513"
definition SG_RESTART_NOHAND :: int where "SG_RESTART_NOHAND = 514"
definition SG_RESTART_RESTARTBLOCK :: int where "SG_RESTART_RESTARTBLOCK = 516"

section \<open>The context\<close>

record trace_context =
  ctx_config :: sg_config
  ctx_tracees :: sg_tracee_table
  ctx_decoder :: sg_decoder
  ctx_output :: sg_output
  ctx_stats :: sg_stats
  root_tid :: int
  root_status :: int
  root_status_known :: bool
  root_exec_observed :: bool
  ctx_show_tids :: bool
  event_count :: u64
  shutdown_signal :: int
  ctx_world :: world

datatype trace_error =
    Tr_Invalid_Config
  | Tr_Json_Events
  | Tr_Output output_error
  | Tr_Open_Output
  | Tr_Output_Stream
  | Tr_Seccomp seccomp_error
  | Tr_Fork
  | Tr_Initial_Wait
  | Tr_No_Initial_Stop
  | Tr_Ptrace ptrace_request int
  | Tr_Clock
  | Tr_Stats int
  | Tr_Number_Range
  | Tr_Entry_Before_Exit
  | Tr_Capture
  | Tr_Truncated_Info
  | Tr_Foreign_Abi
  | Tr_Unexpected_Stop nat
  | Tr_No_Tracee_Memory int
  | Tr_Unexpected_Event nat
  | Tr_Child_Tid int
  | Tr_Former_Range
  | Tr_Lost_Parent
  | Tr_Wait int
  | Tr_Seccomp_Setup
  | Tr_Not_Native int
  | Tr_No_Executable int
  | Tr_Open_Tasks int
  | Tr_Task_Directory int
  | Tr_Task_Too_Large
  | Tr_Task_Memory
  | Tr_No_Snapshot
  | Tr_Not_Stable
  | Tr_Handlers
  | Tr_Benchmark
  | Tr_Close_Output

type_synonym 'a tr = "trace_context \<Rightarrow> ((trace_error + 'a) \<times> trace_context) option"

definition ret :: "'a \<Rightarrow> 'a tr" where
  "ret x c = Some (Inr x, c)"

definition fail :: "trace_error \<Rightarrow> 'a tr" where
  "fail e c = Some (Inl e, c)"

definition bind_tr :: "'a tr \<Rightarrow> ('a \<Rightarrow> 'b tr) \<Rightarrow> 'b tr" where
  "bind_tr m f c =
     (case m c of
        None \<Rightarrow> None
      | Some (Inl e, c') \<Rightarrow> Some (Inl e, c')
      | Some (Inr x, c') \<Rightarrow> f x c')"

definition seq_tr :: "unit tr \<Rightarrow> 'b tr \<Rightarrow> 'b tr" where
  "seq_tr m n = bind_tr m (\<lambda>_. n)"

definition reading :: "(trace_context \<Rightarrow> 'a) \<Rightarrow> 'a tr" where
  "reading f c = Some (Inr (f c), c)"

definition updating :: "(trace_context \<Rightarrow> trace_context) \<Rightarrow> unit tr" where
  "updating f c = Some (Inr (), f c)"

text \<open>The tracee a pointer refers to, the lookup that may give a null pointer, and a store.\<close>

definition the_tracee :: "int \<Rightarrow> sg_tracee tr" where
  "the_tracee t c =
     (case sg_tracee_table_get (ctx_tracees c) t of Some (Some tr) \<Rightarrow> Some (Inr tr, c) | _ \<Rightarrow> None)"

definition find_tracee :: "int \<Rightarrow> sg_tracee option tr" where
  "find_tracee t c = map_option (\<lambda>r. (Inr r, c)) (sg_tracee_table_get (ctx_tracees c) t)"

definition set_tracee :: "int \<Rightarrow> (sg_tracee \<Rightarrow> sg_tracee) \<Rightarrow> unit tr" where
  "set_tracee t f c = map_option (\<lambda>tb. (Inr (), c\<lparr>ctx_tracees := tb\<rparr>)) (tracee_store (ctx_tracees c) t f)"

section \<open>Calls to the kernel\<close>

definition log_request :: "ptrace_request \<Rightarrow> trace_context \<Rightarrow> trace_context" where
  "log_request r c =
     (let w = ctx_world c
      in c\<lparr>ctx_world := w\<lparr>requests := requests w @ [r], ptrace_call_count := ptrace_call_count w + 1\<rparr>\<rparr>)"

text \<open>\<open>measured_ptrace\<close> for the requests that answer with success or an error number only.\<close>

definition measured_ptrace :: "ptrace_request \<Rightarrow> int option tr" where
  "measured_ptrace r c =
     (let w = ctx_world (log_request r c)
      in case next_answer (Some EPERM) (control_answers w) of
           (a, rest) \<Rightarrow> Some (Inr a, c\<lparr>ctx_world := w\<lparr>control_answers := rest\<rparr>\<rparr>))"

definition ptrace_info :: "int \<Rightarrow> (int + nat \<times> ptrace_syscall_info) tr" where
  "ptrace_info t c =
     (let w = ctx_world (log_request (PT_GET_SYSCALL_INFO t) c)
      in case next_answer (Inl EPERM) (info_answers w) of
           (a, rest) \<Rightarrow> Some (Inr a, c\<lparr>ctx_world := w\<lparr>info_answers := rest\<rparr>\<rparr>))"

definition ptrace_message :: "int \<Rightarrow> (int + u64) tr" where
  "ptrace_message t c =
     (let w = ctx_world (log_request (PT_GETEVENTMSG t) c)
      in case next_answer (Inl EPERM) (message_answers w) of
           (a, rest) \<Rightarrow> Some (Inr a, c\<lparr>ctx_world := w\<lparr>message_answers := rest\<rparr>\<rparr>))"

definition ptrace_siginfo :: "int \<Rightarrow> (int + siginfo) tr" where
  "ptrace_siginfo t c =
     (let w = ctx_world (log_request (PT_GETSIGINFO t) c)
      in case next_answer (Inl EPERM) (siginfo_answers w) of
           (a, rest) \<Rightarrow> Some (Inr a, c\<lparr>ctx_world := w\<lparr>siginfo_answers := rest\<rparr>\<rparr>))"

definition clock_gettime :: "timespec tr" where
  "clock_gettime c =
     (let w = ctx_world c
      in case next_answer None (clock_answers w) of
           (a, rest) \<Rightarrow>
             (let c' = c\<lparr>ctx_world := w\<lparr>clock_answers := rest\<rparr>\<rparr>
              in case a of None \<Rightarrow> Some (Inl Tr_Clock, c') | Some now \<Rightarrow> Some (Inr now, c')))"

section \<open>Small decisions\<close>

definition validate_runtime_options :: "sg_config \<Rightarrow> bool" where
  "validate_runtime_options config \<longleftrightarrow> \<not> (cfg_format config = SG_FORMAT_JSON \<and> \<not> summary config)"

definition PTRACE_O_TRACESYSGOOD :: u64 where "PTRACE_O_TRACESYSGOOD = 0x1"
definition PTRACE_O_TRACEFORK :: u64 where "PTRACE_O_TRACEFORK = 0x2"
definition PTRACE_O_TRACEVFORK :: u64 where "PTRACE_O_TRACEVFORK = 0x4"
definition PTRACE_O_TRACECLONE :: u64 where "PTRACE_O_TRACECLONE = 0x8"
definition PTRACE_O_TRACEEXEC :: u64 where "PTRACE_O_TRACEEXEC = 0x10"
definition PTRACE_O_TRACESECCOMP :: u64 where "PTRACE_O_TRACESECCOMP = 0x80"
definition PTRACE_O_EXITKILL :: u64 where "PTRACE_O_EXITKILL = 0x100000"

definition ptrace_options :: "sg_config \<Rightarrow> bool \<Rightarrow> u64" where
  "ptrace_options config launched =
     (let options = PTRACE_O_TRACESYSGOOD OR PTRACE_O_TRACEEXEC;
          options = (if launched then options OR PTRACE_O_EXITKILL else options);
          options = (if follow config
                     then options OR (PTRACE_O_TRACEFORK OR PTRACE_O_TRACEVFORK OR PTRACE_O_TRACECLONE)
                     else options)
      in if seccomp_bpf config then options OR PTRACE_O_TRACESECCOMP else options)"

definition is_stopping_signal :: "int \<Rightarrow> bool" where
  "is_stopping_signal n \<longleftrightarrow> n = 19 \<or> n = 20 \<or> n = 21 \<or> n = 22"

definition is_restart_result :: "int \<Rightarrow> bool" where
  "is_restart_result result \<longleftrightarrow>
     result = - SG_RESTART_SYS \<or> result = - SG_RESTART_NOINTR \<or> result = - SG_RESTART_NOHAND \<or>
     result = - SG_RESTART_RESTARTBLOCK"

definition selected :: "trace_context \<Rightarrow> int \<Rightarrow> bool" where
  "selected c number \<longleftrightarrow>
     \<not> active (cfg_filter (ctx_config c)) \<or> sg_filter_contains (cfg_filter (ctx_config c)) number"

text \<open>\<open>read_tracee_memory\<close> over the system call \<open>process_vm_readv\<close>; \<open>None\<close> is a negative amount.\<close>

definition read_tracee_memory ::
    "memory_reader \<Rightarrow> int \<Rightarrow> u64 \<Rightarrow> nat \<Rightarrow> char list option" where
  "read_tracee_memory readv t address len = (if len = 0 then Some [] else readv t address len)"

definition install_ptrace_options :: "int \<Rightarrow> unit tr" where
  "install_ptrace_options child =
     bind_tr (reading (\<lambda>c. ptrace_options (ctx_config c) True)) (\<lambda>options.
     bind_tr (measured_ptrace (PT_SETOPTIONS child options)) (\<lambda>a.
       case a of None \<Rightarrow> ret () | Some errno \<Rightarrow> fail (Tr_Ptrace (PT_SETOPTIONS child options) errno)))"

definition resume_tracee :: "int \<Rightarrow> int \<Rightarrow> unit tr" where
  "resume_tracee t sig =
     bind_tr (the_tracee t) (\<lambda>tracee.
     bind_tr (reading (\<lambda>c. seccomp_bpf (ctx_config c))) (\<lambda>bpf.
       let request = (if bpf \<and> \<not> has_pending_syscall tracee then PT_CONT t sig else PT_SYSCALL t sig)
       in bind_tr (measured_ptrace request) (\<lambda>a.
            case a of None \<Rightarrow> ret () | Some errno \<Rightarrow> fail (Tr_Ptrace request errno))))"

definition listen_tracee :: "int \<Rightarrow> unit tr" where
  "listen_tracee t =
     bind_tr (measured_ptrace (PT_LISTEN t)) (\<lambda>a.
       case a of None \<Rightarrow> ret () | Some errno \<Rightarrow> fail (Tr_Ptrace (PT_LISTEN t) errno))"

section \<open>Events\<close>

definition emit_event :: "libc \<Rightarrow> sg_event \<Rightarrow> unit tr" where
  "emit_event lc ev c =
     (let w = ctx_world c
      in case sg_output_write_event lc (w_heap w) (ctx_output c) ev of
           None \<Rightarrow> None
         | Some (e, h, out) \<Rightarrow>
             Some (case e of None \<Rightarrow> Inr () | Some err \<Rightarrow> Inl (Tr_Output err),
                   c\<lparr>ctx_output := out, ctx_world := w\<lparr>w_heap := h, emitted := emitted w @ [ev]\<rparr>\<rparr>))"

text \<open>The call a tracee is inside of, as \<open>flush_unfinished_syscalls\<close> chooses it.\<close>

definition open_call :: "sg_tracee \<Rightarrow> sg_syscall_event option" where
  "open_call tr =
     (if has_pending_syscall tr then Some (pending_syscall tr)
      else if has_interrupted_syscall tr then Some (interrupted_syscall tr)
      else None)"

definition unfinished_event :: "sg_tracee \<Rightarrow> sg_syscall_event \<Rightarrow> sg_event" where
  "unfinished_event tr e =
     \<lparr>event_tid = tid tr, event_tgid = tgid tr, observed_at = ev_entered_at e,
      event_data = SG_EVENT_SYSCALL (e\<lparr>ev_completed := False\<rparr>)\<rparr>"

fun flush_slots :: "libc \<Rightarrow> int \<Rightarrow> sg_tracee_slot list \<Rightarrow> unit tr" where
  "flush_slots lc except [] = ret ()"
| "flush_slots lc except (s # rest) =
     (let tr = slot_tracee s
      in if slot_state s \<noteq> SG_TRACEE_SLOT_OCCUPIED \<or> tid tr = except then flush_slots lc except rest
         else case open_call tr of
                None \<Rightarrow> flush_slots lc except rest
              | Some e \<Rightarrow>
                  bind_tr (reading (\<lambda>c. selected c (ev_number e))) (\<lambda>sel.
                    if sel then seq_tr (emit_event lc (unfinished_event tr e)) (flush_slots lc except rest)
                    else flush_slots lc except rest))"

definition flush_unfinished_syscalls :: "libc \<Rightarrow> int \<Rightarrow> unit tr" where
  "flush_unfinished_syscalls lc except =
     bind_tr (reading id) (\<lambda>c.
       if summary (ctx_config c) then ret ()
       else flush_slots lc except (slots (ctx_tracees c)))"

definition record_stats :: "sg_syscall_event \<Rightarrow> unit tr" where
  "record_stats e c =
     (case sg_stats_record (w_heap (ctx_world c)) (ctx_stats c) e of
        None \<Rightarrow> None
      | Some (ok, h, st) \<Rightarrow>
          Some (if ok then Inr () else Inl (Tr_Stats (ev_number e)),
                c\<lparr>ctx_stats := st, ctx_world := (ctx_world c)\<lparr>w_heap := h\<rparr>\<rparr>))"

definition write_syscall :: "libc \<Rightarrow> int \<Rightarrow> sg_syscall_event \<Rightarrow> unit tr" where
  "write_syscall lc t e =
     bind_tr (reading (\<lambda>c. selected c (ev_number e))) (\<lambda>sel.
       if \<not> sel then ret ()
       else seq_tr (updating (\<lambda>c. c\<lparr>event_count := event_count c + 1\<rparr>))
        (bind_tr (reading (\<lambda>c. summary (ctx_config c))) (\<lambda>sum.
          if sum then record_stats e
          else seq_tr (flush_unfinished_syscalls lc t)
           (bind_tr (the_tracee t) (\<lambda>tr.
              emit_event lc \<lparr>event_tid = tid tr, event_tgid = tgid tr, observed_at = ev_exited_at e,
                             event_data = SG_EVENT_SYSCALL e\<rparr>)))))"

definition fault_signal :: "int \<Rightarrow> bool" where
  "fault_signal n \<longleftrightarrow> n = 4 \<or> n = 8 \<or> n = 11 \<or> n = 7 \<or> n = SIGTRAP"

definition write_signal :: "libc \<Rightarrow> int \<Rightarrow> siginfo \<Rightarrow> unit tr" where
  "write_signal lc t si =
     seq_tr (flush_unfinished_syscalls lc (- 1))
      (bind_tr (the_tracee t) (\<lambda>tr.
       bind_tr clock_gettime (\<lambda>now.
         emit_event lc \<lparr>event_tid = tid tr, event_tgid = tgid tr, observed_at = now,
           event_data = SG_EVENT_SIGNAL \<lparr>signal_number = si_signo si, signal_code = si_code si,
             fault_address = (if si_code si > 0 \<and> fault_signal (si_signo si) then si_addr si else 0)\<rparr>\<rparr>)))"

section \<open>Wait statuses\<close>

text \<open>The macros of \<open>sys/wait.h\<close> on the bits of the status word.\<close>

definition WTERMSIG :: "wait_status \<Rightarrow> int" where
  "WTERMSIG s = uint (s AND 0x7f)"

definition WEXITSTATUS :: "wait_status \<Rightarrow> int" where
  "WEXITSTATUS s = uint (drop_bit 8 (s AND 0xff00))"

definition WIFEXITED :: "wait_status \<Rightarrow> bool" where
  "WIFEXITED s \<longleftrightarrow> s AND 0x7f = 0"

definition WIFSTOPPED :: "wait_status \<Rightarrow> bool" where
  "WIFSTOPPED s \<longleftrightarrow> s AND 0xff = 0x7f"

definition WSTOPSIG :: "wait_status \<Rightarrow> int" where
  "WSTOPSIG s = WEXITSTATUS s"

text \<open>\<open>((signed char) ((status & 0x7f) + 1) >> 1) > 0\<close>: neither 0 nor the stop marker 0x7f.\<close>

definition WIFSIGNALED :: "wait_status \<Rightarrow> bool" where
  "WIFSIGNALED s \<longleftrightarrow> s AND 0x7f \<noteq> 0 \<and> s AND 0x7f \<noteq> 0x7f"

definition WIFCONTINUED :: "wait_status \<Rightarrow> bool" where
  "WIFCONTINUED s \<longleftrightarrow> s = 0xffff"

definition stop_event :: "wait_status \<Rightarrow> nat" where
  "stop_event s = (if WIFSTOPPED s then unat (drop_bit 16 s) else 0)"

definition exit_event :: "wait_status \<Rightarrow> sg_lifecycle_event" where
  "exit_event s =
     \<lparr>related_tid = 0, status = (if WIFEXITED s then WEXITSTATUS s else WTERMSIG s),
      ptrace_event = 0, signaled = WIFSIGNALED s\<rparr>"

definition write_exit :: "libc \<Rightarrow> int \<Rightarrow> wait_status \<Rightarrow> unit tr" where
  "write_exit lc t s =
     seq_tr (flush_unfinished_syscalls lc (- 1))
      (bind_tr (the_tracee t) (\<lambda>tr.
       bind_tr clock_gettime (\<lambda>now.
         emit_event lc \<lparr>event_tid = tid tr, event_tgid = tgid tr, observed_at = now,
           event_data = SG_EVENT_PROCESS_EXIT (exit_event s)\<rparr>)))"

definition write_process_start :: "libc \<Rightarrow> int \<Rightarrow> int \<Rightarrow> nat \<Rightarrow> unit tr" where
  "write_process_start lc parent child event =
     seq_tr (flush_unfinished_syscalls lc (- 1))
      (bind_tr (the_tracee parent) (\<lambda>tr.
       bind_tr clock_gettime (\<lambda>now.
         emit_event lc \<lparr>event_tid = tid tr, event_tgid = tgid tr, observed_at = now,
           event_data = SG_EVENT_PROCESS_START
             \<lparr>related_tid = child, status = 0, ptrace_event = of_nat event, signaled = False\<rparr>\<rparr>)))"

section \<open>Entry and exit of a system call\<close>

definition capture_entry :: "libc \<Rightarrow> int \<Rightarrow> sg_syscall_event \<Rightarrow> sg_syscall_event tr" where
  "capture_entry lc t e c =
     (case sg_decoder_capture_entry lc (ctx_decoder c) t (w_heap (ctx_world c)) e of
        None \<Rightarrow> None
      | Some (ok, h, e') \<Rightarrow>
          Some (if ok then Inr e' else Inl Tr_Capture, c\<lparr>ctx_world := (ctx_world c)\<lparr>w_heap := h\<rparr>\<rparr>))"

text \<open>Writing the pending call as completed, with result zero: a call that exec has ended.\<close>

definition complete_pending :: "libc \<Rightarrow> int \<Rightarrow> unit tr" where
  "complete_pending lc t =
     seq_tr (set_tracee t (\<lambda>tr. tr\<lparr>pending_syscall := (pending_syscall tr)
                               \<lparr>ev_result := 0, ev_error_number := 0, ev_completed := True\<rparr>\<rparr>))
      (bind_tr clock_gettime (\<lambda>now.
       seq_tr (set_tracee t (\<lambda>tr. tr\<lparr>pending_syscall := (pending_syscall tr)\<lparr>ev_exited_at := now\<rparr>\<rparr>))
        (bind_tr (the_tracee t) (\<lambda>tr.
         seq_tr (write_syscall lc t (pending_syscall tr))
          (set_tracee t (\<lambda>tr. tr\<lparr>pending_syscall := sg_decoder_release_event (pending_syscall tr),
                                 has_pending_syscall := False\<rparr>))))))"

text \<open>The part of \<open>begin_syscall\<close> for an interrupted call that did not restart.\<close>

definition complete_interrupted :: "libc \<Rightarrow> int \<Rightarrow> unit tr" where
  "complete_interrupted lc t =
     seq_tr (set_tracee t (\<lambda>tr. tr\<lparr>interrupted_syscall := (interrupted_syscall tr)
                               \<lparr>ev_result := - 1, ev_error_number := EINTR, ev_completed := True\<rparr>\<rparr>))
      (bind_tr clock_gettime (\<lambda>now.
       seq_tr (set_tracee t (\<lambda>tr. tr\<lparr>interrupted_syscall := (interrupted_syscall tr)\<lparr>ev_exited_at := now\<rparr>\<rparr>))
        (bind_tr (the_tracee t) (\<lambda>tr.
         seq_tr (write_syscall lc t (interrupted_syscall tr))
          (set_tracee t (\<lambda>tr. tr\<lparr>interrupted_syscall := sg_decoder_release_event (interrupted_syscall tr),
                                 has_interrupted_syscall := False, interrupted_restart_ready := False\<rparr>))))))"

definition fresh_event :: "int \<Rightarrow> u64 list \<Rightarrow> sg_syscall_event" where
  "fresh_event number arguments = zero_syscall_event\<lparr>ev_number := number, ev_arguments := arguments\<rparr>"

definition begin_fresh :: "libc \<Rightarrow> int \<Rightarrow> int \<Rightarrow> u64 list \<Rightarrow> unit tr" where
  "begin_fresh lc t number arguments =
     bind_tr (reading (\<lambda>c. (selected c number, summary (ctx_config c)))) (\<lambda>(sel, sum).
     bind_tr (if sel then bind_tr clock_gettime (\<lambda>now. ret ((fresh_event number arguments)\<lparr>ev_entered_at := now\<rparr>))
              else ret (fresh_event number arguments)) (\<lambda>e.
     bind_tr (if sel \<and> \<not> sum then capture_entry lc t e else ret e) (\<lambda>e'.
     seq_tr (if sel then flush_unfinished_syscalls lc t else ret ())
       (set_tracee t (\<lambda>tr. tr\<lparr>pending_syscall := e', has_pending_syscall := True,
                              phase := SG_TRACEE_IN_SYSCALL\<rparr>)))))"

definition restarts :: "sg_tracee \<Rightarrow> int \<Rightarrow> bool" where
  "restarts tr number \<longleftrightarrow> has_interrupted_syscall tr \<and> interrupted_restart_ready tr \<and>
     (number = ev_number (interrupted_syscall tr) \<or> number = SYS_restart_syscall)"

definition is_exec :: "int \<Rightarrow> bool" where
  "is_exec number \<longleftrightarrow> number = SYS_execve \<or> number = SYS_execveat"

text \<open>
  The parts of \<open>begin_syscall\<close>: an exec that has not reported its end is completed, then the
  entry restarts an interrupted call or begins a fresh one.
\<close>

definition end_pending :: "libc \<Rightarrow> int \<Rightarrow> unit tr" where
  "end_pending lc t =
     bind_tr (the_tracee t) (\<lambda>tr.
       if has_pending_syscall tr
       then (if is_exec (ev_number (pending_syscall tr)) then complete_pending lc t
             else fail Tr_Entry_Before_Exit)
       else ret ())"

definition restarted :: "sg_tracee \<Rightarrow> sg_tracee" where
  "restarted tr =
     tr\<lparr>pending_syscall := interrupted_syscall tr, interrupted_syscall := zero_syscall_event,
        has_interrupted_syscall := False, interrupted_restart_ready := False,
        has_pending_syscall := True, phase := SG_TRACEE_IN_SYSCALL\<rparr>"

definition enter_syscall :: "libc \<Rightarrow> int \<Rightarrow> int \<Rightarrow> u64 list \<Rightarrow> unit tr" where
  "enter_syscall lc t number arguments =
     bind_tr (the_tracee t) (\<lambda>tr.
       if restarts tr number
       then seq_tr (flush_unfinished_syscalls lc t) (set_tracee t restarted)
       else seq_tr (if has_interrupted_syscall tr \<and> interrupted_restart_ready tr
                    then complete_interrupted lc t else ret ())
              (begin_fresh lc t number arguments))"

definition begin_syscall :: "libc \<Rightarrow> int \<Rightarrow> u64 \<Rightarrow> u64 list \<Rightarrow> unit tr" where
  "begin_syscall lc t number arguments =
     (if int (unat number) > LONG_MAX then fail Tr_Number_Range
      else seq_tr (end_pending lc t) (enter_syscall lc t (int (unat number)) arguments))"

text \<open>The error number of an exit: only a negative result marked as an error has one.\<close>

definition exit_error :: "ptrace_syscall_info \<Rightarrow> int" where
  "exit_error info =
     (if info_is_error info \<noteq> 0 \<and> info_rval info < 0 \<and> info_rval info \<ge> - INT_MAX
      then - info_rval info else 0)"

text \<open>The end of \<open>finish_syscall\<close>: what the exit means for an interrupted call, and no call is pending.\<close>

definition closed_tracee :: "sg_tracee \<Rightarrow> sg_tracee" where
  "closed_tracee tr =
     (let e = pending_syscall tr;
          tr1 = (if has_interrupted_syscall tr
                 then (if ev_number e = SYS_rt_sigreturn then tr\<lparr>interrupted_restart_ready := True\<rparr>
                       else if \<not> interrupted_restart_ready tr \<and> ev_number e = ev_number (interrupted_syscall tr)
                       then tr\<lparr>has_interrupted_syscall := False,
                               interrupted_syscall := sg_decoder_release_event (interrupted_syscall tr)\<rparr>
                       else tr)
                 else tr)
      in tr1\<lparr>pending_syscall := sg_decoder_release_event e, has_pending_syscall := False,
             phase := SG_TRACEE_STOPPED\<rparr>)"

definition finish_syscall :: "libc \<Rightarrow> int \<Rightarrow> ptrace_syscall_info \<Rightarrow> unit tr" where
  "finish_syscall lc t info =
     bind_tr (the_tracee t) (\<lambda>tr.
       if \<not> has_pending_syscall tr then set_tracee t (\<lambda>tr. tr\<lparr>phase := SG_TRACEE_STOPPED\<rparr>)
       else if is_restart_result (info_rval info)
       then set_tracee t (\<lambda>tr. tr\<lparr>interrupted_syscall := pending_syscall tr, pending_syscall := zero_syscall_event,
              has_interrupted_syscall := True, interrupted_restart_ready := False,
              has_pending_syscall := False, phase := SG_TRACEE_STOPPED\<rparr>)
       else seq_tr (set_tracee t (\<lambda>tr. tr\<lparr>pending_syscall := (pending_syscall tr)
                      \<lparr>ev_result := info_rval info, ev_error_number := exit_error info\<rparr>\<rparr>))
        (bind_tr (reading (\<lambda>c. selected c (ev_number (pending_syscall tr)))) (\<lambda>sel.
         seq_tr (if sel
                 then bind_tr clock_gettime (\<lambda>now.
                        set_tracee t (\<lambda>tr. tr\<lparr>pending_syscall := (pending_syscall tr)\<lparr>ev_exited_at := now\<rparr>\<rparr>))
                 else ret ())
         (seq_tr (set_tracee t (\<lambda>tr. tr\<lparr>pending_syscall := (pending_syscall tr)\<lparr>ev_completed := True\<rparr>\<rparr>))
         (bind_tr (the_tracee t) (\<lambda>tr.
          seq_tr (write_syscall lc t (pending_syscall tr)) (set_tracee t closed_tracee)))))))"

definition handle_syscall_stop :: "libc \<Rightarrow> int \<Rightarrow> unit tr" where
  "handle_syscall_stop lc t =
     bind_tr (ptrace_info t) (\<lambda>a.
       case a of
         Inl errno \<Rightarrow> fail (Tr_Ptrace (PT_GET_SYSCALL_INFO t) errno)
       | Inr (len, info) \<Rightarrow>
           if len < 8 then fail Tr_Truncated_Info
           else if info_arch info \<noteq> AUDIT_ARCH_X86_64 then fail Tr_Foreign_Abi
           else if info_op info = PTRACE_SYSCALL_INFO_ENTRY
           then (if len < 80 then fail Tr_Truncated_Info
                 else begin_syscall lc t (info_nr info) (info_args info))
           else if info_op info = PTRACE_SYSCALL_INFO_EXIT
           then (if len < 33 then fail Tr_Truncated_Info else finish_syscall lc t info)
           else fail (Tr_Unexpected_Stop (info_op info)))"

definition handle_seccomp_stop :: "libc \<Rightarrow> int \<Rightarrow> unit tr" where
  "handle_seccomp_stop lc t =
     bind_tr (ptrace_info t) (\<lambda>a.
       case a of
         Inl errno \<Rightarrow> fail (Tr_Ptrace (PT_GET_SYSCALL_INFO t) errno)
       | Inr (len, info) \<Rightarrow>
           if len < 80 then fail Tr_Truncated_Info
           else if info_arch info \<noteq> AUDIT_ARCH_X86_64 then fail Tr_Foreign_Abi
           else if info_op info \<noteq> PTRACE_SYSCALL_INFO_SECCOMP then fail (Tr_Unexpected_Stop (info_op info))
           else if info_nr info AND ucast SG_X32_SYSCALL_BIT \<noteq> 0 then fail Tr_Foreign_Abi
           else begin_syscall lc t (info_nr info) (info_args info))"

end
