(* ===== verification/Trace_Loop.thy ===== *)
theory Trace_Loop
  imports Trace
begin

text \<open>
  The tracer, second part of \<open>src/trace.c\<close>: the birth, exec and death of tracees, the loop over the
  stops that \<open>waitpid\<close> reports, and the release of the tracees at the end.

  The loop consumes the list of returns of \<open>waitpid\<close>; when the list has run out \<open>waitpid\<close> fails
  with \<open>ECHILD\<close>, which ends the loop. So one unit of fuel for each return and one for the failure
  are enough, and \<open>trace_loop\<close> starts with that many.
\<close>

section \<open>Tracees\<close>

definition release_tracee :: "sg_tracee \<Rightarrow> sg_tracee" where
  "release_tracee tr =
     tr\<lparr>pending_syscall := sg_decoder_release_event (pending_syscall tr),
        interrupted_syscall := sg_decoder_release_event (interrupted_syscall tr)\<rparr>"

definition insert_tracee :: "int \<Rightarrow> int \<Rightarrow> bool \<Rightarrow> bool option tr" where
  "insert_tracee t tg att c =
     map_option (\<lambda>(r, h, tb). (Inr r, c\<lparr>ctx_tracees := tb, ctx_world := (ctx_world c)\<lparr>w_heap := h\<rparr>\<rparr>))
       (sg_tracee_table_insert (w_heap (ctx_world c)) (ctx_tracees c) t tg att)"

definition remove_tracee :: "int \<Rightarrow> sg_tracee option tr" where
  "remove_tracee t c =
     map_option (\<lambda>(r, tb). (Inr r, c\<lparr>ctx_tracees := tb\<rparr>)) (sg_tracee_table_remove (ctx_tracees c) t)"

definition add_tracee :: "int \<Rightarrow> int \<Rightarrow> bool \<Rightarrow> bool \<Rightarrow> unit tr" where
  "add_tracee t tg att born =
     bind_tr (insert_tracee t tg att) (\<lambda>inserted.
       case inserted of
         None \<Rightarrow> fail (Tr_No_Tracee_Memory t)
       | Some True \<Rightarrow> set_tracee t (\<lambda>tr. tr\<lparr>newborn := born, options_installed := True\<rparr>)
       | Some False \<Rightarrow> ret ())"

section \<open>The thread group of a thread\<close>

text \<open>\<open>fgets\<close> with room for \<open>n\<close> characters: the characters read and the rest of the stream.\<close>

fun fgets :: "nat \<Rightarrow> string \<Rightarrow> string \<times> string" where
  "fgets 0 s = ([], s)"
| "fgets (Suc n) [] = ([], [])"
| "fgets (Suc n) (c # s) =
     (if c = CHR 0x0A then ([c], s) else case fgets n s of (line, rest) \<Rightarrow> (c # line, rest))"

text \<open>\<open>sscanf (line, "Tgid:%ld", &value)\<close>: a value when the conversion succeeds.\<close>

definition scan_tgid :: "string \<Rightarrow> int option" where
  "scan_tgid line =
     (let s = takeWhile (\<lambda>c. c \<noteq> NUL) line
      in if take 5 s = ''Tgid:''
         then case strtol (drop 5 s) of (v, rest, erange) \<Rightarrow> if rest = drop 5 s then None else Some v
         else None)"

fun tgid_from :: "nat \<Rightarrow> string \<Rightarrow> int" where
  "tgid_from 0 s = - 1"
| "tgid_from (Suc n) s =
     (if s = [] then - 1
      else case fgets 255 s of (line, rest) \<Rightarrow>
        (case scan_tgid line of
           Some v \<Rightarrow> if v > 0 \<and> v \<le> INT_MAX then v else tgid_from n rest
         | None \<Rightarrow> tgid_from n rest))"

definition read_tgid :: "int \<Rightarrow> int tr" where
  "read_tgid t c =
     (let w = ctx_world c
      in case next_answer None (status_files w) of
           (file, rest) \<Rightarrow>
             Some (Inr (case file of None \<Rightarrow> - 1 | Some s \<Rightarrow> tgid_from (length s) s),
                   c\<lparr>ctx_world := w\<lparr>status_files := rest\<rparr>\<rparr>))"

section \<open>Ptrace events\<close>

definition PTRACE_EVENT_FORK :: nat where "PTRACE_EVENT_FORK = 1"
definition PTRACE_EVENT_VFORK :: nat where "PTRACE_EVENT_VFORK = 2"
definition PTRACE_EVENT_CLONE :: nat where "PTRACE_EVENT_CLONE = 3"
definition PTRACE_EVENT_EXEC :: nat where "PTRACE_EVENT_EXEC = 4"
definition PTRACE_EVENT_SECCOMP :: nat where "PTRACE_EVENT_SECCOMP = 7"
definition PTRACE_EVENT_STOP :: nat where "PTRACE_EVENT_STOP = 128"

definition log_kill :: "int \<Rightarrow> int \<Rightarrow> trace_context \<Rightarrow> trace_context" where
  "log_kill t sig c = c\<lparr>ctx_world := (ctx_world c)\<lparr>requests := requests (ctx_world c) @ [KILL t sig]\<rparr>\<rparr>"

text \<open>A failing operation followed by a clean-up; the error stays that of the operation.\<close>

definition on_error :: "'a tr \<Rightarrow> unit tr \<Rightarrow> 'a tr" where
  "on_error m cleanup c =
     (case m c of
        Some (Inl e, c1) \<Rightarrow> map_option (\<lambda>(r, c2). (Inl e, c2)) (cleanup c1)
      | r \<Rightarrow> r)"

definition handle_exec_event :: "libc \<Rightarrow> int \<Rightarrow> unit tr" where
  "handle_exec_event lc t =
     seq_tr (updating (\<lambda>c. if t = root_tid c then c\<lparr>root_exec_observed := True\<rparr> else c))
     (bind_tr (the_tracee t) (\<lambda>tr.
      seq_tr (if has_pending_syscall tr
              then seq_tr (complete_pending lc t) (set_tracee t (\<lambda>tr. tr\<lparr>phase := SG_TRACEE_STOPPED\<rparr>))
              else ret ())
       (set_tracee t (\<lambda>tr. tr\<lparr>newborn := False\<rparr>))))"

definition handle_birth_event :: "libc \<Rightarrow> int \<Rightarrow> nat \<Rightarrow> unit tr" where
  "handle_birth_event lc t event =
     bind_tr (ptrace_message t) (\<lambda>a.
       case a of
         Inl errno \<Rightarrow> fail (Tr_Child_Tid t)
       | Inr message \<Rightarrow>
           if message = 0 \<or> int (unat message) > INT_MAX then fail (Tr_Child_Tid t)
           else let child = int (unat message)
             in bind_tr (read_tgid child) (\<lambda>found.
                bind_tr (the_tracee t) (\<lambda>tr.
                  let tg = (if found \<le> 0 then (if event = PTRACE_EVENT_CLONE then tgid tr else child) else found)
                  in seq_tr (on_error (add_tracee child tg (attached tr) True)
                               (if attached tr then bind_tr (measured_ptrace (PT_DETACH child 0)) (\<lambda>_. ret ())
                                else updating (log_kill child SIGKILL)))
                     (bind_tr (find_tracee t) (\<lambda>found.
                        case found of
                          None \<Rightarrow> fail Tr_Lost_Parent
                        | Some _ \<Rightarrow> write_process_start lc t child event)))))"

definition handle_ptrace_event :: "libc \<Rightarrow> int \<Rightarrow> nat \<Rightarrow> unit tr" where
  "handle_ptrace_event lc t event =
     (if event = PTRACE_EVENT_SECCOMP then handle_seccomp_stop lc t
      else if event = PTRACE_EVENT_EXEC then handle_exec_event lc t
      else if event \<noteq> PTRACE_EVENT_FORK \<and> event \<noteq> PTRACE_EVENT_VFORK \<and> event \<noteq> PTRACE_EVENT_CLONE
      then fail (Tr_Unexpected_Event event)
      else handle_birth_event lc t event)"

section \<open>Exec in another thread\<close>

text \<open>The tracee that survives: that of the former thread, else that of the thread waited for.\<close>

definition surviving :: "sg_tracee option \<Rightarrow> sg_tracee option \<Rightarrow> sg_tracee option" where
  "surviving source replaced = (case source of Some tr \<Rightarrow> Some tr | None \<Rightarrow> replaced)"

definition renamed :: "int \<Rightarrow> sg_tracee \<Rightarrow> sg_tracee" where
  "renamed t tr = tr\<lparr>tid := t, tgid := t, newborn := False\<rparr>"

definition migrate_output :: "int \<Rightarrow> int \<Rightarrow> unit tr" where
  "migrate_output former t =
     updating (\<lambda>c. c\<lparr>ctx_output := sg_output_migrate_tid (ctx_output c) former t\<rparr>)"

definition migrate_exec_tid :: "int \<Rightarrow> int \<Rightarrow> unit tr" where
  "migrate_exec_tid waited former =
     (if former = waited then ret ()
      else bind_tr (remove_tracee former) (\<lambda>source.
           bind_tr (remove_tracee waited) (\<lambda>replaced.
             case surviving source replaced of
               None \<Rightarrow>
                 bind_tr (reading (\<lambda>c. cfg_mode (ctx_config c) = SG_RUN_ATTACH)) (\<lambda>att.
                 seq_tr (add_tracee waited waited att False) (migrate_output former waited))
             | Some tr \<Rightarrow>
                 seq_tr (add_tracee waited waited (attached tr) False)
                 (seq_tr (set_tracee waited (\<lambda>_. renamed waited tr))
                 (seq_tr (migrate_output former waited)
                   (updating (\<lambda>c. if root_tid c = former then c\<lparr>root_tid := waited\<rparr> else c)))))))"

section \<open>One return of waitpid\<close>

definition record_exit_status :: "int \<Rightarrow> wait_status \<Rightarrow> unit tr" where
  "record_exit_status t s =
     updating (\<lambda>c. if t = root_tid c
       then c\<lparr>root_status := (if WIFEXITED s then WEXITSTATUS s else 128 + WTERMSIG s), root_status_known := True\<rparr>
       else c)"

definition SYSCALL_STOP :: int where "SYSCALL_STOP = 133"

definition ECHILD :: int where "ECHILD = 10"

definition no_return :: wait_return where
  "no_return = \<lparr>signal_before = 0, signal_after = 0, process_vm_readv = (\<lambda>_ _ _. None), waited_for = Inl ECHILD\<rparr>"

definition receive_signal :: "int \<Rightarrow> trace_context \<Rightarrow> trace_context" where
  "receive_signal sig c = (if sig = 0 then c else c\<lparr>shutdown_signal := sig\<rparr>)"

text \<open>From a return on the decoder, and so the output, reads the memory the tracees have then.\<close>

definition install_memory :: "memory_reader \<Rightarrow> trace_context \<Rightarrow> trace_context" where
  "install_memory readv c =
     (let d = (ctx_decoder c)\<lparr>memory_read := Some (read_tracee_memory readv)\<rparr>
      in c\<lparr>ctx_decoder := d, ctx_output := (ctx_output c)\<lparr>out_decoder := d\<rparr>\<rparr>)"

definition waitpid :: "wait_return tr" where
  "waitpid c =
     (let w = ctx_world c
      in case next_answer no_return (wait_answers w) of
           (r, rest) \<Rightarrow>
             Some (Inr r, receive_signal (signal_before r)
                            (install_memory (process_vm_readv r) (c\<lparr>ctx_world := w\<lparr>wait_answers := rest\<rparr>\<rparr>))))"

text \<open>The tracee a status is for, entered into the table when it is new; \<open>False\<close> if there is none.\<close>

definition former_tid :: "int \<Rightarrow> wait_status \<Rightarrow> unit tr" where
  "former_tid waited s =
     (if WIFSTOPPED s \<and> stop_event s = PTRACE_EVENT_EXEC
      then bind_tr (ptrace_message waited) (\<lambda>a.
        case a of
          Inl errno \<Rightarrow> fail (Tr_Ptrace (PT_GETEVENTMSG waited) errno)
        | Inr former \<Rightarrow>
            if int (unat former) > INT_MAX then fail Tr_Former_Range
            else migrate_exec_tid waited (int (unat former)))
      else ret ())"

definition locate_tracee :: "int \<Rightarrow> wait_status \<Rightarrow> bool tr" where
  "locate_tracee waited s =
     bind_tr (find_tracee waited) (\<lambda>found.
     bind_tr (reading (\<lambda>c. (follow (ctx_config c), cfg_mode (ctx_config c) = SG_RUN_ATTACH))) (\<lambda>(fol, att).
       if found = None \<and> WIFSTOPPED s \<and> fol
       then bind_tr (read_tgid waited) (\<lambda>tg.
            seq_tr (add_tracee waited (if tg \<le> 0 then waited else tg) att True)
            (bind_tr (find_tracee waited) (\<lambda>found. ret (found \<noteq> None))))
       else ret (found \<noteq> None)))"

definition handle_exit :: "libc \<Rightarrow> int \<Rightarrow> wait_status \<Rightarrow> unit tr" where
  "handle_exit lc t s =
     seq_tr (set_tracee t (\<lambda>tr. tr\<lparr>phase := SG_TRACEE_GONE\<rparr>))
     (bind_tr (reading id) (\<lambda>c.
        if seccomp_bpf (ctx_config c) \<and> t = root_tid c \<and> \<not> root_exec_observed c \<and>
           WIFEXITED s \<and> WEXITSTATUS s = 126
        then fail Tr_Seccomp_Setup
        else seq_tr (write_exit lc t s)
            (seq_tr (record_exit_status t s) (bind_tr (remove_tracee t) (\<lambda>_. ret ())))))"

definition group_stop :: "int \<Rightarrow> bool tr" where
  "group_stop t =
     seq_tr (set_tracee t (\<lambda>tr. tr\<lparr>phase := SG_TRACEE_GROUP_STOPPED\<rparr>))
       (bind_tr (the_tracee t) (\<lambda>tr. ret (attached tr)))"

text \<open>What a stop asks for: whether to listen, and the signal to deliver.\<close>

definition signal_stop :: "libc \<Rightarrow> int \<Rightarrow> int \<Rightarrow> (bool \<times> int) tr" where
  "signal_stop lc t stop =
     bind_tr (ptrace_siginfo t) (\<lambda>a.
       case a of
         Inl errno \<Rightarrow>
           if errno = EINVAL \<and> is_stopping_signal stop then bind_tr (group_stop t) (\<lambda>listen. ret (listen, 0))
           else fail (Tr_Ptrace (PT_GETSIGINFO t) errno)
       | Inr si \<Rightarrow>
           seq_tr (set_tracee t (\<lambda>tr. tr\<lparr>newborn := False, pending_signal := stop\<rparr>))
           (seq_tr (write_signal lc t si) (ret (False, stop))))"

definition dispatch_stop :: "libc \<Rightarrow> int \<Rightarrow> wait_status \<Rightarrow> (bool \<times> int) tr" where
  "dispatch_stop lc t s =
     (let stop = WSTOPSIG s; event = stop_event s
      in if stop = SYSCALL_STOP then seq_tr (handle_syscall_stop lc t) (ret (False, 0))
         else if event = PTRACE_EVENT_STOP
         then seq_tr (set_tracee t (\<lambda>tr. tr\<lparr>newborn := False\<rparr>))
                (if stop \<noteq> SIGTRAP then bind_tr (group_stop t) (\<lambda>listen. ret (listen, 0)) else ret (False, 0))
         else if event \<noteq> 0 then seq_tr (handle_ptrace_event lc t event) (ret (False, 0))
         else bind_tr (the_tracee t) (\<lambda>tr.
                if newborn tr \<and> stop = SIGSTOP
                then seq_tr (set_tracee t (\<lambda>tr. tr\<lparr>newborn := False\<rparr>)) (ret (False, 0))
                else signal_stop lc t stop))"

text \<open>Going on after a stop; \<open>False\<close> when the tracee has gone meanwhile.\<close>

definition still_there :: "unit tr \<Rightarrow> bool tr" where
  "still_there m c =
     (case m c of
        Some (Inl (Tr_Ptrace r errno), c') \<Rightarrow>
          Some (if errno = ESRCH then Inr False else Inl (Tr_Ptrace r errno), c')
      | Some (Inl e, c') \<Rightarrow> Some (Inl e, c')
      | Some (Inr _, c') \<Rightarrow> Some (Inr True, c')
      | None \<Rightarrow> None)"

definition go_on :: "int \<Rightarrow> bool \<Rightarrow> int \<Rightarrow> bool tr" where
  "go_on t listen sig =
     bind_tr (find_tracee t) (\<lambda>found.
       if found = None then ret False
       else bind_tr (still_there (if listen then listen_tracee t else resume_tracee t sig)) (\<lambda>there.
         if \<not> there then ret False
         else seq_tr (set_tracee t (\<lambda>tr. tr\<lparr>in_ptrace_stop := False, pending_signal := 0,
                        phase := (if listen then phase tr else SG_TRACEE_RUNNING)\<rparr>))
                (ret True)))"

definition handle_stop :: "libc \<Rightarrow> int \<Rightarrow> wait_status \<Rightarrow> bool tr" where
  "handle_stop lc t s =
     seq_tr (set_tracee t (\<lambda>tr. tr\<lparr>in_ptrace_stop := True, phase := SG_TRACEE_STOPPED\<rparr>))
     (bind_tr (dispatch_stop lc t s) (\<lambda>(listen, sig). go_on t listen sig))"

text \<open>
  The body of the loop after \<open>waitpid\<close> has reported a status; \<open>True\<close> when it comes to its end,
  where the code looks for a shutdown signal, \<open>False\<close> after a \<open>continue\<close>.
\<close>

definition handle_status :: "libc \<Rightarrow> int \<Rightarrow> wait_status \<Rightarrow> bool tr" where
  "handle_status lc waited s =
     seq_tr (former_tid waited s)
     (bind_tr (locate_tracee waited s) (\<lambda>found.
        if \<not> found then ret False
        else if WIFCONTINUED s
        then seq_tr (set_tracee waited (\<lambda>tr. tr\<lparr>phase := SG_TRACEE_RUNNING, in_ptrace_stop := False\<rparr>)) (ret False)
        else if WIFEXITED s \<or> WIFSIGNALED s then seq_tr (handle_exit lc waited s) (ret False)
        else if \<not> WIFSTOPPED s then ret False
        else handle_stop lc waited s))"

section \<open>The loop\<close>

text \<open>\<open>Some status\<close> ends the loop with a command status.\<close>

definition shutdown_status :: "trace_context \<Rightarrow> int option" where
  "shutdown_status c = (if shutdown_signal c \<noteq> 0 then Some (128 + shutdown_signal c) else None)"

definition loop_step :: "libc \<Rightarrow> int option tr" where
  "loop_step lc =
     bind_tr waitpid (\<lambda>r.
       case waited_for r of
         Inl errno \<Rightarrow>
           if errno = EINTR then reading shutdown_status else fail (Tr_Wait errno)
       | Inr (waited, s) \<Rightarrow>
           bind_tr (handle_status lc waited s) (\<lambda>at_end.
           seq_tr (updating (receive_signal (signal_after r)))
             (if at_end then reading shutdown_status else ret None)))"

definition final_status :: "trace_context \<Rightarrow> int" where
  "final_status c =
     (if cfg_mode (ctx_config c) = SG_RUN_ATTACH then 0
      else if root_status_known c then root_status c else 0)"

fun loop_from :: "libc \<Rightarrow> nat \<Rightarrow> int tr" where
  "loop_from lc 0 c = None"
| "loop_from lc (Suc n) c =
     (if entries (ctx_tracees c) = 0 then Some (Inr (final_status c), c)
      else bind_tr (loop_step lc) (\<lambda>r. case r of Some s \<Rightarrow> ret s | None \<Rightarrow> loop_from lc n) c)"

definition start_root :: "unit tr" where
  "start_root =
     bind_tr (reading (\<lambda>c. (cfg_mode (ctx_config c), root_tid c))) (\<lambda>(mode, root).
       if mode = SG_RUN_LAUNCH
       then bind_tr (find_tracee root) (\<lambda>found.
              case found of
                None \<Rightarrow> fail Tr_Lost_Parent
              | Some _ \<Rightarrow> seq_tr (resume_tracee root 0) (set_tracee root (\<lambda>tr. tr\<lparr>in_ptrace_stop := False\<rparr>)))
       else ret ())"

definition trace_loop :: "libc \<Rightarrow> int tr" where
  "trace_loop lc =
     seq_tr start_root
     (bind_tr (reading (\<lambda>c. length (wait_answers (ctx_world c)))) (\<lambda>n. loop_from lc (Suc n)))"

end
