(* ===== verification/Trace_Safety.thy ===== *)
theory Trace_Safety
  imports Trace_Loop
begin

text \<open>
  What every step of the tracer keeps. \<open>tracer_inv\<close> joins the invariants of the components: the
  table is well-formed and every tracee in it holds renderable calls, the output and the
  statistics are well-formed, the output and the tracer read memory through the same decoder, and
  the answers still to come are ones the kernel gives. \<open>transcript\<close> says what the stream holds:
  the lines of the events handed to the output, in order.

  \<open>safe\<close> is a Hoare triple for the operations of the tracer: from a state that satisfies the
  invariant the operation has defined behaviour and returns, the invariant holds again whatever
  fails, and without an error the postcondition holds. Its rules follow the shape of the code, so
  the proof of an operation is the list of the rules of its parts.
\<close>

section \<open>The transcript\<close>

definition json_line :: "libc \<Rightarrow> sg_event \<Rightarrow> string \<Rightarrow> bool" where
  "json_line lc ev s \<longleftrightarrow>
     (\<exists>line ns. s = json_text (event_json lc line ns ev) \<and>
        (\<forall>e. event_data ev = SG_EVENT_SYSCALL e \<longrightarrow> output_elapsed e = Some ns \<and>
           (\<exists>d. reader_ok d \<and> renders (sg_decode_syscall lc d (event_tid ev) e) line)))"

text \<open>
  \<open>transcript lc fm tids base evs S s\<close>: in format \<open>fm\<close>, after \<open>base\<close>, the events \<open>evs\<close> have
  left the text \<open>s\<close> and the threads \<open>S\<close> with an unfinished line. The decoder reads the memory of
  the moment of each event. An exec may rename a thread between two events.
\<close>

inductive transcript ::
    "libc \<Rightarrow> sg_output_format \<Rightarrow> bool \<Rightarrow> string \<Rightarrow> sg_event list \<Rightarrow> int set \<Rightarrow> string \<Rightarrow> bool"
  for lc fm tids base where
  start: "transcript lc fm tids base [] {} base"
| silent: "transcript lc fm tids base (evs @ [ev]) (log_next S ev) s"
    if "transcript lc fm tids base evs S s" and "fm = SG_FORMAT_TEXT" and "reader_ok d"
      and "log_line lc d tids S ev = None"
| line: "transcript lc fm tids base (evs @ [ev]) (log_next S ev) (s @ l @ [CHR 0x0A])"
    if "transcript lc fm tids base evs S s" and "fm = SG_FORMAT_TEXT" and "reader_ok d"
      and "log_line lc d tids S ev = Some em" and "renders em l"
| renamed: "transcript lc fm tids base evs (if former \<in> S then insert t (S - {former}) else S) s"
    if "transcript lc fm tids base evs S s"
| no_json: "transcript lc fm tids base (evs @ [ev]) S s"
    if "transcript lc fm tids base evs S s" and "fm \<noteq> SG_FORMAT_TEXT" and "is_unfinished_syscall ev"
| json: "transcript lc fm tids base (evs @ [ev]) S (s @ l @ [CHR 0x0A])"
    if "transcript lc fm tids base evs S s" and "fm \<noteq> SG_FORMAT_TEXT" and "\<not> is_unfinished_syscall ev"
      and "json_line lc ev l"

section \<open>The invariant\<close>

abbreviation tracee_map :: "trace_context \<Rightarrow> int \<Rightarrow> sg_tracee option" where
  "tracee_map c \<equiv> table_map (ctx_tracees c)"

definition time_ok :: "timespec \<Rightarrow> bool" where
  "time_ok ts \<longleftrightarrow> 0 \<le> tv_sec ts \<and> tv_sec ts \<le> LONG_MAX \<and> 0 \<le> tv_nsec ts \<and> tv_nsec ts < 1000000000"

definition call_ok :: "sg_syscall_event \<Rightarrow> bool" where
  "call_ok e \<longleftrightarrow> event_ok e \<and> valid_times e"

definition pid_ok :: "int \<Rightarrow> bool" where
  "pid_ok i \<longleftrightarrow> 0 < i \<and> i \<le> INT_MAX"

definition tracee_ok :: "sg_tracee \<Rightarrow> bool" where
  "tracee_ok tr \<longleftrightarrow> pid_ok (tid tr) \<and> pid_ok (tgid tr) \<and>
     call_ok (pending_syscall tr) \<and> call_ok (interrupted_syscall tr)"

definition memory_ok :: "memory_reader \<Rightarrow> bool" where
  "memory_ok readv \<longleftrightarrow> (\<forall>t a n bytes. readv t a n = Some bytes \<longrightarrow> length bytes \<le> n)"

text \<open>What the documentation of the kernel promises of its answers.\<close>

definition info_ok :: "ptrace_syscall_info \<Rightarrow> bool" where
  "info_ok info \<longleftrightarrow> length (info_args info) = 6 \<and> in_long (info_rval info)"

definition siginfo_ok :: "siginfo \<Rightarrow> bool" where
  "siginfo_ok si \<longleftrightarrow> in_long (si_signo si) \<and> in_long (si_code si)"

definition return_ok :: "wait_return \<Rightarrow> bool" where
  "return_ok r \<longleftrightarrow> memory_ok (process_vm_readv r) \<and> (\<forall>t s. waited_for r = Inr (t, s) \<longrightarrow> pid_ok t)"

definition world_ok :: "world \<Rightarrow> bool" where
  "world_ok w \<longleftrightarrow>
     (\<forall>ts. Some ts \<in> set (clock_answers w) \<longrightarrow> time_ok ts) \<and>
     (\<forall>n info. Inr (n, info) \<in> set (info_answers w) \<longrightarrow> info_ok info) \<and>
     (\<forall>si. Inr si \<in> set (siginfo_answers w) \<longrightarrow> siginfo_ok si) \<and>
     (\<forall>r \<in> set (wait_answers w). return_ok r)"

definition tracees_ok :: "sg_tracee_table \<Rightarrow> bool" where
  "tracees_ok tb \<longleftrightarrow> table_wf tb \<and> (\<forall>t tr. table_map tb t = Some tr \<longrightarrow> tracee_ok tr)"

text \<open>The rows of the statistics are for numbers that a \<open>long\<close> can hold.\<close>

definition stats_ok :: "sg_stats \<Rightarrow> bool" where
  "stats_ok st \<longleftrightarrow> stats_wf st \<and> (\<forall>r \<in> set (st_rows st). in_long (st_number r))"

text \<open>Thread ids are shown when there can be several threads.\<close>

definition several_tracees :: "sg_config \<Rightarrow> bool" where
  "several_tracees cfg \<longleftrightarrow> follow cfg \<or> cfg_mode cfg = SG_RUN_ATTACH"

definition tracer_inv :: "trace_context \<Rightarrow> bool" where
  "tracer_inv c \<longleftrightarrow> tracees_ok (ctx_tracees c) \<and> output_wf (ctx_output c) \<and>
     reader_ok (ctx_decoder c) \<and> out_decoder (ctx_output c) = ctx_decoder c \<and>
     out_summary (ctx_output c) = summary (ctx_config c) \<and> out_format (ctx_output c) = cfg_format (ctx_config c) \<and>
     show_tids (ctx_output c) = several_tracees (ctx_config c) \<and>
     stats_ok (ctx_stats c) \<and> world_ok (ctx_world c)"

text \<open>The stream agrees with the events so far; in a summary nothing is written for events.\<close>

definition synced :: "libc \<Rightarrow> string \<Rightarrow> trace_context \<Rightarrow> bool" where
  "synced lc base c \<longleftrightarrow>
     (if out_summary (ctx_output c) then written (out_stream (ctx_output c)) = base
      else transcript lc (out_format (ctx_output c)) (show_tids (ctx_output c)) base
             (emitted (ctx_world c)) (unfinished (ctx_output c)) (written (out_stream (ctx_output c))))"

definition at :: "libc \<Rightarrow> string \<Rightarrow> int set \<Rightarrow> trace_context \<Rightarrow> bool" where
  "at lc base T c \<longleftrightarrow> synced lc base c \<and> T \<subseteq> dom (tracee_map c)"

text \<open>What the handling of a stop leaves alone: the configuration and the returns still to come.\<close>

definition same_frame :: "trace_context \<Rightarrow> trace_context \<Rightarrow> bool" where [simp]:
  "same_frame c c' \<longleftrightarrow> ctx_config c' = ctx_config c \<and> wait_answers (ctx_world c') = wait_answers (ctx_world c)"

definition safe :: "libc \<Rightarrow> string \<Rightarrow> int set \<Rightarrow> 'a tr \<Rightarrow> ('a \<Rightarrow> trace_context \<Rightarrow> bool) \<Rightarrow> bool" where
  "safe lc base T m G \<longleftrightarrow>
     (\<forall>c. tracer_inv c \<longrightarrow> at lc base T c \<longrightarrow>
        (\<exists>r c'. m c = Some (r, c') \<and> tracer_inv c' \<and> same_frame c c' \<and> (\<forall>x. r = Inr x \<longrightarrow> G x c')))"

text \<open>The postcondition of most operations: the same tracees are there, and the value has a property.\<close>

definition still :: "libc \<Rightarrow> string \<Rightarrow> int set \<Rightarrow> ('a \<Rightarrow> bool) \<Rightarrow> 'a \<Rightarrow> trace_context \<Rightarrow> bool" where
  "still lc base T q x c \<longleftrightarrow> q x \<and> at lc base T c"

abbreviation keeps :: "libc \<Rightarrow> string \<Rightarrow> int set \<Rightarrow> 'a tr \<Rightarrow> bool" where
  "keeps lc base T m \<equiv> safe lc base T m (still lc base T (\<lambda>_. True))"

section \<open>The rules\<close>

named_theorems safe_rules \<open>rules that take an operation apart\<close>

lemma safeI:
  assumes "\<And>c. tracer_inv c \<Longrightarrow> at lc base T c \<Longrightarrow>
    \<exists>r c'. m c = Some (r, c') \<and> tracer_inv c' \<and> same_frame c c' \<and> (\<forall>x. r = Inr x \<longrightarrow> G x c')"
  shows "safe lc base T m G"
  using assms by (simp add: safe_def)

lemma safeE:
  assumes "safe lc base T m G" and "tracer_inv c" and "at lc base T c"
  obtains r c' where "m c = Some (r, c')" and "tracer_inv c'" and "same_frame c c'" and "\<And>x. r = Inr x \<Longrightarrow> G x c'"
  using assms unfolding safe_def by blast

lemma safe_weaken: "safe lc base T m G \<Longrightarrow> (\<And>x c. G x c \<Longrightarrow> G' x c) \<Longrightarrow> safe lc base T m G'"
  unfolding safe_def by meson

lemma at_mono: "at lc base T c \<Longrightarrow> U \<subseteq> T \<Longrightarrow> at lc base U c"
  by (auto simp: at_def)

lemma safe_pre: "safe lc base U m G \<Longrightarrow> U \<subseteq> T \<Longrightarrow> safe lc base T m G"
  unfolding safe_def by (meson at_mono)

lemma safe_ret [safe_rules]: "q x \<Longrightarrow> safe lc base T (ret x) (still lc base T q)"
  by (rule safeI) (simp add: ret_def still_def)

lemma safe_fail [safe_rules]: "safe lc base T (fail e) G"
  by (rule safeI) (simp add: fail_def)

text \<open>The general rule for a sequence, where the tracees in between may depend on the value.\<close>

lemma safe_bind_at:
  assumes "safe lc base T m R" and "\<And>x c. R x c \<Longrightarrow> at lc base (U x) c \<and> q x"
    and "\<And>x. q x \<Longrightarrow> safe lc base (U x) (f x) G"
  shows "safe lc base T (bind_tr m f) G"
proof (rule safeI)
  fix c assume c: "tracer_inv c" "at lc base T c"
  obtain r c' where m: "m c = Some (r, c')" "tracer_inv c'" "same_frame c c'" "\<And>x. r = Inr x \<Longrightarrow> R x c'"
    by (rule safeE [OF assms(1) c]) blast
  show "\<exists>r c'. bind_tr m f c = Some (r, c') \<and> tracer_inv c' \<and> same_frame c c' \<and> (\<forall>x. r = Inr x \<longrightarrow> G x c')"
  proof (cases r)
    case (Inl e)
    then show ?thesis using m by (simp add: bind_tr_def)
  next
    case (Inr x)
    then have x: "at lc base (U x) c'" "q x" using m(4) assms(2) by blast+
    obtain r2 c2 where "f x c' = Some (r2, c2)" "tracer_inv c2" "same_frame c' c2" "\<And>y. r2 = Inr y \<Longrightarrow> G y c2"
      by (rule safeE [OF assms(3) [OF x(2)] m(2) x(1)]) blast
    then show ?thesis using m(1,3) Inr by (simp add: bind_tr_def same_frame_def)
  qed
qed

lemma safe_bind:
  "safe lc base T m (still lc base T q) \<Longrightarrow> (\<And>x. q x \<Longrightarrow> safe lc base T (f x) G) \<Longrightarrow>
     safe lc base T (bind_tr m f) G"
  by (erule safe_bind_at [where U = "\<lambda>_. T" and q = q]) (auto simp: still_def)

lemma safe_seq [safe_rules]:
  "keeps lc base T m \<Longrightarrow> safe lc base T n G \<Longrightarrow> safe lc base T (seq_tr m n) G"
  unfolding seq_tr_def by (rule safe_bind)

lemma safe_reading: "safe lc base T (reading f) (still lc base T (\<lambda>_. True))"
  by (rule safeI) (simp add: reading_def still_def)

lemma safe_bind_reading [safe_rules]:
  "(\<And>x. safe lc base T (f x) G) \<Longrightarrow> safe lc base T (bind_tr (reading g) f) G"
  by (rule safe_bind [OF safe_reading])

lemma safe_if [safe_rules]:
  "(b \<Longrightarrow> safe lc base T m G) \<Longrightarrow> (\<not> b \<Longrightarrow> safe lc base T n G) \<Longrightarrow> safe lc base T (if b then m else n) G"
  by simp


lemma safe_updating:
  assumes "\<And>c. tracer_inv c \<Longrightarrow> tracer_inv (f c)" and "\<And>c. tracer_inv c \<Longrightarrow> at lc base T c \<Longrightarrow> at lc base T (f c)"
    and "\<And>c. same_frame c (f c)"
  shows "keeps lc base T (updating f)"
  using assms by (intro safeI) (simp add: updating_def still_def)

section \<open>Tracees\<close>

lemma tracees_okD:
  assumes "tracees_ok tb" and "table_map tb t = Some tr"
  shows "tracee_ok tr" and "tid tr = t"
proof -
  show "tracee_ok tr" using assms by (simp add: tracees_ok_def)
  show "tid tr = t"
    using assms(2) by (auto simp: table_map_def slots_map_def find_Some_iff holds_tid_def)
qed

lemma inv_get: "tracer_inv c \<Longrightarrow> sg_tracee_table_get (ctx_tracees c) t = Some (tracee_map c t)"
  by (simp add: tracer_inv_def tracees_ok_def table_get_correct)

lemma inv_world: "tracer_inv c \<Longrightarrow> world_ok w \<Longrightarrow> tracer_inv (c\<lparr>ctx_world := w\<rparr>)"
  by (simp add: tracer_inv_def)

lemma inv_tracees: "tracer_inv c \<Longrightarrow> tracees_ok tb \<Longrightarrow> tracer_inv (c\<lparr>ctx_tracees := tb\<rparr>)"
  by (simp add: tracer_inv_def)

lemma at_tracees [simp]:
  "at lc base T (c\<lparr>ctx_tracees := tb\<rparr>) \<longleftrightarrow> synced lc base c \<and> T \<subseteq> dom (table_map tb)"
  by (simp add: at_def synced_def)

lemma at_world: "emitted w = emitted (ctx_world c) \<Longrightarrow> at lc base T (c\<lparr>ctx_world := w\<rparr>) \<longleftrightarrow> at lc base T c"
  by (simp add: at_def synced_def)

lemma inv_heap: "tracer_inv (c\<lparr>ctx_world := (ctx_world c)\<lparr>w_heap := h\<rparr>\<rparr>) = tracer_inv c"
  by (simp add: tracer_inv_def world_ok_def)

definition its_tracee :: "int \<Rightarrow> sg_tracee \<Rightarrow> bool" where
  "its_tracee t tr \<longleftrightarrow> tracee_ok tr \<and> tid tr = t"

lemma safe_the_tracee:
  assumes "t \<in> T"
  shows "safe lc base T (the_tracee t) (still lc base T (its_tracee t))"
proof (rule safeI)
  fix c assume c: "tracer_inv c" "at lc base T c"
  then obtain tr where tr: "tracee_map c t = Some tr" using assms by (auto simp: at_def)
  then have "its_tracee t tr" using c(1) tracees_okD [OF _ tr] by (simp add: tracer_inv_def its_tracee_def)
  then show "\<exists>r c'. the_tracee t c = Some (r, c') \<and> tracer_inv c' \<and> same_frame c c' \<and>
      (\<forall>x. r = Inr x \<longrightarrow> still lc base T (its_tracee t) x c')"
    using c tr by (simp add: the_tracee_def inv_get still_def)
qed

lemma safe_bind_the_tracee [safe_rules]:
  "t \<in> T \<Longrightarrow> (\<And>tr. its_tracee t tr \<Longrightarrow> safe lc base T (f tr) G) \<Longrightarrow> safe lc base T (bind_tr (the_tracee t) f) G"
  by (rule safe_bind [OF safe_the_tracee])

lemma safe_bind_find [safe_rules]:
  assumes "safe lc base T (f None) G" and "\<And>tr. its_tracee t tr \<Longrightarrow> safe lc base (insert t T) (f (Some tr)) G"
  shows "safe lc base T (bind_tr (find_tracee t) f) G"
proof (rule safeI)
  fix c assume c: "tracer_inv c" "at lc base T c"
  have run: "bind_tr (find_tracee t) f c = f (tracee_map c t) c"
    using c(1) by (simp add: bind_tr_def find_tracee_def inv_get)
  show "\<exists>r c'. bind_tr (find_tracee t) f c = Some (r, c') \<and> tracer_inv c' \<and> same_frame c c' \<and> (\<forall>x. r = Inr x \<longrightarrow> G x c')"
  proof (cases "tracee_map c t")
    case None
    then show ?thesis using assms(1) c unfolding run safe_def by simp
  next
    case (Some tr)
    then have "its_tracee t tr" "at lc base (insert t T) c"
      using c tracees_okD [OF _ Some] by (auto simp: tracer_inv_def its_tracee_def at_def)
    then show ?thesis using assms(2) c(1) Some unfolding run safe_def by simp
  qed
qed

text \<open>A store through the pointer of a tracee keeps the invariant if it keeps the tracee in shape.\<close>

lemma safe_set_tracee [safe_rules]:
  assumes "t \<in> T" and "\<And>tr. its_tracee t tr \<Longrightarrow> its_tracee t (f tr)"
  shows "keeps lc base T (set_tracee t f)"
proof (rule safeI)
  fix c assume c: "tracer_inv c" "at lc base T c"
  have tb: "tracees_ok (ctx_tracees c)" using c(1) by (simp add: tracer_inv_def)
  obtain tr where tr: "tracee_map c t = Some tr" using c(2) assms(1) by (auto simp: at_def)
  then have "its_tracee t (f tr)" using assms(2) tracees_okD [OF tb tr] by (simp add: its_tracee_def)
  moreover from this obtain tb' where st: "tracee_store (ctx_tracees c) t f = Some tb'" "table_wf tb'"
      "table_map tb' = (tracee_map c)(t \<mapsto> f tr)"
    using tracee_store_correct [OF _ tr, of f] tb by (auto simp: tracees_ok_def its_tracee_def)
  ultimately have "tracees_ok tb'" using tb by (simp add: tracees_ok_def its_tracee_def)
  then show "\<exists>r c'. set_tracee t f c = Some (r, c') \<and> tracer_inv c' \<and> same_frame c c' \<and>
      (\<forall>x. r = Inr x \<longrightarrow> still lc base T (\<lambda>_. True) x c')"
    using c st by (auto simp: set_tracee_def inv_tracees still_def at_def synced_def)
qed

section \<open>Calls to the kernel\<close>

lemma next_answer_set:
  "next_answer d xs = (a, rest) \<Longrightarrow> set rest \<subseteq> set xs \<and> (a = d \<or> a \<in> set xs)"
  by (auto simp: next_answer_def split: list.splits)

lemma log_request_world [simp]:
  "ctx_world (log_request r c) =
     (ctx_world c)\<lparr>requests := requests (ctx_world c) @ [r], ptrace_call_count := ptrace_call_count (ctx_world c) + 1\<rparr>"
  by (simp add: log_request_def Let_def)

lemma safe_measured_ptrace: "keeps lc base T (measured_ptrace r)"
proof (rule safeI)
  fix c assume c: "tracer_inv c" "at lc base T c"
  obtain a rest where n: "next_answer (Some EPERM) (control_answers (ctx_world c)) = (a, rest)" by fastforce
  have "world_ok (ctx_world c)" using c(1) by (simp add: tracer_inv_def)
  with c n show "\<exists>ra c'. measured_ptrace r c = Some (ra, c') \<and> tracer_inv c' \<and> same_frame c c' \<and>
      (\<forall>x. ra = Inr x \<longrightarrow> still lc base T (\<lambda>_. True) x c')"
    by (simp add: measured_ptrace_def Let_def still_def at_world inv_world world_ok_def)
qed

lemma safe_bind_ptrace [safe_rules]:
  "safe lc base T (f None) G \<Longrightarrow> (\<And>errno. safe lc base T (f (Some errno)) G) \<Longrightarrow>
     safe lc base T (bind_tr (measured_ptrace r) f) G"
  using safe_bind [OF safe_measured_ptrace, of lc base T f G r] by (metis not_None_eq)

lemma safe_ptrace_info:
  "safe lc base T (ptrace_info t) (still lc base T (\<lambda>a. \<forall>n info. a = Inr (n, info) \<longrightarrow> info_ok info))"
proof (rule safeI)
  fix c assume c: "tracer_inv c" "at lc base T c"
  obtain a rest where n: "next_answer (Inl EPERM) (info_answers (ctx_world c)) = (a, rest)" by fastforce
  have w: "world_ok (ctx_world c)" using c(1) by (simp add: tracer_inv_def)
  then have "info_ok info" if "a = Inr (len, info)" for len info
    using next_answer_set [OF n] that by (auto simp: world_ok_def)
  moreover have "world_ok ((ctx_world c)\<lparr>requests := x, ptrace_call_count := y, info_answers := rest\<rparr>)" for x y
    using w next_answer_set [OF n] by (auto simp: world_ok_def)
  ultimately show "\<exists>ra c'. ptrace_info t c = Some (ra, c') \<and> tracer_inv c' \<and> same_frame c c' \<and>
      (\<forall>x. ra = Inr x \<longrightarrow> still lc base T (\<lambda>a. \<forall>n info. a = Inr (n, info) \<longrightarrow> info_ok info) x c')"
    using c n by (simp add: ptrace_info_def Let_def still_def at_world inv_world)
qed

lemma safe_bind_info [safe_rules]:
  "(\<And>errno. safe lc base T (f (Inl errno)) G) \<Longrightarrow>
   (\<And>n info. info_ok info \<Longrightarrow> safe lc base T (f (Inr (n, info))) G) \<Longrightarrow>
     safe lc base T (bind_tr (ptrace_info t) f) G"
  by (rule safe_bind [OF safe_ptrace_info]) (metis old.sum.exhaust surj_pair)

lemma safe_ptrace_message: "keeps lc base T (ptrace_message t)"
proof (rule safeI)
  fix c assume c: "tracer_inv c" "at lc base T c"
  obtain a rest where n: "next_answer (Inl EPERM) (message_answers (ctx_world c)) = (a, rest)" by fastforce
  have "world_ok (ctx_world c)" using c(1) by (simp add: tracer_inv_def)
  with c n show "\<exists>ra c'. ptrace_message t c = Some (ra, c') \<and> tracer_inv c' \<and> same_frame c c' \<and>
      (\<forall>x. ra = Inr x \<longrightarrow> still lc base T (\<lambda>_. True) x c')"
    by (simp add: ptrace_message_def Let_def still_def at_world inv_world world_ok_def)
qed

lemma safe_bind_message [safe_rules]:
  "(\<And>errno. safe lc base T (f (Inl errno)) G) \<Longrightarrow> (\<And>m. safe lc base T (f (Inr m)) G) \<Longrightarrow>
     safe lc base T (bind_tr (ptrace_message t) f) G"
  by (rule safe_bind [OF safe_ptrace_message]) (metis old.sum.exhaust)

lemma safe_ptrace_siginfo:
  "safe lc base T (ptrace_siginfo t) (still lc base T (\<lambda>a. \<forall>si. a = Inr si \<longrightarrow> siginfo_ok si))"
proof (rule safeI)
  fix c assume c: "tracer_inv c" "at lc base T c"
  obtain a rest where n: "next_answer (Inl EPERM) (siginfo_answers (ctx_world c)) = (a, rest)" by fastforce
  have w: "world_ok (ctx_world c)" using c(1) by (simp add: tracer_inv_def)
  then have "siginfo_ok si" if "a = Inr si" for si
    using next_answer_set [OF n] that by (auto simp: world_ok_def)
  moreover have "world_ok ((ctx_world c)\<lparr>requests := x, ptrace_call_count := y, siginfo_answers := rest\<rparr>)" for x y
    using w next_answer_set [OF n] by (auto simp: world_ok_def)
  ultimately show "\<exists>ra c'. ptrace_siginfo t c = Some (ra, c') \<and> tracer_inv c' \<and> same_frame c c' \<and>
      (\<forall>x. ra = Inr x \<longrightarrow> still lc base T (\<lambda>a. \<forall>si. a = Inr si \<longrightarrow> siginfo_ok si) x c')"
    using c n by (simp add: ptrace_siginfo_def Let_def still_def at_world inv_world)
qed

lemma safe_bind_siginfo [safe_rules]:
  "(\<And>errno. safe lc base T (f (Inl errno)) G) \<Longrightarrow> (\<And>si. siginfo_ok si \<Longrightarrow> safe lc base T (f (Inr si)) G) \<Longrightarrow>
     safe lc base T (bind_tr (ptrace_siginfo t) f) G"
  by (rule safe_bind [OF safe_ptrace_siginfo]) (metis old.sum.exhaust)

lemma safe_clock: "safe lc base T clock_gettime (still lc base T time_ok)"
proof (rule safeI)
  fix c assume c: "tracer_inv c" "at lc base T c"
  obtain a rest where n: "next_answer None (clock_answers (ctx_world c)) = (a, rest)" by fastforce
  have w: "world_ok (ctx_world c)" using c(1) by (simp add: tracer_inv_def)
  then have "time_ok ts" if "a = Some ts" for ts
    using next_answer_set [OF n] that by (auto simp: world_ok_def)
  moreover have "world_ok ((ctx_world c)\<lparr>clock_answers := rest\<rparr>)"
    using w next_answer_set [OF n] by (auto simp: world_ok_def)
  ultimately show "\<exists>ra c'. clock_gettime c = Some (ra, c') \<and> tracer_inv c' \<and> same_frame c c' \<and>
      (\<forall>x. ra = Inr x \<longrightarrow> still lc base T time_ok x c')"
    using c n by (cases a) (simp_all add: clock_gettime_def Let_def still_def at_world inv_world)
qed

lemma safe_bind_clock [safe_rules]:
  "(\<And>now. time_ok now \<Longrightarrow> safe lc base T (f now) G) \<Longrightarrow> safe lc base T (bind_tr clock_gettime f) G"
  by (rule safe_bind [OF safe_clock])

section \<open>Events\<close>

text \<open>What \<open>sg_output_write_event\<close> adds to a transcript.\<close>

lemma write_event_transcript:
  assumes env: "reader_ok (out_decoder out)" "libc_ok lc" "libc_plain lc" and ev: "sg_event_ok ev"
    and times: "\<And>e. event_data ev = SG_EVENT_SYSCALL e \<Longrightarrow> valid_times e" and wf: "output_wf out"
    and res: "sg_output_write_event lc h out ev = Some (None, h', out')" and sm: "\<not> out_summary out"
    and tr: "transcript lc (out_format out) (show_tids out) base evs (unfinished out) (written (out_stream out))"
  shows "transcript lc (out_format out) (show_tids out) base (evs @ [ev]) (unfinished out') (written (out_stream out'))"
proof (cases "out_format out = SG_FORMAT_TEXT")
  case True
  then have step: "write_text_event lc h out ev = Some (None, h', out')"
    using res sm by (simp add: sg_output_write_event_def)
  let ?line = "log_line lc (out_decoder out) (show_tids out) (unfinished out) ev"
  have r: "unfinished out' = log_next (unfinished out) ev"
      "case ?line of None \<Rightarrow> written (out_stream out') = written (out_stream out)
       | Some em \<Rightarrow> \<exists>s. renders em s \<and> written (out_stream out') = written (out_stream out) @ s @ [CHR 0x0A]"
    using write_text_event_log [OF env(1,2) ev wf, of h] unfolding step log_result_def Let_def by auto
  show ?thesis
    using r transcript.silent [OF tr True env(1)] transcript.line [OF tr True env(1)]
    by (cases ?line) auto
next
  case json: False
  show ?thesis
  proof (cases "is_unfinished_syscall ev")
    case True
    then have "out' = out" using res sm json by (simp add: sg_output_write_event_def)
    then show ?thesis using transcript.no_json [OF tr json True] by simp
  next
    case False
    obtain ns where ns: "\<And>e. event_data ev = SG_EVENT_SYSCALL e \<Longrightarrow> output_elapsed e = Some ns"
      using times output_elapsed_defined by (cases "event_data ev") fastforce+
    obtain line where l: "renders (append_json_event lc out ev) (json_text (event_json lc line ns ev))"
        "\<forall>e. event_data ev = SG_EVENT_SYSCALL e \<longrightarrow>
           renders (sg_decode_syscall lc (out_decoder out) (event_tid ev) e) line"
      using renders_json_event [OF env ev ns] by blast
    have "writes_line h out (json_text (event_json lc line ns ev)) (Some (None, h', out'))"
      using write_rendered_line [OF l(1), of h out Out_No_Event] res sm json False
      by (simp add: sg_output_write_event_def)
    then have "unfinished out' = unfinished out"
        "written (out_stream out') = written (out_stream out) @ json_text (event_json lc line ns ev) @ [CHR 0x0A]"
      by (auto simp: writes_line_def unfinished_def)
    moreover have "json_line lc ev (json_text (event_json lc line ns ev))"
      unfolding json_line_def using l(2) ns env(1) by blast
    ultimately show ?thesis using transcript.json [OF tr json False] by simp
  qed
qed

definition traced_event :: "sg_event \<Rightarrow> bool" where
  "traced_event ev \<longleftrightarrow> sg_event_ok ev \<and> (\<forall>e. event_data ev = SG_EVENT_SYSCALL e \<longrightarrow> valid_times e)"

lemma safe_emit [safe_rules]:
  assumes "libc_ok lc" and "libc_plain lc" and "traced_event ev"
  shows "keeps lc base T (emit_event lc ev)"
proof (rule safeI)
  fix c assume c: "tracer_inv c" "at lc base T c"
  let ?out = "ctx_output c" and ?h = "w_heap (ctx_world c)"
  have i: "reader_ok (out_decoder ?out)" "output_wf ?out" using c(1) by (simp_all add: tracer_inv_def)
  have ev: "sg_event_ok ev" "\<And>e. event_data ev = SG_EVENT_SYSCALL e \<Longrightarrow> valid_times e"
    using assms(3) by (simp_all add: traced_event_def)
  obtain e h out where r: "sg_output_write_event lc ?h ?out ev = Some (e, h, out)" "output_wf out" "same_setup ?out out"
    using write_event_correct [OF i(1) assms(1,2) ev i(2)] by blast
  let ?c = "c\<lparr>ctx_output := out, ctx_world := (ctx_world c)\<lparr>w_heap := h, emitted := emitted (ctx_world c) @ [ev]\<rparr>\<rparr>"
  have run: "emit_event lc ev c = Some (case e of None \<Rightarrow> Inr () | Some err \<Rightarrow> Inl (Tr_Output err), ?c)"
    using r(1) by (simp add: emit_event_def Let_def)
  have inv: "tracer_inv ?c" using c(1) r(2,3) by (simp add: tracer_inv_def same_setup_def world_ok_def)
  have "at lc base T ?c" if e: "e = None"
  proof (cases "out_summary ?out")
    case True
    then have "out = ?out" using r(1) by (simp add: sg_output_write_event_def)
    then show ?thesis using c(2) True by (simp add: at_def synced_def)
  next
    case False
    then show ?thesis
      using c(2) write_event_transcript [OF i(1) assms(1,2) ev i(2) r(1) [unfolded e] False, of base "emitted (ctx_world c)"] r(3)
      by (simp add: at_def synced_def same_setup_def)
  qed
  then show "\<exists>r c'. emit_event lc ev c = Some (r, c') \<and> tracer_inv c' \<and> same_frame c c' \<and>
      (\<forall>x. r = Inr x \<longrightarrow> still lc base T (\<lambda>_. True) x c')"
    using run inv by (auto simp: still_def split: option.splits)
qed

lemma slots_tracee_ok:
  assumes "tracees_ok tb" and "s \<in> set (slots tb)" and "slot_state s = SG_TRACEE_SLOT_OCCUPIED"
  shows "tracee_ok (slot_tracee s)"
proof -
  have "distinct_tids (slots tb)"
    using assms(1,2) by (auto simp: tracees_ok_def table_wf_def table_inv_def linked_def sg_tracee_table_init_def)
  then have "table_map tb (tid (slot_tracee s)) = Some (slot_tracee s)"
    using assms(2,3) by (auto simp: table_map_def slots_map_Some_iff holds_tid_def in_set_conv_nth)
  then show ?thesis using assms(1) by (simp add: tracees_ok_def)
qed

lemma pid_in_long [simp]: "pid_ok i \<Longrightarrow> in_long i"
  by (simp add: pid_ok_def in_long_def)

lemma traced_unfinished:
  "tracee_ok tr \<Longrightarrow> open_call tr = Some e \<Longrightarrow> traced_event (unfinished_event tr e)"
  by (auto simp: traced_event_def unfinished_event_def sg_event_ok_def open_call_def tracee_ok_def call_ok_def
      event_ok_def valid_times_def split: if_splits)

lemma safe_flush_slots:
  assumes "libc_ok lc" and "libc_plain lc"
    and "\<And>s. s \<in> set xs \<Longrightarrow> slot_state s = SG_TRACEE_SLOT_OCCUPIED \<Longrightarrow> tracee_ok (slot_tracee s)"
  shows "keeps lc base T (flush_slots lc except xs)"
  using assms(3)
proof (induction xs)
  case Nil
  then show ?case by (auto intro: safe_rules)
next
  case (Cons s xs)
  then show ?case
    using assms(1,2) traced_unfinished [of "slot_tracee s"]
    by (auto simp: Let_def intro!: safe_rules split: option.split)
qed

lemma safe_flush [safe_rules]:
  assumes "libc_ok lc" and "libc_plain lc"
  shows "keeps lc base T (flush_unfinished_syscalls lc except)"
proof (rule safeI)
  fix c assume c: "tracer_inv c" "at lc base T c"
  have "tracees_ok (ctx_tracees c)" using c(1) by (simp add: tracer_inv_def)
  then have "keeps lc base T (flush_slots lc except (slots (ctx_tracees c)))"
    using assms slots_tracee_ok by (intro safe_flush_slots) auto
  then show "\<exists>r c'. flush_unfinished_syscalls lc except c = Some (r, c') \<and> tracer_inv c' \<and> same_frame c c' \<and>
      (\<forall>x. r = Inr x \<longrightarrow> still lc base T (\<lambda>_. True) x c')"
    using c unfolding safe_def flush_unfinished_syscalls_def
    by (simp add: bind_tr_def reading_def ret_def still_def)
qed

lemma bump_numbers: "map st_number (st_rows (snd (bump st i error ns))) = map st_number (st_rows st)"
  by (cases "i < length (st_rows st)") (simp_all add: bump_def Let_def map_update list_update_beyond nth_map
      list_update_same_conv)

text \<open>Recording a call adds no row but one for its number.\<close>

lemma record_numbers:
  assumes "sg_stats_record h st e = Some (ok, h', st')"
  shows "st_number ` set (st_rows st') \<subseteq> insert (ev_number e) (st_number ` set (st_rows st))"
proof -
  have b: "st_number ` set (st_rows st2) = st_number ` set (st_rows st1)" if "bump st1 i error ns = (b, st2)" for st1 st2 i error ns b
    using bump_numbers [of st1 i error ns] that by (simp flip: set_map)
  have a: "st_number ` set (st_rows st1) \<subseteq> insert (ev_number e) (st_number ` set (st_rows st))"
    if "add_row h st (ev_number e) = Some (i, h1, st1)" for i h1 st1
    using that by (auto simp: add_row_def zero_stat_def Let_def split: if_splits prod.splits)
  have "\<exists>st1. (st1 = st \<or> (\<exists>i h1. add_row h st (ev_number e) = Some (i, h1, st1))) \<and>
      (st' = st1 \<or> (\<exists>i error ns b. bump st1 i error ns = (b, st')))"
    using assms unfolding sg_stats_record_def Let_def
    by (simp split: if_splits option.splits prod.splits) blast+
  then obtain st1 where st1: "st1 = st \<or> (\<exists>i h1. add_row h st (ev_number e) = Some (i, h1, st1))"
      "st' = st1 \<or> (\<exists>i error ns b. bump st1 i error ns = (b, st'))"
    by blast
  have "st_number ` set (st_rows st1) \<subseteq> insert (ev_number e) (st_number ` set (st_rows st))"
    using st1(1) by (elim disjE exE) (simp add: subset_insertI, erule a)
  moreover have "st_number ` set (st_rows st') = st_number ` set (st_rows st1)"
    using st1(2) by (elim disjE exE) (simp, erule b)
  ultimately show ?thesis by simp
qed

lemma safe_record_stats [safe_rules]:
  assumes "call_ok e"
  shows "keeps lc base T (record_stats e)"
proof (rule safeI)
  fix c assume c: "tracer_inv c" "at lc base T c"
  obtain fits ns where el: "elapsed_nanoseconds e = Some (fits, ns)"
    using elapsed_spec [of e] assms by (auto simp: call_ok_def split: if_splits)
  have st: "stats_ok (ctx_stats c)" using c(1) by (simp add: tracer_inv_def)
  then obtain ok h st where r: "sg_stats_record (w_heap (ctx_world c)) (ctx_stats c) e = Some (ok, h, st)" "stats_wf st"
    using stats_record_correct [OF _ el, of "ctx_stats c" "w_heap (ctx_world c)"] by (auto simp: stats_ok_def)
  have "in_long (ev_number e)" using assms by (simp add: call_ok_def event_ok_def in_long_def)
  then have "stats_ok st" using st r(2) record_numbers [OF r(1)] by (fastforce simp: stats_ok_def)
  then show "\<exists>r c'. record_stats e c = Some (r, c') \<and> tracer_inv c' \<and> same_frame c c' \<and>
      (\<forall>x. r = Inr x \<longrightarrow> still lc base T (\<lambda>_. True) x c')"
    using c r(1) by (simp add: record_stats_def tracer_inv_def world_ok_def still_def at_def synced_def split: if_splits)
qed

lemma safe_count_event [safe_rules]:
  "keeps lc base T (updating (\<lambda>c. c\<lparr>event_count := event_count c + 1\<rparr>))"
  by (rule safe_updating) (simp_all add: tracer_inv_def at_def synced_def split: if_splits)

lemma safe_write_syscall [safe_rules]:
  assumes "libc_ok lc" "libc_plain lc" "t \<in> T" "call_ok e"
  shows "keeps lc base T (write_syscall lc t e)"
  unfolding write_syscall_def using assms
  by (auto intro!: safe_rules simp: traced_event_def sg_event_ok_def its_tracee_def tracee_ok_def call_ok_def)

lemma safe_write_signal [safe_rules]:
  assumes "libc_ok lc" "libc_plain lc" "t \<in> T" "siginfo_ok si"
  shows "keeps lc base T (write_signal lc t si)"
  unfolding write_signal_def using assms
  by (auto intro!: safe_rules simp: traced_event_def sg_event_ok_def its_tracee_def tracee_ok_def siginfo_ok_def)

lemma uint_in_long: "in_long (uint w)" for w :: u32
proof -
  have "0 \<le> uint w" "uint w < 4294967296" using uint_ge_0 [of w] uint_bounded [of w] by simp_all
  then have "LONG_MIN \<le> uint w \<and> uint w \<le> LONG_MAX" by (intro conjI) linarith+
  then show ?thesis unfolding in_long_def by blast
qed

lemma exit_event_in_long: "in_long (status (exit_event s))"
  by (simp only: exit_event_def WEXITSTATUS_def WTERMSIG_def sg_lifecycle_event.simps uint_in_long if_cancel split: if_split) simp

lemma safe_write_exit [safe_rules]:
  assumes "libc_ok lc" "libc_plain lc" "t \<in> T"
  shows "keeps lc base T (write_exit lc t s)"
  unfolding write_exit_def using assms
  by (auto intro!: safe_rules simp: traced_event_def sg_event_ok_def its_tracee_def tracee_ok_def exit_event_in_long)

lemma safe_write_process_start [safe_rules]:
  assumes "libc_ok lc" "libc_plain lc" "t \<in> T" "pid_ok child"
  shows "keeps lc base T (write_process_start lc t child event)"
  unfolding write_process_start_def using assms
  by (auto intro!: safe_rules simp: traced_event_def sg_event_ok_def its_tracee_def tracee_ok_def)

section \<open>The life of a call\<close>

lemma call_ok_zero [simp]: "call_ok zero_syscall_event"
  by (auto simp: call_ok_def event_ok_def valid_times_def zero_syscall_event_def zero_timespec_def)

lemma call_ok_released [simp]: "call_ok e \<Longrightarrow> call_ok (sg_decoder_release_event e)"
  by (auto simp: call_ok_def event_ok_def valid_times_def sg_decoder_release_event_def)

lemma call_ok_completed [simp]: "call_ok (e\<lparr>ev_completed := b\<rparr>) = call_ok e"
  by (simp add: call_ok_def event_ok_def valid_times_def)

lemma call_ok_exited [simp]: "call_ok e \<Longrightarrow> time_ok now \<Longrightarrow> call_ok (e\<lparr>ev_exited_at := now\<rparr>)"
  by (simp add: call_ok_def event_ok_def valid_times_def time_ok_def)

lemma call_ok_result [simp]:
  "call_ok e \<Longrightarrow> in_long r \<Longrightarrow> 0 \<le> n \<Longrightarrow> n \<le> INT_MAX \<Longrightarrow> call_ok (e\<lparr>ev_result := r, ev_error_number := n\<rparr>)"
  by (simp add: call_ok_def event_ok_def valid_times_def in_long_def)

lemma call_ok_fresh [simp]:
  "0 \<le> number \<Longrightarrow> number \<le> LONG_MAX \<Longrightarrow> length arguments = 6 \<Longrightarrow> call_ok (fresh_event number arguments)"
  using call_ok_zero by (simp add: fresh_event_def call_ok_def event_ok_def valid_times_def)

lemma call_ok_entered [simp]: "call_ok e \<Longrightarrow> time_ok now \<Longrightarrow> call_ok (e\<lparr>ev_entered_at := now\<rparr>)"
  by (simp add: call_ok_def event_ok_def valid_times_def time_ok_def)

lemma exit_error_range: "0 \<le> exit_error info" "exit_error info \<le> INT_MAX"
  by (simp_all add: exit_error_def)

lemmas tracee_shape = its_tracee_def tracee_ok_def

lemma safe_capture_entry:
  assumes lib: "libc_ok lc" and e: "call_ok e"
  shows "safe lc base T (capture_entry lc t e) (still lc base T call_ok)"
proof (rule safeI)
  fix c assume c: "tracer_inv c" "at lc base T c"
  have rd: "reader_ok (ctx_decoder c)" using c(1) by (simp add: tracer_inv_def)
  have ok: "event_ok e" using e by (simp add: call_ok_def)
  have "\<exists>ok h e'. sg_decoder_capture_entry lc (ctx_decoder c) t (w_heap (ctx_world c)) e = Some (ok, h, e') \<and>
      (ok \<longrightarrow> call_ok e')" (is "\<exists>ok h e'. ?P ok h e'")
  proof (cases "sg_syscall_by_number (ev_number e)")
    case None
    then show ?thesis using e
      by (auto simp: sg_decoder_capture_entry_def sg_syscall_argument_count_def call_ok_def event_ok_def valid_times_def)
  next
    case (Some d)
    let ?e = "e\<lparr>ev_argument_count := effective_argument_count d e\<rparr>"
    obtain ok h e' where r: "sg_decoder_capture_entry lc (ctx_decoder c) t (w_heap (ctx_world c)) e = Some (ok, h, e')"
        "if ok then captured lc (ctx_decoder c) t d 0 (effective_argument_count d e) ?e e' else e' = sg_decoder_release_event ?e"
      using capture_entry_correct [OF rd lib ok Some] by blast
    have "call_ok e'" if ok
    proof -
      have e': "event_ok e'" "?e\<lparr>ev_decoded_arguments := ev_decoded_arguments e'\<rparr> = e'"
        using r(2) that by (simp_all add: captured_def)
      have "valid_times (?e\<lparr>ev_decoded_arguments := ev_decoded_arguments e'\<rparr>)"
        using e by (simp add: call_ok_def valid_times_def)
      with e' show ?thesis by (simp add: call_ok_def)
    qed
    with r(1) show ?thesis by blast
  qed
  then obtain ok h e' where "?P ok h e'" by blast
  then show "\<exists>r c'. capture_entry lc t e c = Some (r, c') \<and> tracer_inv c' \<and> same_frame c c' \<and>
      (\<forall>x. r = Inr x \<longrightarrow> still lc base T call_ok x c')"
    using c inv_heap [of h c] at_world [of "(ctx_world c)\<lparr>w_heap := h\<rparr>" c lc base T]
    by (simp add: capture_entry_def still_def)
qed

lemma safe_complete_pending [safe_rules]:
  assumes "libc_ok lc" "libc_plain lc" "t \<in> T"
  shows "keeps lc base T (complete_pending lc t)"
  unfolding complete_pending_def using assms
  by (auto intro!: safe_rules simp: tracee_shape in_long_def)

lemma safe_complete_interrupted [safe_rules]:
  assumes "libc_ok lc" "libc_plain lc" "t \<in> T"
  shows "keeps lc base T (complete_interrupted lc t)"
  unfolding complete_interrupted_def using assms
  by (auto intro!: safe_rules simp: tracee_shape in_long_def EINTR_def)

lemma safe_entry_event:
  "call_ok e \<Longrightarrow> safe lc base T
     (if sel then bind_tr clock_gettime (\<lambda>now. ret (e\<lparr>ev_entered_at := now\<rparr>)) else ret e) (still lc base T call_ok)"
  by (auto intro!: safe_rules)

lemma safe_begin_fresh [safe_rules]:
  assumes lib: "libc_ok lc" "libc_plain lc" and t: "t \<in> T"
    and args: "0 \<le> number" "number \<le> LONG_MAX" "length arguments = 6"
  shows "keeps lc base T (begin_fresh lc t number arguments)"
  unfolding begin_fresh_def
proof (rule safe_bind_reading, clarify)
  fix sel sum
  show "keeps lc base T (bind_tr (if sel then bind_tr clock_gettime (\<lambda>now. ret ((fresh_event number arguments)\<lparr>ev_entered_at := now\<rparr>))
              else ret (fresh_event number arguments)) (\<lambda>e.
     bind_tr (if sel \<and> \<not> sum then capture_entry lc t e else ret e) (\<lambda>e'.
     seq_tr (if sel then flush_unfinished_syscalls lc t else ret ())
       (set_tracee t (\<lambda>tr. tr\<lparr>pending_syscall := e', has_pending_syscall := True,
                              phase := SG_TRACEE_IN_SYSCALL\<rparr>)))))"
  proof (rule safe_bind [OF safe_entry_event [OF call_ok_fresh [OF args]]])
    fix e assume e: "call_ok e"
    have "safe lc base T (if sel \<and> \<not> sum then capture_entry lc t e else ret e) (still lc base T call_ok)"
      using lib(1) e by (auto intro!: safe_rules safe_capture_entry)
    then show "keeps lc base T (bind_tr (if sel \<and> \<not> sum then capture_entry lc t e else ret e) (\<lambda>e'.
      seq_tr (if sel then flush_unfinished_syscalls lc t else ret ())
       (set_tracee t (\<lambda>tr. tr\<lparr>pending_syscall := e', has_pending_syscall := True,
                              phase := SG_TRACEE_IN_SYSCALL\<rparr>))))"
      by (rule safe_bind) (use lib t in \<open>auto intro!: safe_rules simp: tracee_shape\<close>)
  qed
qed

lemma safe_begin_syscall [safe_rules]:
  assumes "libc_ok lc" "libc_plain lc" "t \<in> T" "length arguments = 6"
  shows "keeps lc base T (begin_syscall lc t number arguments)"
  unfolding begin_syscall_def end_pending_def enter_syscall_def using assms
  by (auto intro!: safe_rules simp: tracee_shape restarted_def)

lemma safe_finish_syscall [safe_rules]:
  assumes "libc_ok lc" "libc_plain lc" "t \<in> T" "info_ok info"
  shows "keeps lc base T (finish_syscall lc t info)"
  unfolding finish_syscall_def using assms
  by (auto intro!: safe_rules simp: tracee_shape exit_error_range info_ok_def closed_tracee_def Let_def)

lemma safe_handle_syscall_stop [safe_rules]:
  assumes "libc_ok lc" "libc_plain lc" "t \<in> T"
  shows "keeps lc base T (handle_syscall_stop lc t)"
  unfolding handle_syscall_stop_def using assms by (auto intro!: safe_rules simp: info_ok_def)

lemma safe_handle_seccomp_stop [safe_rules]:
  assumes "libc_ok lc" "libc_plain lc" "t \<in> T"
  shows "keeps lc base T (handle_seccomp_stop lc t)"
  unfolding handle_seccomp_stop_def using assms by (auto intro!: safe_rules simp: info_ok_def)

section \<open>Entering and leaving the table\<close>

lemma safe_insert_tracee:
  assumes "pid_ok t" and "pid_ok tg"
  shows "safe lc base T (insert_tracee t tg att) (\<lambda>r c. at lc base (if r = None then T else insert t T) c)"
proof (rule safeI)
  fix c assume c: "tracer_inv c" "at lc base T c"
  have tb: "tracees_ok (ctx_tracees c)" using c(1) by (simp add: tracer_inv_def)
  obtain r h tb' where r: "sg_tracee_table_insert (w_heap (ctx_world c)) (ctx_tracees c) t tg att = Some (r, h, tb')"
      "table_wf tb'" "case r of None \<Rightarrow> tb' = ctx_tracees c
       | Some False \<Rightarrow> t \<in> dom (tracee_map c) \<and> table_map tb' = tracee_map c
       | Some True \<Rightarrow> table_map tb' = (tracee_map c)(t \<mapsto> fresh_tracee t tg att)"
    using table_insert_correct [of "ctx_tracees c" "w_heap (ctx_world c)" t tg att] tb
    by (fastforce simp: tracees_ok_def split: option.splits bool.splits)
  have fresh: "tracee_ok (fresh_tracee t tg att)" using assms by (simp add: fresh_tracee_def zero_tracee_def tracee_ok_def)
  have tb': "tracees_ok tb'" and d: "T \<subseteq> dom (table_map tb')" "r \<noteq> None \<Longrightarrow> t \<in> dom (table_map tb')"
    using r(2,3) tb fresh c(2) by (auto simp: tracees_ok_def at_def split: option.splits bool.splits if_splits)
  let ?c = "c\<lparr>ctx_tracees := tb', ctx_world := (ctx_world c)\<lparr>w_heap := h\<rparr>\<rparr>"
  have "tracer_inv ?c" using c(1) tb' by (simp add: tracer_inv_def world_ok_def)
  moreover have "at lc base (if r = None then T else insert t T) ?c"
    using c(2) d by (simp add: at_def synced_def)
  ultimately show "\<exists>r c'. insert_tracee t tg att c = Some (r, c') \<and> tracer_inv c' \<and> same_frame c c' \<and>
      (\<forall>x. r = Inr x \<longrightarrow> at lc base (if x = None then T else insert t T) c')"
    using r(1) by (simp add: insert_tracee_def)
qed

lemma safe_add_tracee:
  assumes "pid_ok t" and "pid_ok tg"
  shows "safe lc base T (add_tracee t tg att born) (still lc base (insert t T) (\<lambda>_. True))"
  unfolding add_tracee_def
  by (rule safe_bind_at [OF safe_insert_tracee [OF assms], where U = "\<lambda>r. if r = None then T else insert t T" and q = "\<lambda>_. True"])
    (auto intro!: safe_rules simp: tracee_shape split: option.split bool.split)

lemma safe_seq_add_tracee [safe_rules]:
  "pid_ok t \<Longrightarrow> pid_ok tg \<Longrightarrow> safe lc base (insert t T) n G \<Longrightarrow>
     safe lc base T (seq_tr (add_tracee t tg att born) n) G"
  unfolding seq_tr_def
  by (erule safe_bind_at [OF safe_add_tracee, where U = "\<lambda>_. insert t T" and q = "\<lambda>_. True"])
    (auto simp: still_def)

lemma safe_remove_tracee:
  "safe lc base T (remove_tracee t) (still lc base (T - {t}) (\<lambda>r. \<forall>tr. r = Some tr \<longrightarrow> its_tracee t tr))"
proof (rule safeI)
  fix c assume c: "tracer_inv c" "at lc base T c"
  have tb: "tracees_ok (ctx_tracees c)" using c(1) by (simp add: tracer_inv_def)
  obtain tb' where r: "sg_tracee_table_remove (ctx_tracees c) t = Some (tracee_map c t, tb')" "table_wf tb'"
      "table_map tb' = (tracee_map c)(t := None)"
    using table_remove_correct [of "ctx_tracees c" t] tb by (auto simp: tracees_ok_def)
  have "tracees_ok tb'" using r(2,3) tb by (auto simp: tracees_ok_def split: if_splits)
  moreover have "its_tracee t tr" if "tracee_map c t = Some tr" for tr
    using tracees_okD [OF tb that] by (simp add: its_tracee_def)
  ultimately show "\<exists>ra c'. remove_tracee t c = Some (ra, c') \<and> tracer_inv c' \<and> same_frame c c' \<and>
      (\<forall>x. ra = Inr x \<longrightarrow> still lc base (T - {t}) (\<lambda>r. \<forall>tr. r = Some tr \<longrightarrow> its_tracee t tr) x c')"
    using c r by (auto simp: remove_tracee_def inv_tracees still_def at_def synced_def)
qed

lemma safe_bind_remove [safe_rules]:
  "(\<And>r. (\<And>tr. r = Some tr \<Longrightarrow> its_tracee t tr) \<Longrightarrow> safe lc base (T - {t}) (f r) G) \<Longrightarrow>
     safe lc base T (bind_tr (remove_tracee t) f) G"
  by (rule safe_bind_at [OF safe_remove_tracee, where U = "\<lambda>_. T - {t}" and q = "\<lambda>r. \<forall>tr. r = Some tr \<longrightarrow> its_tracee t tr"])
    (auto simp: still_def)

lemma tgid_from_range: "tgid_from n s \<le> INT_MAX"
  by (induction n s rule: tgid_from.induct) (auto split: prod.split option.split)

lemma safe_read_tgid: "safe lc base T (read_tgid t) (still lc base T (\<lambda>v. v \<le> INT_MAX))"
proof (rule safeI)
  fix c assume c: "tracer_inv c" "at lc base T c"
  obtain a rest where n: "next_answer None (status_files (ctx_world c)) = (a, rest)" by fastforce
  have "world_ok (ctx_world c)" using c(1) by (simp add: tracer_inv_def)
  with c n show "\<exists>r c'. read_tgid t c = Some (r, c') \<and> tracer_inv c' \<and> same_frame c c' \<and>
      (\<forall>x. r = Inr x \<longrightarrow> still lc base T (\<lambda>v. v \<le> INT_MAX) x c')"
    by (simp add: read_tgid_def Let_def still_def at_world inv_world world_ok_def tgid_from_range split: option.split)
qed

lemma safe_bind_read_tgid [safe_rules]:
  "(\<And>v. v \<le> INT_MAX \<Longrightarrow> safe lc base T (f v) G) \<Longrightarrow> safe lc base T (bind_tr (read_tgid t) f) G"
  by (rule safe_bind [OF safe_read_tgid])

section \<open>Stops\<close>

lemma safe_on_error:
  assumes "safe lc base T m G"
    and "\<And>c. tracer_inv c \<Longrightarrow> \<exists>r c'. cleanup c = Some (r, c') \<and> tracer_inv c' \<and> same_frame c c'"
  shows "safe lc base T (on_error m cleanup) G"
proof (rule safeI)
  fix c assume c: "tracer_inv c" "at lc base T c"
  obtain r c1 where m: "m c = Some (r, c1)" "tracer_inv c1" "same_frame c c1" "\<And>x. r = Inr x \<Longrightarrow> G x c1"
    by (rule safeE [OF assms(1) c]) blast
  obtain r2 c2 where "cleanup c1 = Some (r2, c2)" "tracer_inv c2" "same_frame c1 c2"
    using assms(2) [OF m(2)] by blast
  with m show "\<exists>r c'. on_error m cleanup c = Some (r, c') \<and> tracer_inv c' \<and> same_frame c c' \<and>
      (\<forall>x. r = Inr x \<longrightarrow> G x c')"
    by (cases r) (auto simp: on_error_def)
qed

lemma safe_handle_exec_event [safe_rules]:
  assumes "libc_ok lc" "libc_plain lc" "t \<in> T"
  shows "keeps lc base T (handle_exec_event lc t)"
  unfolding handle_exec_event_def using assms
  by (auto intro!: safe_rules safe_updating simp: tracee_shape tracer_inv_def at_def synced_def)

lemma refusal_cleanup:
  assumes "tracer_inv c"
  shows "\<exists>r c'. (if att then bind_tr (measured_ptrace (PT_DETACH child 0)) (\<lambda>_. ret ())
      else updating (log_kill child SIGKILL)) c = Some (r, c') \<and> tracer_inv c' \<and> same_frame c c'"
proof -
  obtain a rest where n: "next_answer (Some EPERM) (control_answers (ctx_world c)) = (a, rest)" by fastforce
  have "world_ok (ctx_world c)" using assms by (simp add: tracer_inv_def)
  with n show ?thesis
    using inv_world [OF assms]
    by (simp add: bind_tr_def ret_def updating_def log_kill_def measured_ptrace_def world_ok_def Let_def)
qed

lemma safe_handle_birth_event [safe_rules]:
  assumes "libc_ok lc" "libc_plain lc" "t \<in> T"
  shows "keeps lc base T (handle_birth_event lc t event)"
proof -
  have added: "safe lc base T (seq_tr (on_error (add_tracee child tg (attached tr) True)
        (if attached tr then bind_tr (measured_ptrace (PT_DETACH child 0)) (\<lambda>_. ret ())
         else updating (log_kill child SIGKILL))) n) G"
    if "pid_ok child" "pid_ok tg" "safe lc base (insert child T) n G" for child tg tr n and G :: "unit \<Rightarrow> _"
    unfolding seq_tr_def
    by (rule safe_bind_at [OF safe_on_error [OF safe_add_tracee [OF that(1,2)] refusal_cleanup],
          where U = "\<lambda>_. insert child T" and q = "\<lambda>_. True"])
      (use that in \<open>auto simp: still_def\<close>)
  have child: "pid_ok (int (unat m))" if "m \<noteq> 0" "\<not> int (unat m) > INT_MAX" for m :: u64
  proof -
    have "0 < int (unat m)" using that(1) unat_gt_0 [of m] by linarith
    with that(2) show ?thesis unfolding pid_ok_def by linarith
  qed
  have told: "safe lc base (insert child T) (bind_tr (find_tracee t) (\<lambda>found.
      case found of None \<Rightarrow> fail Tr_Lost_Parent | Some _ \<Rightarrow> write_process_start lc t child event))
      (still lc base T (\<lambda>_. True))" if "pid_ok child" for child
  proof (rule safe_bind_find, simp_all add: safe_fail)
    have "keeps lc base (insert t (insert child T)) (write_process_start lc t child event)"
      using assms that by (auto intro: safe_write_process_start)
    then show "safe lc base (insert t (insert child T)) (write_process_start lc t child event)
        (still lc base T (\<lambda>_. True))"
      by (rule safe_weaken) (auto simp: still_def at_def)
  qed
  show ?thesis
    unfolding handle_birth_event_def Let_def
  proof (rule safe_bind_message, simp_all only: sum.case, rule safe_fail, rule safe_if, rule safe_fail)
    fix m :: u64 assume "\<not> (m = 0 \<or> int (unat m) > INT_MAX)"
    then have m: "pid_ok (int (unat m))" using child by blast
    show "keeps lc base T (bind_tr (read_tgid (int (unat m))) (\<lambda>found.
        bind_tr (the_tracee t) (\<lambda>tr.
          seq_tr (on_error (add_tracee (int (unat m))
              (if found \<le> 0 then if event = PTRACE_EVENT_CLONE then tgid tr else int (unat m) else found) (attached tr) True)
              (if attached tr then bind_tr (measured_ptrace (PT_DETACH (int (unat m)) 0)) (\<lambda>_. ret ())
               else updating (log_kill (int (unat m)) SIGKILL)))
            (bind_tr (find_tracee t) (\<lambda>found.
              case found of None \<Rightarrow> fail Tr_Lost_Parent | Some _ \<Rightarrow> write_process_start lc t (int (unat m)) event)))))"
      by (intro safe_bind_read_tgid safe_bind_the_tracee [OF assms(3)] added told m)
        (use m in \<open>auto simp: tracee_shape pid_ok_def\<close>)
  qed
qed

lemma safe_handle_ptrace_event [safe_rules]:
  assumes "libc_ok lc" "libc_plain lc" "t \<in> T"
  shows "keeps lc base T (handle_ptrace_event lc t event)"
  unfolding handle_ptrace_event_def using assms by (auto intro!: safe_rules)

lemma safe_migrate_output [safe_rules]: "keeps lc base T (migrate_output former t)"
  unfolding migrate_output_def
proof (rule safe_updating)
  fix c assume c: "tracer_inv c"
  let ?out = "sg_output_migrate_tid (ctx_output c) former t"
  have m: "output_wf ?out" "out_stream ?out = out_stream (ctx_output c)" "same_setup (ctx_output c) ?out"
      "unfinished ?out = (if former \<in> unfinished (ctx_output c)
         then insert t (unfinished (ctx_output c) - {former}) else unfinished (ctx_output c))"
    using migrate_correct [of "ctx_output c" former t] c by (simp_all add: tracer_inv_def)
  show "tracer_inv (c\<lparr>ctx_output := ?out\<rparr>)" using c m by (simp add: tracer_inv_def same_setup_def)
  show "at lc base T (c\<lparr>ctx_output := ?out\<rparr>)" if "at lc base T c"
    using that m transcript.renamed [of lc _ _ base _ "unfinished (ctx_output c)" _ former t]
    by (simp add: at_def synced_def same_setup_def split: if_splits)
qed simp

lemma safe_migrate_exec_tid [safe_rules]:
  assumes "pid_ok waited"
  shows "safe lc base T (migrate_exec_tid waited former) (still lc base {} (\<lambda>_. True))"
proof -
  have added: "safe lc base U (seq_tr (add_tracee waited waited att False) n) (still lc base {} (\<lambda>_. True))"
    if "keeps lc base (insert waited U) n" for att n U
    by (rule safe_weaken [OF safe_seq_add_tracee [OF assms assms that]]) (auto simp: still_def at_def)
  have root: "keeps lc base U (updating (\<lambda>c. if root_tid c = former then c\<lparr>root_tid := waited\<rparr> else c))" for U
    by (rule safe_updating) (simp_all add: tracer_inv_def at_def synced_def split: if_splits)
  have stay: "safe lc base T (ret ()) (still lc base {} (\<lambda>_. True))"
    by (rule safe_weaken [OF safe_ret [where q = "\<lambda>_. True"]]) (auto simp: still_def at_def)
  show ?thesis
    unfolding migrate_exec_tid_def
    by (auto intro!: safe_if stay safe_bind_remove added safe_bind_reading safe_seq safe_set_tracee safe_migrate_output root
        simp: surviving_def tracee_shape renamed_def split: option.split)
qed

lemma safe_record_exit_status [safe_rules]: "keeps lc base T (record_exit_status t s)"
  unfolding record_exit_status_def by (rule safe_updating) (simp_all add: tracer_inv_def at_def synced_def split: if_splits)

lemma safe_former_tid:
  assumes "pid_ok waited"
  shows "keeps lc base {} (former_tid waited s)"
  unfolding former_tid_def using assms by (auto intro!: safe_rules)

lemma safe_locate_tracee:
  assumes "pid_ok waited"
  shows "safe lc base {} (locate_tracee waited s) (\<lambda>found. at lc base (if found then {waited} else {}))"
proof -
  have *: "safe lc base T (ret b) (\<lambda>found. at lc base (if found then {waited} else {}))"
    if "b \<Longrightarrow> waited \<in> T" for b T
    by (rule safe_weaken [OF safe_ret [where q = "\<lambda>x. x = b"]]) (use that in \<open>auto simp: still_def at_def\<close>)
  show ?thesis
    unfolding locate_tracee_def using assms
    by (auto intro!: * safe_bind_find safe_bind_reading safe_bind_read_tgid safe_seq_add_tracee
        split: prod.split simp: pid_ok_def)
qed

lemma safe_handle_exit:
  assumes "libc_ok lc" "libc_plain lc" "t \<in> T"
  shows "safe lc base T (handle_exit lc t s) (still lc base (T - {t}) (\<lambda>_. True))"
  unfolding handle_exit_def using assms by (auto intro!: safe_rules simp: tracee_shape)

lemma safe_group_stop [safe_rules]: "t \<in> T \<Longrightarrow> keeps lc base T (group_stop t)"
  unfolding group_stop_def by (auto intro!: safe_rules simp: tracee_shape)

lemma safe_bind_group_stop [safe_rules]:
  "t \<in> T \<Longrightarrow> (\<And>b. safe lc base T (f b) G) \<Longrightarrow> safe lc base T (bind_tr (group_stop t) f) G"
  by (rule safe_bind [OF safe_group_stop])

lemma safe_signal_stop [safe_rules]:
  assumes "libc_ok lc" "libc_plain lc" "t \<in> T"
  shows "keeps lc base T (signal_stop lc t stop)"
  unfolding signal_stop_def using assms by (auto intro!: safe_rules simp: tracee_shape)

lemma safe_dispatch_stop:
  assumes "libc_ok lc" "libc_plain lc" "t \<in> T"
  shows "keeps lc base T (dispatch_stop lc t s)"
  unfolding dispatch_stop_def Let_def using assms by (auto intro!: safe_rules simp: tracee_shape)

lemma safe_resume [safe_rules]: "t \<in> T \<Longrightarrow> keeps lc base T (resume_tracee t sig)"
  unfolding resume_tracee_def Let_def by (auto intro!: safe_rules)

lemma safe_listen [safe_rules]: "keeps lc base T (listen_tracee t)"
  unfolding listen_tracee_def by (auto intro!: safe_rules)

text \<open>A refused request leaves the output alone, so the loop can go on after it.\<close>

lemma ask_at:
  assumes "tracer_inv c" and "at lc base T c"
  shows "\<exists>r' c'. bind_tr (measured_ptrace r) (\<lambda>a. case a of None \<Rightarrow> ret () | Some errno \<Rightarrow> fail (Tr_Ptrace r errno)) c =
      Some (r', c') \<and> tracer_inv c' \<and> same_frame c c' \<and> at lc base T c'"
proof -
  obtain a c' where "measured_ptrace r c = Some (Inr a, c')" "tracer_inv c'" "same_frame c c'" "at lc base T c'"
    by (rule safeE [OF safe_measured_ptrace assms, of r]) (auto simp: measured_ptrace_def still_def split: prod.splits)
  then show ?thesis by (simp add: bind_tr_def ret_def fail_def split: option.split)
qed

lemma resume_at:
  assumes "tracer_inv c" and "at lc base T c" and "t \<in> T"
  shows "\<exists>r c'. (if listen then listen_tracee t else resume_tracee t sig) c = Some (r, c') \<and>
    tracer_inv c' \<and> same_frame c c' \<and> at lc base T c'"
proof -
  obtain tr where tr: "the_tracee t c = Some (Inr tr, c)"
    by (rule safeE [OF safe_the_tracee [OF assms(3)] assms(1,2)]) (auto simp: the_tracee_def split: option.splits)
  show ?thesis
    using ask_at [OF assms(1,2)] tr
    by (simp add: listen_tracee_def resume_tracee_def bind_tr_def [of "the_tracee t"] bind_tr_def [of "reading _"] reading_def Let_def)
qed

lemma safe_still_there:
  assumes "\<And>c. tracer_inv c \<Longrightarrow> at lc base T c \<Longrightarrow>
    \<exists>r c'. m c = Some (r, c') \<and> tracer_inv c' \<and> same_frame c c' \<and> at lc base T c'"
  shows "keeps lc base T (still_there m)"
proof (rule safeI)
  fix c assume c: "tracer_inv c" "at lc base T c"
  obtain r c' where "m c = Some (r, c')" "tracer_inv c'" "same_frame c c'" "at lc base T c'"
    using assms [OF c] by blast
  then show "\<exists>r c'. still_there m c = Some (r, c') \<and> tracer_inv c' \<and> same_frame c c' \<and>
      (\<forall>x. r = Inr x \<longrightarrow> still lc base T (\<lambda>_. True) x c')"
    by (auto simp: still_there_def still_def split: sum.split trace_error.split)
qed

lemma safe_go_on: "keeps lc base {} (go_on t listen sig)"
proof -
  have step: "keeps lc base {t} (bind_tr (still_there (if listen then listen_tracee t else resume_tracee t sig)) (\<lambda>there.
         if \<not> there then ret False
         else seq_tr (set_tracee t (\<lambda>tr. tr\<lparr>in_ptrace_stop := False, pending_signal := 0,
                        phase := (if listen then phase tr else SG_TRACEE_RUNNING)\<rparr>))
                (ret True)))"
    by (rule safe_bind [OF safe_still_there [OF resume_at]]) (auto intro!: safe_rules simp: tracee_shape)
  show ?thesis
    unfolding go_on_def using step
    by (auto intro!: safe_bind_find safe_ret intro: safe_weaken simp: still_def at_def)
qed

lemma safe_handle_stop:
  assumes "libc_ok lc" "libc_plain lc"
  shows "safe lc base {t} (handle_stop lc t s) (still lc base {} (\<lambda>_. True))"
proof -
  have "safe lc base {t} (bind_tr (dispatch_stop lc t s) (\<lambda>(listen, sig). go_on t listen sig)) (still lc base {} (\<lambda>_. True))"
    by (rule safe_bind [OF safe_dispatch_stop [OF assms]])
      (auto intro!: safe_pre [OF safe_go_on] split: prod.split)
  then show ?thesis unfolding handle_stop_def by (auto intro!: safe_seq safe_set_tracee simp: tracee_shape)
qed

lemma safe_handle_status:
  assumes "libc_ok lc" "libc_plain lc" "pid_ok waited"
  shows "keeps lc base {} (handle_status lc waited s)"
proof -
  have drop: "safe lc base {waited} m (still lc base {} (\<lambda>_. True))" if "keeps lc base {waited} m" for m :: "bool tr"
    by (rule safe_weaken [OF that]) (auto simp: still_def at_def)
  have gone: "safe lc base {waited} (seq_tr (handle_exit lc waited s) (ret False)) (still lc base {} (\<lambda>_. True))"
    unfolding seq_tr_def
    by (rule safe_bind_at [OF safe_handle_exit [OF assms(1,2)], where U = "\<lambda>_. {}" and q = "\<lambda>_. True"])
      (auto simp: still_def intro!: safe_ret)
  have body: "safe lc base (if found then {waited} else {}) (if \<not> found then ret False
        else if WIFCONTINUED s
        then seq_tr (set_tracee waited (\<lambda>tr. tr\<lparr>phase := SG_TRACEE_RUNNING, in_ptrace_stop := False\<rparr>)) (ret False)
        else if WIFEXITED s \<or> WIFSIGNALED s then seq_tr (handle_exit lc waited s) (ret False)
        else if \<not> WIFSTOPPED s then ret False
        else handle_stop lc waited s) (still lc base {} (\<lambda>_. True))" for found
    using gone safe_handle_stop [OF assms(1,2)]
    by (auto intro!: drop safe_seq safe_set_tracee safe_ret simp: tracee_shape)
  show ?thesis
    unfolding handle_status_def
    by (rule safe_seq [OF safe_former_tid [OF assms(3)]],
        rule safe_bind_at [OF safe_locate_tracee [OF assms(3)],
          where U = "\<lambda>found. if found then {waited} else {}" and q = "\<lambda>_. True"]) (simp, rule body)
qed

section \<open>The loop\<close>

lemma reader_ok_memory: "memory_ok readv \<Longrightarrow> reader_ok (d\<lparr>memory_read := Some (read_tracee_memory readv)\<rparr>)"
  by (auto simp: memory_ok_def reader_ok_def read_tracee_memory_def split: if_splits)

lemma waitpid_step:
  assumes "tracer_inv c" and "at lc base {} c"
  obtains r c' where "waitpid c = Some (Inr r, c')" and "tracer_inv c'" and "at lc base {} c'"
    and "ctx_config c' = ctx_config c" and "return_ok r" and "ctx_tracees c' = ctx_tracees c"
    and "wait_answers (ctx_world c) = [] \<and> r = no_return \<or>
      wait_answers (ctx_world c) = r # wait_answers (ctx_world c')"
proof -
  obtain r rest where n: "next_answer no_return (wait_answers (ctx_world c)) = (r, rest)" by fastforce
  have w: "world_ok (ctx_world c)" using assms(1) by (simp add: tracer_inv_def)
  have r: "return_ok r"
    using next_answer_set [OF n] w by (auto simp: world_ok_def return_ok_def no_return_def memory_ok_def)
  define c1 where "c1 = c\<lparr>ctx_world := (ctx_world c)\<lparr>wait_answers := rest\<rparr>\<rparr>"
  define c' where "c' = receive_signal (signal_before r) (install_memory (process_vm_readv r) c1)"
  have w': "world_ok ((ctx_world c)\<lparr>wait_answers := rest\<rparr>)"
    using w next_answer_set [OF n] by (auto simp: world_ok_def)
  have rd: "reader_ok ((ctx_decoder c)\<lparr>memory_read := Some (read_tracee_memory (process_vm_readv r))\<rparr>)"
    using r by (intro reader_ok_memory) (simp add: return_ok_def)
  have "waitpid c = Some (Inr r, c')" using n by (simp add: waitpid_def Let_def c'_def c1_def)
  moreover have "tracer_inv c'"
    using assms(1) w' rd
    by (simp add: c'_def c1_def receive_signal_def install_memory_def Let_def tracer_inv_def output_wf_def)
  moreover have "at lc base {} c'"
    using assms(2)
    by (simp add: c'_def c1_def receive_signal_def install_memory_def Let_def at_def synced_def unfinished_def split: if_splits)
  moreover have "ctx_config c' = ctx_config c" "ctx_tracees c' = ctx_tracees c" "wait_answers (ctx_world c') = rest"
    by (simp_all add: c'_def c1_def receive_signal_def install_memory_def Let_def)
  ultimately show ?thesis using that r n by (auto simp: next_answer_def split: list.splits)
qed

lemma safe_shutdown [safe_rules]: "keeps lc base T (reading shutdown_status)"
  by (rule safe_reading)

lemma safe_receive [safe_rules]: "keeps lc base T (updating (receive_signal sig))"
  by (rule safe_updating) (simp_all add: receive_signal_def tracer_inv_def at_def synced_def split: if_splits)

lemma safe_return:
  assumes "libc_ok lc" "libc_plain lc" "return_ok r"
  shows "keeps lc base {} (case waited_for r of
         Inl errno \<Rightarrow> if errno = EINTR then reading shutdown_status else fail (Tr_Wait errno)
       | Inr (waited, s) \<Rightarrow>
           bind_tr (handle_status lc waited s) (\<lambda>at_end.
           seq_tr (updating (receive_signal (signal_after r)))
             (if at_end then reading shutdown_status else ret None)))"
proof (cases "waited_for r")
  case (Inr a)
  then have p: "pid_ok (fst a)" using assms(3) by (cases a) (auto simp: return_ok_def)
  show ?thesis
    using Inr by (cases a) (use p in \<open>auto intro!: safe_bind [OF safe_handle_status [OF assms(1,2)]] safe_rules\<close>)
qed (auto intro!: safe_rules)

text \<open>One turn of the loop uses up one return, or finds none left and fails.\<close>

lemma loop_step_safe:
  assumes "libc_ok lc" "libc_plain lc" and "tracer_inv c" "at lc base {} c"
  shows "\<exists>r c'. loop_step lc c = Some (r, c') \<and> tracer_inv c' \<and> ctx_config c' = ctx_config c \<and>
    (\<forall>x. r = Inr x \<longrightarrow> at lc base {} c' \<and> length (wait_answers (ctx_world c')) < length (wait_answers (ctx_world c)))"
proof -
  obtain r c1 where w: "waitpid c = Some (Inr r, c1)" "tracer_inv c1" "at lc base {} c1" "ctx_config c1 = ctx_config c"
      "return_ok r" "wait_answers (ctx_world c) = [] \<and> r = no_return \<or>
        wait_answers (ctx_world c) = r # wait_answers (ctx_world c1)"
    by (rule waitpid_step [OF assms(3,4)]) blast
  obtain r2 c2 where b: "loop_step lc c = Some (r2, c2)" "tracer_inv c2" "same_frame c1 c2"
      "\<And>x. r2 = Inr x \<Longrightarrow> still lc base {} (\<lambda>_. True) x c2"
    by (rule safeE [OF safe_return [OF assms(1,2) w(5)] w(2,3)]) (use w(1) in \<open>simp add: loop_step_def bind_tr_def [of waitpid]\<close>)
  show ?thesis
  proof (cases "r = no_return \<and> wait_answers (ctx_world c) = []")
    case True
    then have "r2 = Inl (Tr_Wait ECHILD)"
      using b(1) w(1) by (simp add: loop_step_def bind_tr_def no_return_def fail_def ECHILD_def EINTR_def)
    then show ?thesis using b(1-3) w(4) by simp
  next
    case False
    then show ?thesis using b w(4,6) by (auto simp: still_def)
  qed
qed

lemma loop_from_safe:
  assumes "libc_ok lc" "libc_plain lc"
  shows "tracer_inv c \<Longrightarrow> at lc base {} c \<Longrightarrow> length (wait_answers (ctx_world c)) < n \<Longrightarrow>
    \<exists>r c'. loop_from lc n c = Some (r, c') \<and> tracer_inv c' \<and> ctx_config c' = ctx_config c \<and>
      (\<forall>x. r = Inr x \<longrightarrow> at lc base {} c')"
proof (induction n arbitrary: c)
  case (Suc n)
  show ?case
  proof (cases "entries (ctx_tracees c) = 0")
    case True
    then show ?thesis using Suc.prems by simp
  next
    case False
    obtain r c1 where s: "loop_step lc c = Some (r, c1)" "tracer_inv c1" "ctx_config c1 = ctx_config c"
        "\<forall>x. r = Inr x \<longrightarrow> at lc base {} c1 \<and> length (wait_answers (ctx_world c1)) < length (wait_answers (ctx_world c))"
      using loop_step_safe [OF assms Suc.prems(1,2)] by blast
    have run: "loop_from lc (Suc n) c = (case r of Inl e \<Rightarrow> Some (Inl e, c1)
        | Inr (Some x) \<Rightarrow> Some (Inr x, c1) | Inr None \<Rightarrow> loop_from lc n c1)"
      using False s(1) by (simp add: bind_tr_def ret_def split: sum.split option.split)
    show ?thesis
      unfolding run using s(2-4) Suc.IH [of c1] Suc.prems(3) by (auto split: sum.split option.split)
  qed
qed simp

lemma safe_start_root: "keeps lc base {} start_root"
proof -
  have "safe lc base {root} (seq_tr (resume_tracee root 0) (set_tracee root (\<lambda>tr. tr\<lparr>in_ptrace_stop := False\<rparr>)))
      (still lc base {} (\<lambda>_. True))" for root
    by (rule safe_weaken [where G = "still lc base {root} (\<lambda>_. True)"])
      (auto intro!: safe_rules simp: tracee_shape still_def at_def)
  then show ?thesis
    unfolding start_root_def by (auto intro!: safe_rules split: option.split)
qed

lemma trace_loop_safe:
  assumes "libc_ok lc" "libc_plain lc" and "tracer_inv c" "synced lc base c"
  shows "\<exists>r c'. trace_loop lc c = Some (r, c') \<and> tracer_inv c' \<and> ctx_config c' = ctx_config c \<and>
    (\<forall>s. r = Inr s \<longrightarrow> synced lc base c')"
proof -
  have a: "at lc base {} c" using assms(4) by (simp add: at_def)
  obtain r c1 where s: "start_root c = Some (r, c1)" "tracer_inv c1" "same_frame c c1"
      "\<And>x. r = Inr x \<Longrightarrow> still lc base {} (\<lambda>_. True) x c1"
    by (rule safeE [OF safe_start_root assms(3) a]) blast
  show ?thesis
  proof (cases r)
    case (Inl e)
    then show ?thesis using s(1-3) by (simp add: trace_loop_def seq_tr_def bind_tr_def)
  next
    case (Inr x)
    then have "at lc base {} c1" using s(4) by (simp add: still_def)
    then obtain r2 c2 where "loop_from lc (Suc (length (wait_answers (ctx_world c1)))) c1 = Some (r2, c2)"
        "tracer_inv c2" "ctx_config c2 = ctx_config c1" "\<forall>x. r2 = Inr x \<longrightarrow> at lc base {} c2"
      using loop_from_safe [OF assms(1,2) s(2)] by blast
    then show ?thesis
      using s(1,3) Inr
      by (auto simp: trace_loop_def seq_tr_def bind_tr_def reading_def at_def simp del: loop_from.simps)
  qed
qed

section \<open>What a transcript is\<close>

text \<open>In NDJSON format: one line for each event that is not an unfinished call, in their order.\<close>

lemma transcript_json:
  assumes "transcript lc fm tids base evs S s" and "fm \<noteq> SG_FORMAT_TEXT"
  shows "\<exists>ls. s = base @ concat (map (\<lambda>l. l @ [CHR 0x0A]) ls) \<and>
    list_all2 (json_line lc) (filter (\<lambda>ev. \<not> is_unfinished_syscall ev) evs) ls"
  using assms
proof (induction rule: transcript.induct)
  case start
  then show ?case by (intro exI [of _ "[]"]) simp
next
  case (json evs S s ev l)
  then obtain ls where "s = base @ concat (map (\<lambda>l. l @ [CHR 0x0A]) ls)"
      "list_all2 (json_line lc) (filter (\<lambda>ev. \<not> is_unfinished_syscall ev) evs) ls"
    by blast
  then show ?case
    using json.hyps by (intro exI [of _ "ls @ [l]"]) (simp add: list_all2_appendI)
qed auto

lemma json_line_read:
  "json_line lc ev l \<Longrightarrow> \<exists>line ns. read_json l = Some (event_json lc line ns ev, []) \<and> no_control l"
  unfolding json_line_def using read_json_text no_control_json by blast

section \<open>An example\<close>

text \<open>The start of a run that has launched thread 41, with answers for a system call and its exit.\<close>

definition demo_returns :: "wait_return list" where
  "demo_returns = map (\<lambda>s. \<lparr>signal_before = 0, signal_after = 0, process_vm_readv = (\<lambda>_ _ _. None),
     waited_for = Inr (41, s)\<rparr>) [0x857f, 0x857f, 0x0300]"

definition demo_info :: "nat \<Rightarrow> ptrace_syscall_info" where
  "demo_info op = \<lparr>info_op = op, info_arch = AUDIT_ARCH_X86_64, info_nr = 39, info_args = replicate 6 0,
     info_rval = 41, info_is_error = 0\<rparr>"

definition demo_world :: world where
  "demo_world = \<lparr>w_heap = [], clock_answers = replicate 3 (Some zero_timespec),
     info_answers = [Inr (80, demo_info PTRACE_SYSCALL_INFO_ENTRY), Inr (33, demo_info PTRACE_SYSCALL_INFO_EXIT)],
     message_answers = [], siginfo_answers = [], control_answers = replicate 3 None, status_files = [],
     wait_answers = demo_returns, task_listings = [], requests = [], emitted = [], ptrace_call_count = 0\<rparr>"

definition demo_context :: "sg_output_format \<Rightarrow> sg_tracee_table \<Rightarrow> trace_context" where
  "demo_context fm tb =
     (let d = \<lparr>dec_string_limit = 32, memory_read = None\<rparr>
      in \<lparr>ctx_config = config_init\<lparr>cfg_format := fm\<rparr>, ctx_tracees = tb, ctx_decoder = d,
          ctx_output = \<lparr>out_stream = \<lparr>written = [], answers = []\<rparr>, out_decoder = d, out_format = fm,
            unfinished_tids = [], unfinished_count = 0, unfinished_capacity = 0, show_tids = False, out_summary = False\<rparr>,
          ctx_stats = sg_stats_init, root_tid = 41, root_status = 0, root_status_known = False,
          root_exec_observed = False, ctx_show_tids = False, event_count = 0, shutdown_signal = 0,
          ctx_world = demo_world\<rparr>)"

lemma demo_context_inv:
  assumes "table_wf tb" and "table_map tb = [41 \<mapsto> fresh_tracee 41 40 att]"
  shows "tracer_inv (demo_context fm tb) \<and> synced lc [] (demo_context fm tb)"
proof -
  have "tracee_ok (fresh_tracee 41 40 att)"
    by (simp add: fresh_tracee_def zero_tracee_def tracee_ok_def pid_ok_def)
  then have "tracees_ok tb" using assms by (simp add: tracees_ok_def)
  moreover have "world_ok demo_world"
    by (auto simp: world_ok_def demo_world_def demo_returns_def demo_info_def time_ok_def zero_timespec_def
        info_ok_def in_long_def return_ok_def memory_ok_def pid_ok_def)
  moreover have "stats_ok sg_stats_init" by (simp add: stats_ok_def sg_stats_init_def stats_wf_def)
  ultimately have "tracer_inv (demo_context fm tb)"
    by (simp add: demo_context_def tracer_inv_def output_wf_def reader_ok_def config_init_def several_tracees_def Let_def)
  then show ?thesis
    using transcript.start [of lc fm False "[]"]
    by (simp add: demo_context_def synced_def unfinished_def demo_world_def Let_def)
qed

lemma libc_plain_no_libc: "libc_plain no_libc"
  by (simp add: libc_plain_def no_libc_def)

end
