(* ===== verification/Trace_Calls.thy ===== *)
theory Trace_Calls
  imports Trace_Safety
begin

text \<open>
  The tracer as a state machine for each thread. The abstract state of a thread is the call it is
  inside of and the call a signal has interrupted; \<open>call_step\<close> says how a syscall-entry and a
  syscall-exit stop change it and which finished calls they report. \<open>handle_syscall_stop\<close> is
  proved to take such a step and to leave every other thread alone.

  \<open>runs m c x c'\<close> says that an operation succeeds with a value and a context; its equations take
  a composite operation apart.
\<close>

section \<open>The machine\<close>

datatype call_stop = Entry int "u64 list" | Exit int int

record call_state =
  inside :: "sg_syscall_event option"
  halted :: "(sg_syscall_event \<times> bool) option"

definition call_state :: "sg_tracee \<Rightarrow> call_state" where
  "call_state tr =
     \<lparr>inside = (if has_pending_syscall tr then Some (pending_syscall tr) else None),
      halted = (if has_interrupted_syscall tr then Some (interrupted_syscall tr, interrupted_restart_ready tr) else None)\<rparr>"

text \<open>A call as reported: the entered call with its outcome, completed, at some time.\<close>

definition outcome :: "sg_syscall_event \<Rightarrow> int \<Rightarrow> int \<Rightarrow> sg_syscall_event \<Rightarrow> bool" where
  "outcome e result error e' \<longleftrightarrow>
     (\<exists>now. e' = e\<lparr>ev_result := result, ev_error_number := error, ev_exited_at := now, ev_completed := True\<rparr>)"

text \<open>A call as entered, with its arguments and nothing else but the time and the saved texts.\<close>

definition entered :: "int \<Rightarrow> u64 list \<Rightarrow> sg_syscall_event \<Rightarrow> bool" where
  "entered number xs e \<longleftrightarrow> ev_number e = number \<and> ev_arguments e = xs \<and> \<not> ev_completed e"

text \<open>What the exit of call \<open>number\<close> means for a halted call.\<close>

definition after_exit :: "int \<Rightarrow> (sg_syscall_event \<times> bool) option \<Rightarrow> (sg_syscall_event \<times> bool) option" where
  "after_exit number h =
     (case h of
        None \<Rightarrow> None
      | Some (e, ready) \<Rightarrow>
          if number = SYS_rt_sigreturn then Some (e, True)
          else if \<not> ready \<and> number = ev_number e then None
          else Some (e, ready))"

inductive call_step :: "call_state \<Rightarrow> call_stop \<Rightarrow> sg_syscall_event list \<Rightarrow> call_state \<Rightarrow> bool" where
  enter: "call_step s (Entry n xs) [] (s\<lparr>inside := Some e\<rparr>)"
    if "inside s = None" and "\<And>h. halted s \<noteq> Some (h, True)" and "entered n xs e"
| restart: "call_step s (Entry n xs) [] \<lparr>inside = Some h, halted = None\<rparr>"
    if "inside s = None" and "halted s = Some (h, True)" and "n = ev_number h \<or> n = SYS_restart_syscall"
| interrupted: "call_step s (Entry n xs) [h'] \<lparr>inside = Some e, halted = None\<rparr>"
    if "inside s = None" and "halted s = Some (h, True)" and "n \<noteq> ev_number h" and "n \<noteq> SYS_restart_syscall"
      and "outcome h (- 1) EINTR h'" and "entered n xs e"
| exec_done: "call_step s (Entry n xs) (p' # es) s'"
    if "inside s = Some p" and "is_exec (ev_number p)" and "outcome p 0 0 p'"
      and "call_step (s\<lparr>inside := None\<rparr>) (Entry n xs) es s'"
| stray: "call_step s (Exit r err) [] s" if "inside s = None"
| halt: "call_step s (Exit r err) [] \<lparr>inside = None, halted = Some (p, False)\<rparr>"
    if "inside s = Some p" and "is_restart_result r"
| leave: "call_step s (Exit r err) [p'] \<lparr>inside = None, halted = after_exit (ev_number p) (halted s)\<rparr>"
    if "inside s = Some p" and "\<not> is_restart_result r" and "outcome p r err p'"

inductive_cases call_step_ExitE: "call_step s (Exit r err) es s'"
inductive_cases call_step_EntryE: "call_step s (Entry n xs) es s'"

section \<open>Successful runs\<close>

definition runs :: "'a tr \<Rightarrow> trace_context \<Rightarrow> 'a \<Rightarrow> trace_context \<Rightarrow> bool" where
  "runs m c x c' \<longleftrightarrow> m c = Some (Inr x, c')"

lemma runs_ret [simp]: "runs (ret x) c y c' \<longleftrightarrow> y = x \<and> c' = c"
  by (auto simp: runs_def ret_def)

lemma runs_fail [simp]: "\<not> runs (fail e) c y c'"
  by (simp add: runs_def fail_def)

lemma runs_bind [simp]: "runs (bind_tr m f) c y c' \<longleftrightarrow> (\<exists>x c1. runs m c x c1 \<and> runs (f x) c1 y c')"
  by (simp add: runs_def bind_tr_def split: option.split sum.split)

lemma runs_seq [simp]: "runs (seq_tr m n) c y c' \<longleftrightarrow> (\<exists>c1. runs m c () c1 \<and> runs n c1 y c')"
  by (simp add: seq_tr_def)

lemma runs_reading [simp]: "runs (reading f) c y c' \<longleftrightarrow> y = f c \<and> c' = c"
  by (auto simp: runs_def reading_def)

lemma runs_bind_reading [simp]: "runs (bind_tr (reading g) f) c y c' \<longleftrightarrow> runs (f (g c)) c y c'"
  by simp

lemma runs_updating [simp]: "runs (updating f) c y c' \<longleftrightarrow> c' = f c"
  by (auto simp: runs_def updating_def)

lemma runs_if: "runs (if b then m else n) c y c' \<longleftrightarrow> (if b then runs m c y c' else runs n c y c')"
  by simp

text \<open>
  The part of the context the machine speaks of: the tracees and the calls reported as
  completed, with the thread they belong to.
\<close>

definition call_of :: "sg_event \<Rightarrow> (int \<times> sg_syscall_event) option" where
  "call_of ev = (case event_data ev of
     SG_EVENT_SYSCALL e \<Rightarrow> if ev_completed e then Some (event_tid ev, e) else None | _ \<Rightarrow> None)"

definition reports :: "trace_context \<Rightarrow> (int \<times> sg_syscall_event) list" where
  "reports c = List.map_filter call_of (emitted (ctx_world c))"

text \<open>\<open>alters c c' m rs\<close>: the tracees become \<open>m\<close>, \<open>rs\<close> is reported, the rest of the view stays.\<close>

definition alters ::
    "trace_context \<Rightarrow> trace_context \<Rightarrow> (int \<Rightarrow> sg_tracee option) \<Rightarrow> (int \<times> sg_syscall_event) list \<Rightarrow> bool" where
  "alters c c' m rs \<longleftrightarrow> ctx_config c' = ctx_config c \<and> table_wf (ctx_tracees c') \<and>
     tracee_map c' = m \<and> reports c' = reports c @ rs \<and>
     info_answers (ctx_world c') = info_answers (ctx_world c)"

lemma alters_trans:
  "alters c c1 m1 rs \<Longrightarrow> alters c1 c2 m2 rs' \<Longrightarrow> alters c c2 m2 (rs @ rs')"
  by (simp add: alters_def)

lemma alters_refl: "table_wf (ctx_tracees c) \<Longrightarrow> alters c c (tracee_map c) []"
  by (simp add: alters_def)

lemma alters_world:
  "table_wf (ctx_tracees c) \<Longrightarrow> emitted w = emitted (ctx_world c) \<Longrightarrow>
     info_answers w = info_answers (ctx_world c) \<Longrightarrow> alters c (c\<lparr>ctx_world := w\<rparr>) (tracee_map c) []"
  by (simp add: alters_def reports_def)

lemma runs_the_tracee:
  "table_wf (ctx_tracees c) \<Longrightarrow> runs (the_tracee t) c tr c' \<longleftrightarrow> tracee_map c t = Some tr \<and> c' = c"
  by (auto simp: runs_def the_tracee_def table_get_correct split: option.splits)

lemma runs_bind_tracee:
  "table_wf (ctx_tracees c) \<Longrightarrow> tracee_map c t = Some tr \<Longrightarrow>
     runs (bind_tr (the_tracee t) f) c y c' \<longleftrightarrow> runs (f tr) c y c'"
  by (auto simp: runs_the_tracee)

lemma runs_set_tracee:
  assumes wf: "table_wf (ctx_tracees c)" and tr: "tracee_map c t = Some tr" and "tid (f tr) = t"
    and run: "runs (set_tracee t f) c () c'"
  shows "alters c c' ((tracee_map c)(t \<mapsto> f tr)) []"
  using tracee_store_correct [OF wf tr, of f] assms(3) run
  by (auto simp: runs_def set_tracee_def alters_def reports_def)

lemma runs_clock:
  assumes "table_wf (ctx_tracees c)" and "runs clock_gettime c now c'"
  shows "alters c c' (tracee_map c) []"
  using assms by (auto simp: runs_def clock_gettime_def Let_def alters_def reports_def split: prod.splits option.splits)

lemma runs_emit:
  assumes "table_wf (ctx_tracees c)" and "runs (emit_event lc ev) c x c'"
  shows "alters c c' (tracee_map c) (List.map_filter call_of [ev])"
  using assms by (auto simp: runs_def emit_event_def Let_def alters_def reports_def map_filter_def split: option.splits prod.splits)

lemma runs_flush_slots:
  "table_wf (ctx_tracees c) \<Longrightarrow> runs (flush_slots lc except ss) c x c' \<Longrightarrow> alters c c' (tracee_map c) []"
proof (induction ss arbitrary: c)
  case Nil
  then show ?case by (simp add: alters_refl)
next
  case (Cons s ss)
  show ?case
  proof (cases "slot_state s \<noteq> SG_TRACEE_SLOT_OCCUPIED \<or> tid (slot_tracee s) = except \<or>
      (\<forall>e. open_call (slot_tracee s) = Some e \<longrightarrow> \<not> selected c (ev_number e))")
    case True
    then have "runs (flush_slots lc except ss) c x c'"
      using Cons.prems(2) by (auto simp: Let_def split: if_splits option.splits)
    then show ?thesis using Cons by blast
  next
    case False
    then obtain e c1 where c1: "runs (emit_event lc (unfinished_event (slot_tracee s) e)) c () c1"
        "runs (flush_slots lc except ss) c1 x c'"
      using Cons.prems(2) by (auto simp: Let_def split: if_splits)
    have "alters c c1 (tracee_map c) []"
      using runs_emit [OF Cons.prems(1) c1(1)]
      by (simp add: map_filter_def call_of_def unfinished_event_def)
    then show ?thesis
      using Cons.IH [of c1] c1(2) alters_trans [of c c1 "tracee_map c" "[]" c'] by (simp add: alters_def)
  qed
qed

lemma runs_flush:
  assumes "table_wf (ctx_tracees c)" and "runs (flush_unfinished_syscalls lc except) c x c'"
  shows "alters c c' (tracee_map c) []"
  using assms runs_flush_slots by (auto simp: flush_unfinished_syscalls_def alters_refl split: if_splits)

definition reported :: "trace_context \<Rightarrow> int \<Rightarrow> sg_syscall_event list \<Rightarrow> (int \<times> sg_syscall_event) list" where
  "reported c t es = map (Pair t) (filter (\<lambda>e. selected c (ev_number e)) es)"

lemma reported_Cons: "reported c t [e] @ reported c t es = reported c t (e # es)"
  by (simp add: reported_def)

lemma runs_write_syscall:
  assumes wf: "table_wf (ctx_tracees c)" and tr: "tracee_map c t = Some tr" "tid tr = t"
    and sm: "\<not> summary (ctx_config c)" and e: "ev_completed e"
    and run: "runs (write_syscall lc t e) c x c'"
  shows "alters c c' (tracee_map c) (reported c t [e])"
proof (cases "selected c (ev_number e)")
  case False
  then show ?thesis using run wf by (auto simp: write_syscall_def reported_def alters_refl)
next
  case True
  let ?c = "c\<lparr>event_count := event_count c + 1\<rparr>"
  obtain c1 tr' where c1: "runs (flush_unfinished_syscalls lc t) ?c () c1" "runs (the_tracee t) c1 tr' c1"
      "runs (emit_event lc \<lparr>event_tid = tid tr', event_tgid = tgid tr', observed_at = ev_exited_at e,
         event_data = SG_EVENT_SYSCALL e\<rparr>) c1 x c'"
  proof -
    obtain c1 tr' c2 where "runs (flush_unfinished_syscalls lc t) ?c () c1" "runs (the_tracee t) c1 tr' c2"
      "runs (emit_event lc \<lparr>event_tid = tid tr', event_tgid = tgid tr', observed_at = ev_exited_at e,
         event_data = SG_EVENT_SYSCALL e\<rparr>) c2 x c'"
      using run True sm by (auto simp: write_syscall_def)
    moreover have "c2 = c1" using calculation(2) by (auto simp: runs_def the_tracee_def split: option.splits)
    ultimately show ?thesis using that by blast
  qed
  have f: "alters ?c c1 (tracee_map c) []" using runs_flush [OF _ c1(1)] wf by simp
  then have wf1: "table_wf (ctx_tracees c1)" and "tracee_map c1 = tracee_map c" by (simp_all add: alters_def)
  with runs_the_tracee [OF wf1] c1(2) tr have "tid tr' = t" by auto
  then have "alters c1 c' (tracee_map c1) (reported c t [e])"
    using runs_emit [OF wf1 c1(3)] e True by (simp add: map_filter_def call_of_def reported_def)
  with f show ?thesis by (simp add: alters_def reports_def)
qed

section \<open>Chains of steps\<close>

text \<open>The same facts for an operation at the end of a chain.\<close>

lemma then_set:
  assumes "alters c c1 m rs" and "m t = Some tr" and "tid (f tr) = t" and "runs (set_tracee t f) c1 () c2"
  shows "alters c c2 (m(t \<mapsto> f tr)) rs"
  using runs_set_tracee [of c1 t tr f c2] assms by (auto simp: alters_def)

lemma then_clock: "alters c c1 m rs \<Longrightarrow> runs clock_gettime c1 now c2 \<Longrightarrow> alters c c2 m rs"
  using runs_clock [of c1 now c2] by (auto simp: alters_def)

lemma then_flush: "alters c c1 m rs \<Longrightarrow> runs (flush_unfinished_syscalls lc x) c1 () c2 \<Longrightarrow> alters c c2 m rs"
  using runs_flush [of c1 lc x "()" c2] by (auto simp: alters_def)

lemma then_tracee: "alters c c1 m rs \<Longrightarrow> runs (the_tracee t) c1 tr c2 \<longleftrightarrow> m t = Some tr \<and> c2 = c1"
  using runs_the_tracee [of c1 t tr c2] by (auto simp: alters_def)

lemma then_write:
  assumes "alters c c1 m rs" and "m t = Some tr" and "tid tr = t" and "\<not> summary (ctx_config c)"
    and "ev_completed e" and "runs (write_syscall lc t e) c1 () c2"
  shows "alters c c2 m (rs @ reported c t [e])"
proof -
  have "reported c1 t [e] = reported c t [e]" using assms(1) by (simp add: alters_def reported_def selected_def)
  then show ?thesis
    using runs_write_syscall [of c1 t tr e lc "()" c2] assms by (auto simp: alters_def)
qed

text \<open>The shape that completing a pending and an interrupted call share.\<close>

lemma runs_report:
  assumes al: "alters c c0 m rs" and tr: "m t = Some tr" and sm: "\<not> summary (ctx_config c)"
    and ids: "tid (f tr) = t" "\<And>now. tid (g now (f tr)) = t" "\<And>now. tid (h (g now (f tr))) = t"
    and fin: "\<And>now. ev_completed (call (g now (f tr)))"
    and run: "runs (seq_tr (set_tracee t f) (bind_tr clock_gettime (\<lambda>now. seq_tr (set_tracee t (g now))
        (bind_tr (the_tracee t) (\<lambda>tr. seq_tr (write_syscall lc t (call tr)) (set_tracee t h)))))) c0 () c'"
  shows "\<exists>now. alters c c' (m(t \<mapsto> h (g now (f tr)))) (rs @ reported c t [call (g now (f tr))])"
proof -
  obtain c1 now c2 c3 tr' c4 c5 where r: "runs (set_tracee t f) c0 () c1" "runs clock_gettime c1 now c2"
      "runs (set_tracee t (g now)) c2 () c3" "runs (the_tracee t) c3 tr' c4"
      "runs (write_syscall lc t (call tr')) c4 () c5" "runs (set_tracee t h) c5 () c'"
    using run by auto
  have a2: "alters c c2 (m(t \<mapsto> f tr)) rs" using then_clock [OF then_set [where f = f, OF al tr ids(1) r(1)] r(2)] .
  have a3: "alters c c3 (m(t \<mapsto> g now (f tr))) rs" using then_set [where f = "g now", OF a2 _ _ r(3)] ids(2) by simp
  have t: "tr' = g now (f tr)" "c4 = c3" using then_tracee [OF a3] r(4) by auto
  have "alters c c5 (m(t \<mapsto> tr')) (rs @ reported c t [call tr'])"
    using then_write [OF a3 _ _ sm _ r(5) [unfolded t(2)], of tr'] ids(2) fin t(1) by simp
  from then_set [where f = h, OF this _ _ r(6)] show ?thesis using t(1) ids(3) by auto
qed

lemma outcomeI:
  "outcome e r n (e\<lparr>ev_result := r, ev_error_number := n, ev_completed := True, ev_exited_at := now\<rparr>)"
  unfolding outcome_def by (rule exI [of _ now]) simp

lemma runs_complete_pending:
  assumes al: "alters c c0 m rs" and tr: "m t = Some tr" "tid tr = t" and sm: "\<not> summary (ctx_config c)"
    and run: "runs (complete_pending lc t) c0 () c'"
  shows "\<exists>p. outcome (pending_syscall tr) 0 0 p \<and>
    alters c c' (m(t \<mapsto> tr\<lparr>pending_syscall := sg_decoder_release_event p, has_pending_syscall := False\<rparr>))
      (rs @ reported c t [p])"
  using runs_report [OF al tr(1) sm _ _ _ _ run [unfolded complete_pending_def]] tr(2)
    outcomeI [of "pending_syscall tr" "0" 0]
  by simp blast

lemma runs_complete_interrupted:
  assumes al: "alters c c0 m rs" and tr: "m t = Some tr" "tid tr = t" and sm: "\<not> summary (ctx_config c)"
    and run: "runs (complete_interrupted lc t) c0 () c'"
  shows "\<exists>p. outcome (interrupted_syscall tr) (- 1) EINTR p \<and>
    alters c c' (m(t \<mapsto> tr\<lparr>interrupted_syscall := sg_decoder_release_event p, has_interrupted_syscall := False,
        interrupted_restart_ready := False\<rparr>)) (rs @ reported c t [p])"
  using runs_report [OF al tr(1) sm _ _ _ _ run [unfolded complete_interrupted_def]] tr(2)
    outcomeI [of "interrupted_syscall tr" "- 1" EINTR]
  by simp blast

section \<open>Entry\<close>

lemma capture_from_fields:
  "capture_from lc d t desc i n h e = Some (ok, h', e') \<Longrightarrow>
     ev_number e' = ev_number e \<and> ev_arguments e' = ev_arguments e \<and> ev_completed e' = ev_completed e"
proof (induction n arbitrary: i h e)
  case (Suc n)
  from Suc.prems show ?case
    by (auto dest: Suc.IH simp: sg_decoder_release_event_def split: if_splits option.splits prod.splits)
qed simp

lemma then_capture:
  assumes "alters c c1 m rs" and "entered n xs e" and "runs (capture_entry lc t e) c1 e' c2"
  shows "alters c c2 m rs" and "entered n xs e'"
proof -
  obtain h where r: "sg_decoder_capture_entry lc (ctx_decoder c1) t (w_heap (ctx_world c1)) e = Some (True, h, e')"
      "c2 = c1\<lparr>ctx_world := (ctx_world c1)\<lparr>w_heap := h\<rparr>\<rparr>"
    using assms(3) by (auto simp: runs_def capture_entry_def split: option.splits if_splits)
  then show "entered n xs e'"
    using assms(2)
    by (auto simp: sg_decoder_capture_entry_def Let_def entered_def dest!: capture_from_fields split: option.splits)
  show "alters c c2 m rs" using assms(1) r(2) by (simp add: alters_def reports_def)
qed

lemma runs_begin_fresh:
  assumes al: "alters c c0 m rs" and tr: "m t = Some tr" "tid tr = t"
    and run: "runs (begin_fresh lc t n xs) c0 () c'"
  shows "\<exists>e. entered n xs e \<and>
    alters c c' (m(t \<mapsto> tr\<lparr>pending_syscall := e, has_pending_syscall := True, phase := SG_TRACEE_IN_SYSCALL\<rparr>)) rs"
proof -
  let ?f = "\<lambda>e tr. tr\<lparr>pending_syscall := e, has_pending_syscall := True, phase := SG_TRACEE_IN_SYSCALL\<rparr>"
  obtain sel sum where "(selected c0 n, summary (ctx_config c0)) = (sel, sum)" by simp
  with run obtain e c1 e' c2 c3 where
      e: "runs (if sel then bind_tr clock_gettime (\<lambda>now. ret ((fresh_event n xs)\<lparr>ev_entered_at := now\<rparr>))
              else ret (fresh_event n xs)) c0 e c1"
    and c2: "runs (if sel \<and> \<not> sum then capture_entry lc t e else ret e) c1 e' c2"
    and c3: "runs (if sel then flush_unfinished_syscalls lc t else ret ()) c2 () c3"
    and c': "runs (set_tracee t (?f e')) c3 () c'"
    by (auto simp: begin_fresh_def)
  have a1: "alters c c1 m rs" and e1: "entered n xs e"
    using e then_clock [OF al]
    by (auto simp: al entered_def fresh_event_def zero_syscall_event_def split: if_splits)
  have a2: "alters c c2 m rs" and e2: "entered n xs e'"
    using c2 then_capture [OF a1 e1] a1 e1 by (auto split: if_splits)
  have "alters c c3 m rs" using c3 then_flush [OF a2] a2 by (auto split: if_splits)
  from then_set [where f = "?f e'", OF this tr(1) _ c'] tr(2) e2 show ?thesis by auto
qed

text \<open>The step of an entry stop, for a thread outside of a call.\<close>

definition takes_step ::
    "trace_context \<Rightarrow> trace_context \<Rightarrow> int \<Rightarrow> (int \<Rightarrow> sg_tracee option) \<Rightarrow> (int \<times> sg_syscall_event) list \<Rightarrow>
     sg_tracee \<Rightarrow> call_stop \<Rightarrow> bool" where
  "takes_step c c' t m rs tr stop \<longleftrightarrow>
     (\<exists>es tr'. call_step (call_state tr) stop es (call_state tr') \<and> tid tr' = t \<and>
        alters c c' (m(t \<mapsto> tr')) (rs @ reported c t es))"

lemma takes_stepI:
  "alters c c' (m(t \<mapsto> tr')) (rs @ reported c t es) \<Longrightarrow> call_step (call_state tr) stop es s \<Longrightarrow>
     call_state tr' = s \<Longrightarrow> tid tr' = t \<Longrightarrow> takes_step c c' t m rs tr stop"
  unfolding takes_step_def by blast

lemma entry_outside:
  assumes al: "alters c c0 m rs" and tr: "m t = Some tr" "tid tr = t" "\<not> has_pending_syscall tr"
    and sm: "\<not> summary (ctx_config c)"
    and run: "runs (enter_syscall lc t n xs) c0 () c'"
  shows "takes_step c c' t m rs tr (Entry n xs)"
proof -
  have body: "runs (if restarts tr n
       then seq_tr (flush_unfinished_syscalls lc t) (set_tracee t restarted)
       else seq_tr (if has_interrupted_syscall tr \<and> interrupted_restart_ready tr
                    then complete_interrupted lc t else ret ())
              (begin_fresh lc t n xs)) c0 () c'"
    using run tr(1) by (auto simp: enter_syscall_def then_tracee [OF al] simp del: runs_seq)
  consider (restart) "restarts tr n" | (gave_up) "\<not> restarts tr n" "has_interrupted_syscall tr" "interrupted_restart_ready tr"
    | (fresh) "\<not> restarts tr n" "\<not> (has_interrupted_syscall tr \<and> interrupted_restart_ready tr)"
    by blast
  then show ?thesis
  proof cases
    case restart
    then obtain c1 where c1: "runs (flush_unfinished_syscalls lc t) c0 () c1" "runs (set_tracee t restarted) c1 () c'"
      using body by auto
    from then_set [where f = restarted, OF then_flush [OF al c1(1)] tr(1) _ c1(2)] tr(2)
    have "alters c c' (m(t \<mapsto> restarted tr)) (rs @ reported c t [])" by (simp add: reported_def restarted_def)
    moreover have "call_step (call_state tr) (Entry n xs) [] (call_state (restarted tr))"
      using call_step.restart [of "call_state tr" "interrupted_syscall tr" n xs] restart tr(3)
      by (simp add: call_state_def restarts_def restarted_def)
    ultimately show ?thesis by (rule takes_stepI) (simp_all add: tr(2) restarted_def)
  next
    case gave_up
    then obtain c1 where c1: "runs (complete_interrupted lc t) c0 () c1" "runs (begin_fresh lc t n xs) c1 () c'"
      using body by auto
    obtain p where p: "outcome (interrupted_syscall tr) (- 1) EINTR p"
        "alters c c1 (m(t \<mapsto> tr\<lparr>interrupted_syscall := sg_decoder_release_event p, has_interrupted_syscall := False,
        interrupted_restart_ready := False\<rparr>)) (rs @ reported c t [p])"
      using runs_complete_interrupted [OF al tr(1,2) sm c1(1)] by blast
    obtain e where e: "entered n xs e"
        "alters c c' (m(t \<mapsto> tr\<lparr>interrupted_syscall := sg_decoder_release_event p, has_interrupted_syscall := False,
        interrupted_restart_ready := False, pending_syscall := e, has_pending_syscall := True, phase := SG_TRACEE_IN_SYSCALL\<rparr>))
         (rs @ reported c t [p])"
      using runs_begin_fresh [OF p(2) _ _ c1(2)] tr(2) by auto
    have "call_step (call_state tr) (Entry n xs) [p] \<lparr>inside = Some e, halted = None\<rparr>"
      using call_step.interrupted [of "call_state tr" "interrupted_syscall tr" n p xs e] gave_up tr(3) p(1) e(1)
      by (simp add: call_state_def restarts_def)
    with e(2) show ?thesis by (rule takes_stepI) (simp_all add: tr(2) call_state_def)
  next
    case fresh
    then have "runs (begin_fresh lc t n xs) c0 () c'" using body by (auto split: if_splits)
    then obtain e where e: "entered n xs e" "alters c c' (m(t \<mapsto> tr\<lparr>pending_syscall := e, has_pending_syscall := True,
        phase := SG_TRACEE_IN_SYSCALL\<rparr>)) rs"
      using runs_begin_fresh [OF al tr(1,2)] by blast
    have "alters c c' (m(t \<mapsto> tr\<lparr>pending_syscall := e, has_pending_syscall := True,
        phase := SG_TRACEE_IN_SYSCALL\<rparr>)) (rs @ reported c t [])"
      using e(2) by (simp add: reported_def)
    moreover have "call_step (call_state tr) (Entry n xs) [] ((call_state tr)\<lparr>inside := Some e\<rparr>)"
      using call_step.enter [of "call_state tr" n xs e] fresh tr(3) e(1) by (auto simp: call_state_def)
    ultimately show ?thesis by (rule takes_stepI) (simp_all add: tr(2) call_state_def)
  qed
qed

lemma runs_begin_syscall:
  assumes wf: "table_wf (ctx_tracees c)" and tr: "tracee_map c t = Some tr" "tid tr = t"
    and sm: "\<not> summary (ctx_config c)" and run: "runs (begin_syscall lc t number xs) c () c'"
  shows "takes_step c c' t (tracee_map c) [] tr (Entry (int (unat number)) xs)"
proof -
  define n where "n = int (unat number)"
  obtain c1 where r1: "runs (end_pending lc t) c () c1" "runs (enter_syscall lc t n xs) c1 () c'"
    using run by (auto simp: begin_syscall_def n_def split: if_splits)
  note al = alters_refl [OF wf]
  show ?thesis
  proof (cases "has_pending_syscall tr")
    case False
    then have "c1 = c" using r1(1) tr(1) wf by (auto simp: end_pending_def runs_the_tracee)
    with r1(2) have "runs (enter_syscall lc t n xs) c () c'" by simp
    then show ?thesis using entry_outside [OF al tr False sm] by (simp add: n_def)
  next
    case True
    then have ex: "is_exec (ev_number (pending_syscall tr))" "runs (complete_pending lc t) c () c1"
      using r1(1) tr(1) wf by (auto simp: end_pending_def runs_the_tracee split: if_splits)
    obtain p where p: "outcome (pending_syscall tr) 0 0 p"
        "alters c c1 ((tracee_map c)(t \<mapsto> tr\<lparr>pending_syscall := sg_decoder_release_event p, has_pending_syscall := False\<rparr>))
          ([] @ reported c t [p])"
      using runs_complete_pending [OF al tr sm ex(2)] by blast
    let ?tr = "tr\<lparr>pending_syscall := sg_decoder_release_event p, has_pending_syscall := False\<rparr>"
    have "takes_step c c' t ((tracee_map c)(t \<mapsto> ?tr)) ([] @ reported c t [p]) ?tr (Entry n xs)"
      using entry_outside [OF p(2), of t ?tr lc n xs c'] tr(2) sm r1(2) by simp
    then obtain es tr' where s: "call_step (call_state ?tr) (Entry n xs) es (call_state tr')" "tid tr' = t"
        "alters c c' ((tracee_map c)(t \<mapsto> tr')) ([] @ reported c t (p # es))"
      by (auto simp: takes_step_def reported_Cons)
    have "call_state ?tr = (call_state tr)\<lparr>inside := None\<rparr>" by (simp add: call_state_def)
    with s(1) have "call_step (call_state tr) (Entry n xs) (p # es) (call_state tr')"
      using call_step.exec_done [OF _ ex(1) p(1)] True by (simp add: call_state_def)
    with s(3) show ?thesis unfolding n_def by (rule takes_stepI) (simp_all add: s(2))
  qed
qed

section \<open>Exit\<close>

lemma closed_tracee_state:
  "call_state (closed_tracee tr) =
     \<lparr>inside = None, halted = after_exit (ev_number (pending_syscall tr)) (halted (call_state tr))\<rparr>"
  "tid (closed_tracee tr) = tid tr"
  by (simp_all add: closed_tracee_def call_state_def after_exit_def Let_def)

lemma runs_finish_syscall:
  assumes wf: "table_wf (ctx_tracees c)" and tr: "tracee_map c t = Some tr" "tid tr = t"
    and sm: "\<not> summary (ctx_config c)" and run: "runs (finish_syscall lc t info) c () c'"
  shows "takes_step c c' t (tracee_map c) [] tr (Exit (info_rval info) (exit_error info))"
proof -
  note al = alters_refl [OF wf]
  consider (stray) "\<not> has_pending_syscall tr" | (halt) "has_pending_syscall tr" "is_restart_result (info_rval info)"
    | (leave) "has_pending_syscall tr" "\<not> is_restart_result (info_rval info)" by blast
  then show ?thesis
  proof cases
    case stray
    then have "runs (set_tracee t (\<lambda>tr. tr\<lparr>phase := SG_TRACEE_STOPPED\<rparr>)) c () c'"
      using run wf tr(1) by (auto simp: finish_syscall_def runs_the_tracee)
    from then_set [where f = "\<lambda>tr. tr\<lparr>phase := SG_TRACEE_STOPPED\<rparr>", OF al tr(1) _ this] tr(2)
    have "alters c c' ((tracee_map c)(t \<mapsto> tr\<lparr>phase := SG_TRACEE_STOPPED\<rparr>)) ([] @ reported c t [])"
      by (simp add: reported_def)
    then show ?thesis
      by (rule takes_stepI [OF _ call_step.stray]) (use stray tr(2) in \<open>simp_all add: call_state_def\<close>)
  next
    case halt
    let ?f = "\<lambda>tr. tr\<lparr>interrupted_syscall := pending_syscall tr, pending_syscall := zero_syscall_event,
              has_interrupted_syscall := True, interrupted_restart_ready := False,
              has_pending_syscall := False, phase := SG_TRACEE_STOPPED\<rparr>"
    have "runs (set_tracee t ?f) c () c'"
      using run wf tr(1) halt by (auto simp: finish_syscall_def runs_the_tracee)
    from then_set [where f = ?f, OF al tr(1) _ this] tr(2)
    have "alters c c' ((tracee_map c)(t \<mapsto> ?f tr)) ([] @ reported c t [])" by (simp add: reported_def)
    then show ?thesis
      by (rule takes_stepI [OF _ call_step.halt [of _ "pending_syscall tr"]])
        (use halt tr(2) in \<open>simp_all add: call_state_def\<close>)
  next
    case leave
    let ?f = "\<lambda>tr. tr\<lparr>pending_syscall := (pending_syscall tr)\<lparr>ev_result := info_rval info, ev_error_number := exit_error info\<rparr>\<rparr>"
    let ?g = "\<lambda>now tr. tr\<lparr>pending_syscall := (pending_syscall tr)\<lparr>ev_exited_at := now\<rparr>\<rparr>"
    let ?h = "\<lambda>tr. tr\<lparr>pending_syscall := (pending_syscall tr)\<lparr>ev_completed := True\<rparr>\<rparr>"
    let ?n = "ev_number (pending_syscall tr)"
    obtain c1 c2 c3 c4 tr' c5 where r: "runs (set_tracee t ?f) c () c1"
        "runs (if selected c1 ?n then bind_tr clock_gettime (\<lambda>now. set_tracee t (?g now)) else ret ()) c1 () c2"
        "runs (set_tracee t ?h) c2 () c3" "runs (the_tracee t) c3 tr' c4"
        "runs (write_syscall lc t (pending_syscall tr')) c4 () c5" "runs (set_tracee t closed_tracee) c5 () c'"
      using run wf tr(1) leave by (auto simp: finish_syscall_def runs_the_tracee)
    have a1: "alters c c1 ((tracee_map c)(t \<mapsto> ?f tr)) []"
      using then_set [where f = ?f, OF al tr(1) _ r(1)] tr(2) by simp
    have "\<exists>now. alters c c2 ((tracee_map c)(t \<mapsto> ?g now (?f tr))) []"
    proof (cases "selected c1 ?n")
      case True
      then obtain now c1' where k: "runs clock_gettime c1 now c1'" "runs (set_tracee t (?g now)) c1' () c2"
        using r(2) by auto
      from then_set [where f = "?g now", OF then_clock [OF a1 k(1)] _ _ k(2)] tr(2) show ?thesis by auto
    next
      case False
      then have "c2 = c1" using r(2) by simp
      with a1 show ?thesis by (intro exI [of _ "ev_exited_at (pending_syscall tr)"]) simp
    qed
    then obtain now where a2: "alters c c2 ((tracee_map c)(t \<mapsto> ?g now (?f tr))) []" by blast
    have a3: "alters c c3 ((tracee_map c)(t \<mapsto> ?h (?g now (?f tr)))) []"
      using then_set [where f = ?h, OF a2 _ _ r(3)] tr(2) by simp
    have t': "tr' = ?h (?g now (?f tr))" "c4 = c3" using then_tracee [OF a3] r(4) by auto
    let ?p = "pending_syscall tr'"
    have "alters c c5 ((tracee_map c)(t \<mapsto> tr')) ([] @ reported c t [?p])"
      using then_write [OF a3 _ _ sm _ r(5) [unfolded t'(2)], of tr'] tr(2) t'(1) by simp
    from then_set [where f = closed_tracee, OF this _ _ r(6)] tr(2) t'(1)
    have "alters c c' ((tracee_map c)(t \<mapsto> closed_tracee tr')) ([] @ reported c t [?p])"
      by (simp add: closed_tracee_state)
    moreover have "outcome (pending_syscall tr) (info_rval info) (exit_error info) ?p"
      unfolding outcome_def t'(1) by (rule exI [of _ now]) simp
    then have "call_step (call_state tr) (Exit (info_rval info) (exit_error info)) [?p]
        \<lparr>inside = None, halted = after_exit ?n (halted (call_state tr))\<rparr>"
      using leave by (intro call_step.leave) (simp_all add: call_state_def)
    moreover have "call_state (closed_tracee tr') = \<lparr>inside = None, halted = after_exit ?n (halted (call_state tr))\<rparr>"
      unfolding closed_tracee_state by (simp add: t'(1) call_state_def)
    ultimately show ?thesis by (rule takes_stepI) (simp add: closed_tracee_state t'(1) tr(2))
  qed
qed

section \<open>Stops\<close>

definition stop_of :: "ptrace_syscall_info \<Rightarrow> call_stop" where
  "stop_of info =
     (if info_op info = PTRACE_SYSCALL_INFO_ENTRY then Entry (int (unat (info_nr info))) (info_args info)
      else Exit (info_rval info) (exit_error info))"

lemma map_tid: "tracee_map c t = Some tr \<Longrightarrow> tid tr = t"
  by (auto simp: table_map_def slots_map_def find_Some_iff holds_tid_def)

definition asked_info :: "int \<Rightarrow> trace_context \<Rightarrow> (int + nat \<times> ptrace_syscall_info) list \<Rightarrow> trace_context" where
  "asked_info t c rest =
     (let w = ctx_world (log_request (PT_GET_SYSCALL_INFO t) c) in c\<lparr>ctx_world := w\<lparr>info_answers := rest\<rparr>\<rparr>)"

lemma runs_ptrace_info:
  "runs (ptrace_info t) c a c' \<longleftrightarrow>
     (a, info_answers (ctx_world c')) = next_answer (Inl EPERM) (info_answers (ctx_world c)) \<and>
     c' = asked_info t c (info_answers (ctx_world c'))"
  by (auto simp: runs_def ptrace_info_def Let_def asked_info_def split: prod.split)

text \<open>\<open>stopped c c' t tr info\<close>: the step of thread \<open>t\<close> at a stop that the kernel describes by \<open>info\<close>.\<close>

definition stopped ::
    "trace_context \<Rightarrow> trace_context \<Rightarrow> int \<Rightarrow> sg_tracee \<Rightarrow> call_stop \<Rightarrow> sg_syscall_event list \<Rightarrow> sg_tracee \<Rightarrow> bool" where
  "stopped c c' t tr stop es tr' \<longleftrightarrow>
     call_step (call_state tr) stop es (call_state tr') \<and> tracee_map c' = (tracee_map c)(t \<mapsto> tr') \<and>
     table_wf (ctx_tracees c') \<and> ctx_config c' = ctx_config c \<and> reports c' = reports c @ reported c t es"

lemma runs_syscall_stop:
  assumes wf: "table_wf (ctx_tracees c)" and tr: "tracee_map c t = Some tr"
    and sm: "\<not> summary (ctx_config c)" and run: "runs (handle_syscall_stop lc t) c () c'"
  shows "\<exists>len info es tr'. info_answers (ctx_world c) = Inr (len, info) # info_answers (ctx_world c') \<and>
    stopped c c' t tr (stop_of info) es tr'"
proof -
  obtain a c1 where a: "runs (ptrace_info t) c a c1" and
      body: "runs (case a of
         Inl errno \<Rightarrow> fail (Tr_Ptrace (PT_GET_SYSCALL_INFO t) errno)
       | Inr (len, info) \<Rightarrow>
           if len < 8 then fail Tr_Truncated_Info
           else if info_arch info \<noteq> AUDIT_ARCH_X86_64 then fail Tr_Foreign_Abi
           else if info_op info = PTRACE_SYSCALL_INFO_ENTRY
           then (if len < 80 then fail Tr_Truncated_Info
                 else begin_syscall lc t (info_nr info) (info_args info))
           else if info_op info = PTRACE_SYSCALL_INFO_EXIT
           then (if len < 33 then fail Tr_Truncated_Info else finish_syscall lc t info)
           else fail (Tr_Unexpected_Stop (info_op info))) c1 () c'"
    using run unfolding handle_syscall_stop_def runs_bind by blast
  obtain len info where "a = Inr (len, info)" using body by (cases a) auto
  with a body have c1: "runs (ptrace_info t) c (Inr (len, info)) c1"
      "runs (if info_op info = PTRACE_SYSCALL_INFO_ENTRY then begin_syscall lc t (info_nr info) (info_args info)
             else finish_syscall lc t info) c1 () c'"
    by (simp_all split: if_splits)
  have head: "info_answers (ctx_world c) = Inr (len, info) # info_answers (ctx_world c1)"
      "c1 = asked_info t c (info_answers (ctx_world c1))"
    using c1(1) by (auto simp: runs_ptrace_info next_answer_def split: list.splits)
  have c1': "table_wf (ctx_tracees c1)" "tracee_map c1 = tracee_map c" "ctx_config c1 = ctx_config c" "reports c1 = reports c"
    using wf by (subst head(2), simp add: asked_info_def Let_def reports_def)+
  have "takes_step c1 c' t (tracee_map c1) [] tr (stop_of info)"
    using c1(2) runs_begin_syscall [OF c1'(1), of t tr lc] runs_finish_syscall [OF c1'(1), of t tr lc] c1'(2,3) tr sm map_tid [OF tr]
    by (auto simp: stop_of_def split: if_splits)
  then show ?thesis
    using c1' head(1) by (auto simp: takes_step_def alters_def reported_def selected_def stopped_def)
qed

section \<open>Properties\<close>

text \<open>
  C3. Every syscall stop that the tracer handles without an error is a step of the machine of
  its thread: the kernel's answer says whether it is an entry or an exit, the call the thread is
  inside of and the interrupted call change as the machine says, the calls the step finishes are
  handed to the output exactly once each if the filter selects them, and no other thread changes.
\<close>

theorem syscall_stop_step:
  assumes "table_wf (ctx_tracees c)" and "tracee_map c t = Some tr" and "\<not> summary (ctx_config c)"
    and "handle_syscall_stop lc t c = Some (Inr (), c')"
  shows "\<exists>len info rest es tr'. info_answers (ctx_world c) = Inr (len, info) # rest \<and>
    call_step (call_state tr) (stop_of info) es (call_state tr') \<and>
    tracee_map c' = (tracee_map c)(t \<mapsto> tr') \<and> table_wf (ctx_tracees c') \<and>
    reports c' = reports c @ map (Pair t) (filter (\<lambda>e. selected c (ev_number e)) es)"
  using runs_syscall_stop [OF assms(1-3), of lc c'] assms(4)
  unfolding runs_def stopped_def reported_def by blast

text \<open>A filter that selects nothing, and stops that therefore always succeed.\<close>

definition quiet_context :: "sg_tracee_table \<Rightarrow> ptrace_syscall_info list \<Rightarrow> trace_context" where
  "quiet_context tb infos =
     (let c = demo_context SG_FORMAT_TEXT tb
      in c\<lparr>ctx_config := config_init\<lparr>cfg_filter := \<lparr>words = replicate SG_FILTER_WORDS 0, active = True\<rparr>\<rparr>,
           ctx_world := (ctx_world c)\<lparr>info_answers := map (\<lambda>i. Inr (80, i)) infos\<rparr>\<rparr>)"

definition quiet :: "trace_context \<Rightarrow> int \<Rightarrow> sg_tracee \<Rightarrow> bool" where
  "quiet c t tr \<longleftrightarrow> table_wf (ctx_tracees c) \<and> tracee_map c t = Some tr \<and> \<not> summary (ctx_config c) \<and>
     (\<forall>n. \<not> selected c n)"

lemma quiet_set:
  assumes "quiet c t tr" and "tid (f tr) = t"
  shows "\<exists>c'. runs (set_tracee t f) c () c' \<and> quiet c' t (f tr)"
proof -
  have wf: "table_wf (ctx_tracees c)" and tr: "tracee_map c t = Some tr" using assms(1) by (simp_all add: quiet_def)
  obtain c' where c': "runs (set_tracee t f) c () c'"
    using tracee_store_correct [OF wf tr, of f] assms(2) by (auto simp: runs_def set_tracee_def)
  with runs_set_tracee [OF wf tr assms(2) c'] assms(1) show ?thesis
    by (auto simp: quiet_def alters_def selected_def)
qed

lemma quiet_flush: "\<forall>n. \<not> selected c n \<Longrightarrow> runs (flush_unfinished_syscalls lc x) c () c"
proof -
  assume q: "\<forall>n. \<not> selected c n"
  have "runs (flush_slots lc x ss) c () c" for ss
    by (induction ss) (auto simp: Let_def q split: option.split)
  then show ?thesis by (simp add: flush_unfinished_syscalls_def)
qed

lemma quiet_begin:
  assumes q: "quiet c t tr" and "int (unat n) \<le> LONG_MAX" and "\<not> has_pending_syscall tr"
    and "restarts tr (int (unat n)) \<or> \<not> (has_interrupted_syscall tr \<and> interrupted_restart_ready tr)"
  shows "\<exists>c'. runs (begin_syscall lc t n xs) c () c'"
proof -
  have c: "table_wf (ctx_tracees c)" "tracee_map c t = Some tr" "\<forall>n. \<not> selected c n" "\<forall>n. selected c n = False"
    using q by (simp_all add: quiet_def)
  have t: "tid tr = t" using map_tid [OF c(2)] .
  let ?f = "\<lambda>tr. tr\<lparr>pending_syscall := fresh_event (int (unat n)) xs, has_pending_syscall := True, phase := SG_TRACEE_IN_SYSCALL\<rparr>"
  obtain c1 c2 where "runs (set_tracee t restarted) c () c1" "runs (set_tracee t ?f) c () c2"
    using quiet_set [OF q, of restarted] quiet_set [OF q, of ?f] t by (auto simp: restarted_def)
  then show ?thesis
    using assms(2-4) quiet_flush [OF c(3)] c(1,2,4)
    by (auto simp: begin_syscall_def end_pending_def enter_syscall_def begin_fresh_def runs_the_tracee)
qed

lemma quiet_finish:
  assumes q: "quiet c t tr"
  shows "\<exists>c'. runs (finish_syscall lc t info) c () c'"
proof -
  have c: "table_wf (ctx_tracees c)" "tracee_map c t = Some tr" using q by (simp_all add: quiet_def)
  have t: "tid tr = t" using map_tid [OF c(2)] .
  let ?s = "\<lambda>tr. tr\<lparr>phase := SG_TRACEE_STOPPED\<rparr>"
  let ?r = "\<lambda>tr. tr\<lparr>interrupted_syscall := pending_syscall tr, pending_syscall := zero_syscall_event,
              has_interrupted_syscall := True, interrupted_restart_ready := False,
              has_pending_syscall := False, phase := SG_TRACEE_STOPPED\<rparr>"
  let ?f = "\<lambda>tr. tr\<lparr>pending_syscall := (pending_syscall tr)\<lparr>ev_result := info_rval info, ev_error_number := exit_error info\<rparr>\<rparr>"
  let ?h = "\<lambda>tr. tr\<lparr>pending_syscall := (pending_syscall tr)\<lparr>ev_completed := True\<rparr>\<rparr>"
  obtain c1 c2 where stray: "runs (set_tracee t ?s) c () c1" and halt: "runs (set_tracee t ?r) c () c2"
    using quiet_set [OF q, of ?s] quiet_set [OF q, of ?r] t by auto
  obtain c3 where c3: "runs (set_tracee t ?f) c () c3" "quiet c3 t (?f tr)" using quiet_set [OF q, of ?f] t by auto
  obtain c4 where c4: "runs (set_tracee t ?h) c3 () c4" "quiet c4 t (?h (?f tr))" using quiet_set [OF c3(2), of ?h] t by auto
  obtain c5 where c5: "runs (set_tracee t closed_tracee) c4 () c5"
    using quiet_set [OF c4(2), of closed_tracee] t by (auto simp: closed_tracee_state)
  have "runs (the_tracee t) c4 (?h (?f tr)) c4" "runs (write_syscall lc t e) c4 () c4" "\<not> selected c3 n" for e n
    using c3(2) c4(2) by (auto simp: quiet_def runs_the_tracee write_syscall_def)
  with c3(1) c4(1) c5 have "runs (seq_tr (set_tracee t ?f) (bind_tr (reading (\<lambda>c. selected c (ev_number (pending_syscall tr)))) (\<lambda>sel.
         seq_tr (if sel then bind_tr clock_gettime (\<lambda>now.
                        set_tracee t (\<lambda>tr. tr\<lparr>pending_syscall := (pending_syscall tr)\<lparr>ev_exited_at := now\<rparr>\<rparr>))
                 else ret ())
         (seq_tr (set_tracee t ?h) (bind_tr (the_tracee t) (\<lambda>tr.
          seq_tr (write_syscall lc t (pending_syscall tr)) (set_tracee t closed_tracee))))))) c () c5"
    by auto blast
  then show ?thesis
    using stray halt unfolding finish_syscall_def runs_bind_tracee [OF c]
    by (cases "has_pending_syscall tr"; cases "is_restart_result (info_rval info)")
      (simp_all only: if_True if_False not_True_eq_False not_False_eq_True, blast+)
qed


lemma quiet_stop:
  assumes q: "quiet c t tr" and ans: "info_answers (ctx_world c) = Inr (80, info) # rest"
    and "info_arch info = AUDIT_ARCH_X86_64"
    and op: "info_op info = PTRACE_SYSCALL_INFO_ENTRY \<and> int (unat (info_nr info)) \<le> LONG_MAX \<and> \<not> has_pending_syscall tr \<and>
        (restarts tr (int (unat (info_nr info))) \<or> \<not> (has_interrupted_syscall tr \<and> interrupted_restart_ready tr)) \<or>
      info_op info = PTRACE_SYSCALL_INFO_EXIT"
  shows "\<exists>c'. runs (handle_syscall_stop lc t) c () c'"
proof -
  define c1 where "c1 = asked_info t c rest"
  have c1: "runs (ptrace_info t) c (Inr (80, info)) c1"
    by (simp add: runs_ptrace_info c1_def asked_info_def Let_def ans next_answer_def)
  have q1: "quiet c1 t tr" using q by (simp add: c1_def asked_info_def Let_def quiet_def selected_def)
  obtain c' where "runs (if info_op info = PTRACE_SYSCALL_INFO_ENTRY then begin_syscall lc t (info_nr info) (info_args info)
      else finish_syscall lc t info) c1 () c'"
    using quiet_begin [OF q1, of "info_nr info" lc "info_args info"] quiet_finish [OF q1, of lc info] op
    by (auto simp: PTRACE_SYSCALL_INFO_ENTRY_def PTRACE_SYSCALL_INFO_EXIT_def)
  then have "runs (handle_syscall_stop lc t) c () c'"
    unfolding handle_syscall_stop_def runs_bind
    using c1 op assms(3) by (intro exI [of _ "Inr (80, info)"] exI [of _ c1]) (auto simp: PTRACE_SYSCALL_INFO_ENTRY_def PTRACE_SYSCALL_INFO_EXIT_def)
  then show ?thesis ..
qed

lemma quiet_next:
  assumes "quiet c t tr" and "stopped c c' t tr stop es tr'"
  shows "quiet c' t tr'"
  using assms by (auto simp: quiet_def stopped_def selected_def)

lemma quiet_context_quiet:
  assumes "table_wf tb" and "table_map tb = [41 \<mapsto> fresh_tracee 41 40 True]"
  shows "quiet (quiet_context tb infos) 41 (fresh_tracee 41 40 True)"
proof -
  have "\<not> selected (quiet_context tb infos) n" for n
  proof (cases "0 \<le> n \<and> n < 512")
    case True
    then have "nat n div 64 < 8" by auto
    then show ?thesis
      by (simp add: quiet_context_def selected_def sg_filter_contains_def SG_FILTER_WORDS_def SG_SYSCALL_LIMIT_def
          SG_FILTER_WORD_BITS_def Let_def nth_replicate)
  qed (auto simp: quiet_context_def selected_def sg_filter_contains_def SG_SYSCALL_LIMIT_def Let_def)
  then show ?thesis
    using assms by (simp add: quiet_def quiet_context_def demo_context_def config_init_def Let_def)
qed

definition entry_info :: "u64 \<Rightarrow> ptrace_syscall_info" where
  "entry_info n = \<lparr>info_op = PTRACE_SYSCALL_INFO_ENTRY, info_arch = AUDIT_ARCH_X86_64, info_nr = n,
     info_args = replicate 6 0, info_rval = 0, info_is_error = 0\<rparr>"

definition exit_info :: "int \<Rightarrow> ptrace_syscall_info" where
  "exit_info r = \<lparr>info_op = PTRACE_SYSCALL_INFO_EXIT, info_arch = AUDIT_ARCH_X86_64, info_nr = 0,
     info_args = replicate 6 0, info_rval = r, info_is_error = 0\<rparr>"

lemma stop_of_info: "stop_of (entry_info n) = Entry (int (unat n)) (replicate 6 0)" "stop_of (exit_info r) = Exit r 0"
  by (simp_all add: stop_of_def entry_info_def exit_info_def PTRACE_SYSCALL_INFO_ENTRY_def PTRACE_SYSCALL_INFO_EXIT_def
      exit_error_def)

theorem syscall_stop_step_witness:
  "\<exists>tb c' len info rest es tr'. handle_syscall_stop no_libc 41 (quiet_context tb [entry_info 39]) = Some (Inr (), c') \<and>
    info_answers (ctx_world (quiet_context tb [entry_info 39])) = Inr (len, info) # rest \<and>
    call_step (call_state (fresh_tracee 41 40 True)) (stop_of info) es (call_state tr') \<and>
    tracee_map c' = (tracee_map (quiet_context tb [entry_info 39]))(41 \<mapsto> tr') \<and> table_wf (ctx_tracees c') \<and>
    reports c' = reports (quiet_context tb [entry_info 39]) @
      map (Pair 41) (filter (\<lambda>e. selected (quiet_context tb [entry_info 39]) (ev_number e)) es)"
proof -
  obtain tb where tb: "table_wf tb" "table_map tb = [41 \<mapsto> fresh_tracee 41 40 True]"
    using one_entry_table by blast
  let ?c = "quiet_context tb [entry_info 39]"
  note q = quiet_context_quiet [OF tb, of "[entry_info 39]"]
  obtain c' where c': "handle_syscall_stop no_libc 41 ?c = Some (Inr (), c')"
    using quiet_stop [OF q, of "entry_info 39" "[]" no_libc]
    by (auto simp: runs_def quiet_context_def entry_info_def fresh_tracee_def zero_tracee_def Let_def)
  have "table_wf (ctx_tracees ?c)" "tracee_map ?c 41 = Some (fresh_tracee 41 40 True)" "\<not> summary (ctx_config ?c)"
    using q by (simp_all add: quiet_def)
  from syscall_stop_step [OF this c'] c' show ?thesis by blast
qed

text \<open>A number of syscall stops of one thread, one after the other.\<close>

fun syscall_stops :: "libc \<Rightarrow> int \<Rightarrow> nat \<Rightarrow> unit tr" where
  "syscall_stops lc t 0 = ret ()"
| "syscall_stops lc t (Suc n) = seq_tr (handle_syscall_stop lc t) (syscall_stops lc t n)"

lemma syscall_stops_Suc:
  assumes wf: "table_wf (ctx_tracees c)" and tr: "tracee_map c t = Some tr" and sm: "\<not> summary (ctx_config c)"
    and ans: "info_answers (ctx_world c) = Inr (len, info) # rest" and run: "runs (syscall_stops lc t (Suc n)) c () c'"
  obtains c1 es tr1 where "stopped c c1 t tr (stop_of info) es tr1" and "info_answers (ctx_world c1) = rest"
    and "table_wf (ctx_tracees c1)" and "tracee_map c1 t = Some tr1" and "\<not> summary (ctx_config c1)"
    and "reports c1 = reports c @ reported c t es" and "reported c1 = reported c" and "runs (syscall_stops lc t n) c1 () c'"
proof -
  obtain c1 where c1: "runs (handle_syscall_stop lc t) c () c1" "runs (syscall_stops lc t n) c1 () c'"
    using run by auto
  from runs_syscall_stop [OF wf tr sm c1(1)] ans obtain es tr1
    where s: "stopped c c1 t tr (stop_of info) es tr1" "info_answers (ctx_world c1) = rest" by auto
  then show ?thesis
    using that [OF s] c1(2) sm by (auto simp: stopped_def reported_def selected_def fun_eq_iff)
qed

lemma enter_fresh:
  assumes "inside s = None" and "\<And>h. halted s \<noteq> Some (h, True)" and "call_step s (Entry n xs) es s'"
  shows "\<exists>e. s' = s\<lparr>inside := Some e\<rparr> \<and> es = [] \<and> ev_number e = n"
  using assms(3) by (rule call_step_EntryE) (use assms(1,2) in \<open>auto simp: entered_def\<close>)

text \<open>The machine along a call that a signal interrupts and the kernel restarts.\<close>

lemma interrupted_then_restarted:
  assumes "call_step s0 (Exit r0 e0) es1 s1" "inside s0 = Some p" "is_restart_result r0"
    and "call_step s1 (Entry SYS_rt_sigreturn xs1) es2 s2"
    and "call_step s2 (Exit r2 e2) es3 s3" "\<not> is_restart_result r2"
    and "call_step s3 (Entry n xs) es4 s4" "n = ev_number p \<or> n = SYS_restart_syscall"
    and "call_step s4 (Exit r e) es5 s5" "\<not> is_restart_result r"
  shows "\<exists>g p'. es1 @ es2 @ es3 @ es4 @ es5 = [g, p'] \<and> ev_number g = SYS_rt_sigreturn \<and> outcome p r e p' \<and>
    s5 = \<lparr>inside = None, halted = None\<rparr>"
proof -
  have s1: "s1 = \<lparr>inside = None, halted = Some (p, False)\<rparr>" "es1 = []"
    using assms(1-3) by (auto elim: call_step_ExitE)
  obtain g where s2: "s2 = \<lparr>inside = Some g, halted = Some (p, False)\<rparr>" "es2 = []" "ev_number g = SYS_rt_sigreturn"
    using enter_fresh [OF _ _ assms(4)] s1 by force
  obtain g' where s3: "s3 = \<lparr>inside = None, halted = Some (p, True)\<rparr>" "es3 = [g']" "outcome g r2 e2 g'"
    using assms(5,6) s2 by (auto elim!: call_step_ExitE simp: after_exit_def)
  have s4: "s4 = \<lparr>inside = Some p, halted = None\<rparr>" "es4 = []"
    using assms(7,8) by - (erule call_step_EntryE; auto simp: s3)+
  obtain p' where "s5 = \<lparr>inside = None, halted = None\<rparr>" "es5 = [p']" "outcome p r e p'"
    using assms(9,10) s4 by (auto elim!: call_step_ExitE simp: after_exit_def)
  moreover have "ev_number g' = SYS_rt_sigreturn" using s2(3) s3(3) by (auto simp: outcome_def)
  ultimately show ?thesis using s1(2) s2(2) s3(2) s4(2) by simp
qed


lemma quiet_step:
  assumes q: "quiet c t tr" and ans: "info_answers (ctx_world c) = Inr (80, info) # rest"
    and info: "info = exit_info r \<or> info = entry_info n \<and> int (unat n) \<le> LONG_MAX \<and> inside (call_state tr) = None \<and>
      (\<forall>h. halted (call_state tr) = Some (h, True) \<longrightarrow> int (unat n) = ev_number h)"
  shows "\<exists>c' es tr'. runs (handle_syscall_stop lc t) c () c' \<and> quiet c' t tr' \<and>
    info_answers (ctx_world c') = rest \<and> call_step (call_state tr) (stop_of info) es (call_state tr')"
proof -
  obtain c' where c': "runs (handle_syscall_stop lc t) c () c'"
    using quiet_stop [OF q ans, of lc] info
    by (auto simp: exit_info_def entry_info_def restarts_def call_state_def split: if_splits)
  obtain es tr' where st: "stopped c c' t tr (stop_of info) es tr'" and "info_answers (ctx_world c') = rest"
    using runs_syscall_stop [of c t tr lc c'] q c' ans by (auto simp: quiet_def)
  moreover have "call_step (call_state tr) (stop_of info) es (call_state tr')" using st by (simp add: stopped_def)
  ultimately show ?thesis using c' quiet_next [OF q st] by blast
qed


end
