(* ===== verification/Trace_Shutdown.thy ===== *)
theory Trace_Shutdown
  imports Trace_Safety
begin

text \<open>
  How the trace loop comes to an end: it uses up one return of \<open>waitpid\<close> in each turn and never
  goes past a return that reports a shutdown signal.
\<close>

section \<open>One turn\<close>

text \<open>A turn takes the first return and leaves the others, whatever happens in it.\<close>

lemma loop_step_takes:
  assumes lib: "libc_ok lc" "libc_plain lc" and c: "tracer_inv c" "at lc base {} c"
  shows "\<exists>r c'. loop_step lc c = Some (r, c') \<and> wait_answers (ctx_world c') = tl (wait_answers (ctx_world c)) \<and>
    tracer_inv c' \<and> (\<forall>x. r = Inr x \<longrightarrow> at lc base {} c')"
proof -
  obtain r c1 where w: "waitpid c = Some (Inr r, c1)" "tracer_inv c1" "at lc base {} c1" "return_ok r"
      "wait_answers (ctx_world c1) = tl (wait_answers (ctx_world c))"
    by (rule waitpid_step [OF c])
      (auto simp: waitpid_def next_answer_def receive_signal_def install_memory_def Let_def split: list.splits)
  show ?thesis
    by (rule safeE [OF safe_return [OF lib w(4)] w(2,3)])
      (use w(1,5) in \<open>auto simp: loop_step_def bind_tr_def [of waitpid] still_def\<close>)
qed

text \<open>A \<open>waitpid\<close> that a shutdown signal interrupts ends the loop.\<close>

lemma loop_step_interrupted:
  assumes "wait_answers (ctx_world c) = r # rs" and "waited_for r = Inl EINTR" and "signal_before r \<noteq> 0"
  shows "\<exists>c'. loop_step lc c = Some (Inr (Some (128 + signal_before r)), c') \<and> wait_answers (ctx_world c') = rs"
  using assms
  by (simp add: loop_step_def bind_tr_def waitpid_def next_answer_def Let_def reading_def shutdown_status_def
      receive_signal_def install_memory_def)

section \<open>The loop\<close>

lemma loop_from_shutdown:
  assumes lib: "libc_ok lc" "libc_plain lc"
  shows "tracer_inv c \<Longrightarrow> at lc base {} c \<Longrightarrow> length (wait_answers (ctx_world c)) < n \<Longrightarrow>
    i < length (wait_answers (ctx_world c)) \<Longrightarrow> waited_for (wait_answers (ctx_world c) ! i) = Inl EINTR \<Longrightarrow>
    signal_before (wait_answers (ctx_world c) ! i) = sig \<Longrightarrow> sig \<noteq> 0 \<Longrightarrow>
    \<exists>r c' k. loop_from lc n c = Some (r, c') \<and> k \<le> Suc i \<and>
      wait_answers (ctx_world c') = drop k (wait_answers (ctx_world c)) \<and> (k = Suc i \<longrightarrow> r = Inr (128 + sig))"
proof (induction i arbitrary: c n)
  case 0
  then obtain r rs m where r: "wait_answers (ctx_world c) = r # rs" and n: "n = Suc m"
    by (cases "wait_answers (ctx_world c)"; cases n) auto
  show ?case
  proof (cases "entries (ctx_tracees c) = 0")
    case True
    then show ?thesis unfolding n by (intro exI [of _ "Inr (final_status c)"] exI [of _ c] exI [of _ 0]) simp
  next
    case False
    obtain c' where "loop_step lc c = Some (Inr (Some (128 + sig)), c')" "wait_answers (ctx_world c') = rs"
      using loop_step_interrupted [OF r, of lc] 0 r by auto
    with False r show ?thesis
      unfolding n by (intro exI [of _ "Inr (128 + sig)"] exI [of _ c'] exI [of _ "Suc 0"]) (simp add: bind_tr_def ret_def)
  qed
next
  case (Suc i)
  then obtain m where n: "n = Suc m" by (cases n) auto
  show ?case
  proof (cases "entries (ctx_tracees c) = 0")
    case True
    then show ?thesis unfolding n by (intro exI [of _ "Inr (final_status c)"] exI [of _ c] exI [of _ 0]) simp
  next
    case False
    obtain r c1 where s: "loop_step lc c = Some (r, c1)" "wait_answers (ctx_world c1) = tl (wait_answers (ctx_world c))"
        "tracer_inv c1" "\<forall>x. r = Inr x \<longrightarrow> at lc base {} c1"
      using loop_step_takes [OF lib Suc.prems(1,2)] by blast
    have run: "loop_from lc n c = (case r of Inl e \<Rightarrow> Some (Inl e, c1)
        | Inr (Some x) \<Rightarrow> Some (Inr x, c1) | Inr None \<Rightarrow> loop_from lc m c1)"
      using False s(1) unfolding n by (simp add: bind_tr_def ret_def split: sum.split option.split)
    have tl: "tl (wait_answers (ctx_world c)) ! i = wait_answers (ctx_world c) ! Suc i"
        "i < length (tl (wait_answers (ctx_world c)))" "length (tl (wait_answers (ctx_world c))) < m"
      using Suc.prems(3,4) n by (auto simp: nth_tl)
    show ?thesis
    proof (cases "r = Inr None")
      case True
      then obtain r2 c2 k where "loop_from lc m c1 = Some (r2, c2)" "k \<le> Suc i"
          "wait_answers (ctx_world c2) = drop k (wait_answers (ctx_world c1))" "k = Suc i \<longrightarrow> r2 = Inr (128 + sig)"
        using Suc.IH [of c1 m] s(2-4) tl Suc.prems(5-7) by auto
      then show ?thesis
        using run True s(2) by (intro exI [of _ r2] exI [of _ c2] exI [of _ "Suc k"]) (simp add: drop_Suc)
    next
      case False
      then obtain r2 where "loop_from lc n c = Some (r2, c1)" using run by (auto split: sum.splits option.splits)
      then show ?thesis using s(2) by (intro exI [of _ r2] exI [of _ c1] exI [of _ "Suc 0"]) (simp add: drop_Suc)
    qed
  qed
qed

section \<open>Properties\<close>

text \<open>
  C8. A shutdown signal ends the trace loop: when \<open>waitpid\<close> is interrupted and the handler has
  stored a signal, the loop does not call \<open>waitpid\<close> again, whatever happened before. Of the
  returns of \<open>waitpid\<close> it uses up at most those up to and including that one, and if it gets there
  the status of the command is 128 plus the signal.
\<close>

theorem shutdown_ends_loop:
  assumes "libc_ok lc" and "libc_plain lc" and "tracer_inv c" and "synced lc base c"
    and "i < length (wait_answers (ctx_world c))" and "waited_for (wait_answers (ctx_world c) ! i) = Inl EINTR"
    and "signal_before (wait_answers (ctx_world c) ! i) = sig" and "sig \<noteq> 0"
  shows "\<exists>r c' k. trace_loop lc c = Some (r, c') \<and> k \<le> Suc i \<and>
    wait_answers (ctx_world c') = drop k (wait_answers (ctx_world c)) \<and> (k = Suc i \<longrightarrow> r = Inr (128 + sig))"
proof -
  have a: "at lc base {} c" using assms(4) by (simp add: at_def)
  obtain r c1 where s: "start_root c = Some (r, c1)" "tracer_inv c1" "same_frame c c1"
      "\<And>x. r = Inr x \<Longrightarrow> still lc base {} (\<lambda>_. True) x c1"
    by (rule safeE [OF safe_start_root assms(3) a]) blast
  show ?thesis
  proof (cases r)
    case (Inl e)
    then show ?thesis
      using s(1,3) by (intro exI [of _ "Inl e"] exI [of _ c1] exI [of _ 0]) (simp add: trace_loop_def seq_tr_def bind_tr_def)
  next
    case (Inr x)
    have "at lc base {} c1" using s(4) [OF Inr] by (simp add: still_def)
    then obtain r2 c2 k where "loop_from lc (Suc (length (wait_answers (ctx_world c1)))) c1 = Some (r2, c2)" "k \<le> Suc i"
        "wait_answers (ctx_world c2) = drop k (wait_answers (ctx_world c1))" "k = Suc i \<longrightarrow> r2 = Inr (128 + sig)"
      using loop_from_shutdown [OF assms(1,2) s(2), of base "Suc (length (wait_answers (ctx_world c1)))" i sig] assms(5-8) s(3)
      by (auto simp del: loop_from.simps)
    then show ?thesis
      using s(1,3) Inr
      by (intro exI [of _ r2] exI [of _ c2] exI [of _ k])
        (simp add: trace_loop_def seq_tr_def bind_tr_def reading_def del: loop_from.simps)
  qed
qed

text \<open>The start of a run that signal 2 interrupts before any stop.\<close>

definition interrupted_returns :: "wait_return list" where
  "interrupted_returns =
     \<lparr>signal_before = 2, signal_after = 0, process_vm_readv = (\<lambda>_ _ _. None), waited_for = Inl EINTR\<rparr> # demo_returns"

theorem shutdown_ends_loop_witness:
  "\<exists>tb r c' k. table_map tb = [41 \<mapsto> fresh_tracee 41 40 True] \<and>
     trace_loop no_libc ((demo_context SG_FORMAT_TEXT tb)\<lparr>ctx_world := demo_world\<lparr>wait_answers := interrupted_returns\<rparr>\<rparr>) =
       Some (r, c') \<and> k \<le> 1 \<and> wait_answers (ctx_world c') = drop k interrupted_returns \<and> (k = 1 \<longrightarrow> r = Inr 130)"
proof -
  obtain tb where tb: "table_wf tb" "table_map tb = [41 \<mapsto> fresh_tracee 41 40 True]"
    using one_entry_table by blast
  let ?c = "(demo_context SG_FORMAT_TEXT tb)\<lparr>ctx_world := demo_world\<lparr>wait_answers := interrupted_returns\<rparr>\<rparr>"
  have w: "ctx_world (demo_context SG_FORMAT_TEXT tb) = demo_world" by (simp add: demo_context_def Let_def)
  then have "world_ok demo_world" using demo_context_inv [OF tb, of SG_FORMAT_TEXT] by (simp add: tracer_inv_def)
  then have "world_ok (demo_world\<lparr>wait_answers := interrupted_returns\<rparr>)"
    by (auto simp: world_ok_def interrupted_returns_def demo_world_def return_ok_def memory_ok_def)
  then have c: "tracer_inv ?c" using demo_context_inv [OF tb, of SG_FORMAT_TEXT] by (intro inv_world) blast
  have "synced no_libc [] ?c"
    using demo_context_inv [OF tb, of SG_FORMAT_TEXT no_libc] w by (auto simp: synced_def split: if_splits)
  from shutdown_ends_loop [OF libc_ok_no_libc libc_plain_no_libc c this, of 0 2] tb(2) show ?thesis
    by (simp add: interrupted_returns_def) blast
qed

end
