(* ===== verification/Trace_Attach.thy ===== *)
theory Trace_Attach
  imports Trace_Safety
begin

text \<open>
  Attaching to a running process, the part of \<open>src/trace.c\<close> that seizes every thread: the check of
  the executable, the reading of the task directory and the rounds that repeat it until no new
  thread shows up.
\<close>

section \<open>The executable\<close>

text \<open>The bytes of an \<open>Elf64_Ehdr\<close> that the code looks at: the magic number, class, byte order and machine.\<close>

definition native_header :: "char list \<Rightarrow> bool" where
  "native_header header \<longleftrightarrow> length header = 64 \<and>
     take 4 header = [CHR 0x7F, CHR ''E'', CHR ''L'', CHR ''F''] \<and>
     header ! 4 = CHR 0x02 \<and> header ! 5 = CHR 0x01 \<and> header ! 18 = CHR 0x3E \<and> header ! 19 = CHR 0x00"

definition validate_native_executable :: "char list option \<Rightarrow> int \<Rightarrow> unit tr" where
  "validate_native_executable header p =
     (case header of
        None \<Rightarrow> fail (Tr_No_Executable p)
      | Some bytes \<Rightarrow> if native_header bytes then ret () else fail (Tr_Not_Native p))"

section \<open>The task directory\<close>

definition ERANGE :: int where "ERANGE = 34"

definition sizeof_tid :: u64 where "sizeof_tid = 4"

text \<open>
  The loop over the directory entries: the error number as the calls have left it, the capacity of
  the array and the values in it.
\<close>

fun read_entries ::
    "heap \<Rightarrow> int \<Rightarrow> u64 \<Rightarrow> int list \<Rightarrow> string list \<Rightarrow> (trace_error + int list \<times> int) \<times> heap" where
  "read_entries h errno cap vals [] = (Inr (vals, errno), h)"
| "read_entries h errno cap vals (name # names) =
     (if name \<noteq> [] \<and> hd name = CHR ''.'' then read_entries h errno cap vals names
      else case strtol name of (v, rest, erange) \<Rightarrow>
        (let errno = (if erange then ERANGE else 0)
         in if errno \<noteq> 0 \<or> rest = name \<or> rest \<noteq> [] \<or> v \<le> 0 \<or> v > INT_MAX
            then read_entries h errno cap vals names
            else if length vals = unat cap
            then let new_capacity = (if cap = 0 then 16 else cap * 2)
              in if new_capacity < cap \<or> new_capacity > SIZE_MAX div sizeof_tid then (Inl Tr_Task_Too_Large, h)
                 else case alloc h of (ok, h') \<Rightarrow>
                   if \<not> ok then (Inl Tr_Task_Memory, h')
                   else read_entries h' errno new_capacity (vals @ [v]) names
            else read_entries h errno cap (vals @ [v]) names))"

definition collect_task_ids :: "int \<Rightarrow> int list tr" where
  "collect_task_ids p c =
     (let w = ctx_world c
      in case next_answer None (task_listings w) of
           (None, rest) \<Rightarrow> Some (Inl (Tr_Open_Tasks p), c\<lparr>ctx_world := w\<lparr>task_listings := rest\<rparr>\<rparr>)
         | (Some (names, end_errno), rest) \<Rightarrow>
             (case read_entries (w_heap w) 0 0 [] names of
                (r, h) \<Rightarrow>
                  Some (case r of
                          Inl e \<Rightarrow> Inl e
                        | Inr (vals, errno) \<Rightarrow>
                            (let errno = (if end_errno \<noteq> 0 then end_errno else errno)
                             in if errno \<noteq> 0 then Inl (Tr_Task_Directory errno) else Inr vals),
                        c\<lparr>ctx_world := w\<lparr>task_listings := rest, w_heap := h\<rparr>\<rparr>)))"

text \<open>
  The thread ids of the table, in an array of as many elements as the table counts entries; more
  occupied slots than that would be written past its end.
\<close>

definition occupied_tids :: "sg_tracee_slot list \<Rightarrow> int list" where
  "occupied_tids ss = map (\<lambda>s. tid (slot_tracee s)) (filter (\<lambda>s. slot_state s = SG_TRACEE_SLOT_OCCUPIED) ss)"

definition snapshot_tids :: "int list tr" where
  "snapshot_tids c =
     (let tb = ctx_tracees c
      in if entries tb = 0 then Some (Inr [], c)
         else case alloc (w_heap (ctx_world c)) of (ok, h) \<Rightarrow>
           (let c' = c\<lparr>ctx_world := (ctx_world c)\<lparr>w_heap := h\<rparr>\<rparr>
            in if \<not> ok then Some (Inl Tr_No_Snapshot, c')
               else if length (occupied_tids (slots tb)) > unat (entries tb) then None
               else Some (Inr (occupied_tids (slots tb)), c')))"

section \<open>Seizing\<close>

fun seize_ids :: "u64 \<Rightarrow> int \<Rightarrow> int list \<Rightarrow> nat \<Rightarrow> nat tr" where
  "seize_ids options p [] added = ret added"
| "seize_ids options p (i # ids) added =
     bind_tr (find_tracee i) (\<lambda>found.
       if found \<noteq> None then seize_ids options p ids added
       else seq_tr (add_tracee i p True True)
        (bind_tr (measured_ptrace (PT_SEIZE i options)) (\<lambda>a.
           case a of
             None \<Rightarrow> seize_ids options p ids (added + 1)
           | Some errno \<Rightarrow>
               bind_tr (remove_tracee i) (\<lambda>_.
                 if errno = ESRCH then seize_ids options p ids added
                 else fail (Tr_Ptrace (PT_SEIZE i options) errno)))))"

text \<open>The rounds, from a number of rounds left on; \<open>True\<close> when one of them found nothing new.\<close>

fun attach_rounds :: "u64 \<Rightarrow> int \<Rightarrow> nat \<Rightarrow> bool tr" where
  "attach_rounds options p 0 = ret False"
| "attach_rounds options p (Suc n) =
     bind_tr (collect_task_ids p) (\<lambda>ids.
     bind_tr (seize_ids options p ids 0) (\<lambda>added.
       if added = 0 then ret True else attach_rounds options p n))"

fun interrupt_ids :: "int list \<Rightarrow> unit tr" where
  "interrupt_ids [] = ret ()"
| "interrupt_ids (i # ids) =
     bind_tr (measured_ptrace (PT_INTERRUPT i)) (\<lambda>a.
       case a of
         None \<Rightarrow> interrupt_ids ids
       | Some errno \<Rightarrow> if errno \<noteq> ESRCH then fail (Tr_Ptrace (PT_INTERRUPT i) errno) else interrupt_ids ids)"

definition prepare_attach :: "char list option \<Rightarrow> unit tr" where
  "prepare_attach header =
     bind_tr (reading (\<lambda>c. (ptrace_options (ctx_config c) False, attach_pid (ctx_config c)))) (\<lambda>(options, p).
     seq_tr (validate_native_executable header p)
     (bind_tr (attach_rounds options p 64) (\<lambda>stable.
      bind_tr (reading (\<lambda>c. entries (ctx_tracees c))) (\<lambda>n.
        if \<not> stable \<or> n = 0 then fail Tr_Not_Stable
        else bind_tr snapshot_tids (\<lambda>ids.
             seq_tr (interrupt_ids ids) (updating (\<lambda>c. c\<lparr>root_tid := p\<rparr>)))))))"

section \<open>Safety\<close>

lemma table_entries: "table_wf tb \<Longrightarrow> unat (entries tb) = length (occupied_tids (slots tb))"
  by (auto simp: table_wf_def table_inv_def n_occupied_def occupied_tids_def sg_tracee_table_init_def)

lemma wf_distinct_tids: "table_wf tb \<Longrightarrow> distinct_tids (slots tb)"
  by (auto simp: table_wf_def table_inv_def linked_def sg_tracee_table_init_def distinct_tids_def)

text \<open>The occupied slots and the map of the table hold the same tracees.\<close>

lemma wf_slot_iff:
  assumes "table_wf tb"
  shows "table_map tb t = Some tr \<longleftrightarrow>
    (\<exists>s \<in> set (slots tb). slot_state s = SG_TRACEE_SLOT_OCCUPIED \<and> slot_tracee s = tr \<and> tid tr = t)"
  using slots_map_Some_iff [OF wf_distinct_tids [OF assms], of t tr]
  by (simp add: table_map_def holds_tid_def) (metis in_set_conv_nth)

lemma occupied_dom: "table_wf tb \<Longrightarrow> set (occupied_tids (slots tb)) = dom (table_map tb)"
  by (auto simp: occupied_tids_def wf_slot_iff dom_def)

lemma distinct_occupied: "distinct_tids ss \<Longrightarrow> distinct (occupied_tids ss)"
proof (induction ss)
  case (Cons s ss)
  have "distinct_tids ss"
    unfolding distinct_tids_def
  proof (intro allI impI)
    fix i j assume "i < length ss" "j < length ss" "is_occupied (ss ! i)" "is_occupied (ss ! j)"
      "tid (slot_tracee (ss ! i)) = tid (slot_tracee (ss ! j))"
    then show "i = j"
      using Cons.prems [unfolded distinct_tids_def, rule_format, of "Suc i" "Suc j"] by simp
  qed
  moreover have "tid (slot_tracee s) \<notin> set (occupied_tids ss)" if "is_occupied s"
  proof
    assume "tid (slot_tracee s) \<in> set (occupied_tids ss)"
    then obtain i where "i < length ss" "is_occupied (ss ! i)" "tid (slot_tracee (ss ! i)) = tid (slot_tracee s)"
      by (auto simp: occupied_tids_def in_set_conv_nth)
    then show False
      using Cons.prems [unfolded distinct_tids_def, rule_format, of 0 "Suc i"] that by simp
  qed
  ultimately show ?case using Cons.IH by (auto simp: occupied_tids_def)
qed (simp add: occupied_tids_def)

lemma read_entries_pids:
  "read_entries h errno cap vals names = (Inr (ids, e), h') \<Longrightarrow> \<forall>i \<in> set vals. pid_ok i \<Longrightarrow> \<forall>i \<in> set ids. pid_ok i"
proof (induction h errno cap vals names rule: read_entries.induct)
  case (2 h errno cap vals name names)
  then show ?case
    by (auto simp: Let_def pid_ok_def split: if_splits prod.splits)
qed simp

lemma safe_collect_task_ids:
  "safe lc base T (collect_task_ids p) (still lc base T (\<lambda>ids. \<forall>i \<in> set ids. pid_ok i))"
proof (rule safeI)
  fix c assume c: "tracer_inv c" "at lc base T c"
  obtain a rest where n: "next_answer None (task_listings (ctx_world c)) = (a, rest)" by fastforce
  have w: "world_ok ((ctx_world c)\<lparr>task_listings := rest\<rparr>)" "\<And>h. world_ok ((ctx_world c)\<lparr>task_listings := rest, w_heap := h\<rparr>)"
    using c(1) by (simp_all add: tracer_inv_def world_ok_def)
  show "\<exists>r c'. collect_task_ids p c = Some (r, c') \<and> tracer_inv c' \<and> same_frame c c' \<and>
      (\<forall>x. r = Inr x \<longrightarrow> still lc base T (\<lambda>ids. \<forall>i \<in> set ids. pid_ok i) x c')"
  proof (cases a)
    case None
    then show ?thesis using c w n by (simp add: collect_task_ids_def Let_def inv_world)
  next
    case (Some l)
    obtain names end_errno where l: "l = (names, end_errno)" by fastforce
    obtain r h where r: "read_entries (w_heap (ctx_world c)) 0 0 [] names = (r, h)" by fastforce
    have "\<forall>i \<in> set ids. pid_ok i" if "r = Inr (ids, e)" for ids e
      using read_entries_pids [OF r [unfolded that]] by simp
    then show ?thesis
      using c w n l r Some
      by (auto simp: collect_task_ids_def Let_def inv_world still_def at_world split: sum.splits if_splits)
  qed
qed

lemma safe_bind_collect [safe_rules]:
  "(\<And>ids. \<forall>i \<in> set ids. pid_ok i \<Longrightarrow> safe lc base T (f ids) G) \<Longrightarrow>
     safe lc base T (bind_tr (collect_task_ids p) f) G"
  by (rule safe_bind [OF safe_collect_task_ids])

lemma safe_snapshot_tids: "keeps lc base T snapshot_tids"
proof (rule safeI)
  fix c assume c: "tracer_inv c" "at lc base T c"
  obtain ok h where h: "alloc (w_heap (ctx_world c)) = (ok, h)" by fastforce
  have "unat (entries (ctx_tracees c)) = length (occupied_tids (slots (ctx_tracees c)))"
    using c(1) by (intro table_entries) (simp add: tracer_inv_def tracees_ok_def)
  then show "\<exists>r c'. snapshot_tids c = Some (r, c') \<and> tracer_inv c' \<and> same_frame c c' \<and>
      (\<forall>x. r = Inr x \<longrightarrow> still lc base T (\<lambda>_. True) x c')"
    using c h by (simp add: snapshot_tids_def Let_def inv_heap still_def at_world)
qed

lemma safe_interrupt_ids [safe_rules]: "keeps lc base T (interrupt_ids ids)"
  by (induction ids) (auto intro!: safe_rules)

lemma safe_seize_ids:
  assumes "pid_ok p"
  shows "\<forall>i \<in> set ids. pid_ok i \<Longrightarrow> safe lc base T (seize_ids options p ids n) (still lc base {} (\<lambda>_. True))"
proof (induction ids arbitrary: T n)
  case Nil
  then show ?case by (auto intro: safe_weaken [OF safe_ret [where q = "\<lambda>_. True"]] simp: still_def at_def)
next
  case (Cons i ids)
  then show ?case
    using assms by (auto intro!: safe_bind_find safe_seq_add_tracee safe_bind_ptrace safe_bind_remove safe_if safe_fail)
qed

lemma safe_attach_rounds: "pid_ok p \<Longrightarrow> keeps lc base {} (attach_rounds options p n)"
proof (induction n)
  case (Suc n)
  then show ?case
    by (auto intro!: safe_bind_collect safe_bind [OF safe_seize_ids] safe_if safe_ret)
qed (auto intro: safe_ret)

lemma safe_validate [safe_rules]: "keeps lc base T (validate_native_executable header p)"
  unfolding validate_native_executable_def by (auto intro!: safe_rules split: option.split)

lemma prepare_attach_runs:
  assumes "tracer_inv c" and "at lc base {} c" and "pid_ok (attach_pid (ctx_config c))"
  shows "\<exists>r c'. prepare_attach header c = Some (r, c') \<and> tracer_inv c' \<and> same_frame c c' \<and>
    (\<forall>x. r = Inr x \<longrightarrow> at lc base {} c')"
proof -
  let ?p = "attach_pid (ctx_config c)"
  have root: "keeps lc base {} (updating (\<lambda>c. c\<lparr>root_tid := ?p\<rparr>))"
    by (rule safe_updating) (simp_all add: tracer_inv_def at_def synced_def split: if_splits)
  have body: "keeps lc base {} (seq_tr (validate_native_executable header ?p)
     (bind_tr (attach_rounds options ?p 64) (\<lambda>stable.
      bind_tr (reading (\<lambda>c. entries (ctx_tracees c))) (\<lambda>n.
        if \<not> stable \<or> n = 0 then fail Tr_Not_Stable
        else bind_tr snapshot_tids (\<lambda>ids.
             seq_tr (interrupt_ids ids) (updating (\<lambda>c. c\<lparr>root_tid := ?p\<rparr>)))))))" for options
    by (intro safe_seq safe_validate safe_bind [OF safe_attach_rounds [OF assms(3)]] safe_bind_reading safe_if safe_fail
        safe_bind [OF safe_snapshot_tids] safe_interrupt_ids root)
  show ?thesis
    by (rule safeE [OF body [of "ptrace_options (ctx_config c) False"] assms(1,2)])
      (simp add: prepare_attach_def bind_tr_def [of "reading _"] reading_def still_def)
qed

section \<open>What an attach has asked for\<close>

lemma add_tracee_adds:
  assumes "tracer_inv c" and "pid_ok t" and "add_tracee t tg att born c = Some (Inr (), c')"
  shows "dom (tracee_map c') = insert t (dom (tracee_map c)) \<and> requests (ctx_world c') = requests (ctx_world c)"
proof -
  have wf: "table_wf (ctx_tracees c)" using assms(1) by (simp add: tracer_inv_def tracees_ok_def)
  obtain r h tb where r: "sg_tracee_table_insert (w_heap (ctx_world c)) (ctx_tracees c) t tg att = Some (r, h, tb)"
      "table_wf tb" "case r of None \<Rightarrow> True
       | Some False \<Rightarrow> t \<in> dom (tracee_map c) \<and> table_map tb = tracee_map c
       | Some True \<Rightarrow> table_map tb = (tracee_map c)(t \<mapsto> fresh_tracee t tg att)"
    using table_insert_correct [OF wf, of "w_heap (ctx_world c)" t tg att]
    by (fastforce split: option.splits bool.splits)
  let ?c = "c\<lparr>ctx_tracees := tb, ctx_world := (ctx_world c)\<lparr>w_heap := h\<rparr>\<rparr>"
  have ins: "insert_tracee t tg att c = Some (Inr r, ?c)" using r(1) by (simp add: insert_tracee_def)
  consider "r = None" | "r = Some False" | "r = Some True" by (cases r) auto
  then show ?thesis
  proof cases
    case 3
    then have tr: "table_map tb t = Some (fresh_tracee t tg att)" using r(3) by simp
    obtain tb' where "tracee_store tb t (\<lambda>tr. tr\<lparr>newborn := born, options_installed := True\<rparr>) = Some tb'"
        "table_map tb' = (table_map tb)(t \<mapsto> (fresh_tracee t tg att)\<lparr>newborn := born, options_installed := True\<rparr>)"
      using tracee_store_correct [OF r(2) tr, of "\<lambda>tr. tr\<lparr>newborn := born, options_installed := True\<rparr>"]
      by (auto simp: fresh_tracee_def)
    then show ?thesis
      using assms(3) 3 r(3) ins by (auto simp: add_tracee_def bind_tr_def set_tracee_def)
  qed (use assms(3) r(3) ins in \<open>auto simp: add_tracee_def bind_tr_def fail_def ret_def\<close>)
qed

lemma remove_tracee_removes:
  assumes "tracer_inv c"
  shows "\<exists>r c'. remove_tracee t c = Some (Inr r, c') \<and> dom (tracee_map c') = dom (tracee_map c) - {t} \<and>
    requests (ctx_world c') = requests (ctx_world c)"
  using table_remove_correct [of "ctx_tracees c" t] assms
  by (auto simp: remove_tracee_def tracer_inv_def tracees_ok_def)

text \<open>Every tracee of the table has been seized with the options.\<close>

definition seized :: "u64 \<Rightarrow> trace_context \<Rightarrow> bool" where
  "seized options c \<longleftrightarrow> (\<forall>t \<in> dom (tracee_map c). PT_SEIZE t options \<in> set (requests (ctx_world c)))"

lemma seize_ids_seizes:
  assumes "pid_ok p"
  shows "\<forall>i \<in> set ids. pid_ok i \<Longrightarrow> tracer_inv c \<Longrightarrow> at lc base {} c \<Longrightarrow> seized options c \<Longrightarrow>
    seize_ids options p ids n c = Some (Inr k, c') \<Longrightarrow> seized options c'"
proof (induction ids arbitrary: n c)
  case Nil
  then show ?case by (simp add: ret_def)
next
  case (Cons i ids)
  have ids: "\<forall>i \<in> set ids. pid_ok i" and i: "pid_ok i" using Cons.prems(1) by simp_all
  have found: "find_tracee i c = Some (Inr (tracee_map c i), c)" using Cons.prems(2) by (simp add: find_tracee_def inv_get)
  show ?case
  proof (cases "tracee_map c i")
    case (Some tr)
    then have "seize_ids options p ids n c = Some (Inr k, c')" using Cons.prems(5) found by (simp add: bind_tr_def)
    then show ?thesis using Cons.IH [OF ids Cons.prems(2-4)] by blast
  next
    case None
    obtain c1 where add: "add_tracee i p True True c = Some (Inr (), c1)" "tracer_inv c1" "at lc base {i} c1"
      by (rule safeE [OF safe_add_tracee [OF i assms] Cons.prems(2,3), of True True])
        (use Cons.prems(5) found None in \<open>auto simp: bind_tr_def seq_tr_def still_def split: sum.splits\<close>)
    note dom = add_tracee_adds [OF Cons.prems(2) i add(1)]
    obtain a c2 where ask: "measured_ptrace (PT_SEIZE i options) c1 = Some (Inr a, c2)" "tracer_inv c2" "at lc base {i} c2"
        "ctx_tracees c2 = ctx_tracees c1" "requests (ctx_world c2) = requests (ctx_world c1) @ [PT_SEIZE i options]"
      by (rule safeE [OF safe_measured_ptrace add(2,3), of "PT_SEIZE i options"])
        (auto simp: measured_ptrace_def Let_def still_def split: prod.splits)
    have s2: "seized options c2" using Cons.prems(4) dom ask(4,5) by (auto simp: seized_def)
    have a2: "at lc base {} c2" using at_mono [OF ask(3)] by blast
    show ?thesis
    proof (cases a)
      case None
      then have "seize_ids options p ids (n + 1) c2 = Some (Inr k, c')"
        using Cons.prems(5) found \<open>tracee_map c i = None\<close> add(1) ask(1) by (simp add: bind_tr_def seq_tr_def)
      then show ?thesis using Cons.IH [OF ids ask(2) a2 s2] by blast
    next
      case (Some errno)
      obtain r c3 where rem: "remove_tracee i c2 = Some (Inr r, c3)" "dom (tracee_map c3) = dom (tracee_map c2) - {i}"
          "requests (ctx_world c3) = requests (ctx_world c2)"
        using remove_tracee_removes [OF ask(2)] by blast
      have c3: "tracer_inv c3" "at lc base {} c3"
        by (rule safeE [OF safe_remove_tracee ask(2) a2, of i]; use rem(1) in \<open>simp add: still_def\<close>)+
      have "seize_ids options p ids n c3 = Some (Inr k, c')"
        using Cons.prems(5) found \<open>tracee_map c i = None\<close> add(1) ask(1) Some rem(1)
        by (simp add: bind_tr_def seq_tr_def fail_def split: if_splits)
      moreover have "seized options c3" using s2 rem(2,3) by (simp add: seized_def)
      ultimately show ?thesis using Cons.IH [OF ids c3] by blast
    qed
  qed
qed

lemma attach_rounds_seizes:
  assumes "pid_ok p"
  shows "tracer_inv c \<Longrightarrow> at lc base {} c \<Longrightarrow> seized options c \<Longrightarrow>
    attach_rounds options p n c = Some (Inr b, c') \<Longrightarrow> seized options c' \<and> tracer_inv c'"
proof (induction n arbitrary: c)
  case 0
  then show ?case by (simp add: ret_def)
next
  case (Suc n)
  obtain ids c1 where col: "collect_task_ids p c = Some (Inr ids, c1)" "tracer_inv c1" "at lc base {} c1" "\<forall>i \<in> set ids. pid_ok i"
    by (rule safeE [OF safe_collect_task_ids Suc.prems(1,2), of p])
      (use Suc.prems(4) in \<open>auto simp: bind_tr_def still_def split: sum.splits\<close>)
  have c1: "ctx_tracees c1 = ctx_tracees c" "requests (ctx_world c1) = requests (ctx_world c)"
    using col(1) by (auto simp: collect_task_ids_def Let_def split: prod.splits option.splits sum.splits)
  then have s1: "seized options c1" using Suc.prems(3) by (simp add: seized_def)
  obtain k c2 where z: "seize_ids options p ids 0 c1 = Some (Inr k, c2)" "tracer_inv c2" "at lc base {} c2"
    by (rule safeE [OF safe_seize_ids [OF assms col(4)] col(2,3), of options 0])
      (use Suc.prems(4) col(1) in \<open>auto simp: bind_tr_def still_def split: sum.splits\<close>)
  have s2: "seized options c2" by (rule seize_ids_seizes [OF assms col(4,2,3) s1 z(1)])
  show ?case
    using Suc.prems(4) col(1) z s2 Suc.IH [OF z(2,3) s2]
    by (simp add: bind_tr_def ret_def split: if_splits)
qed

lemma interrupt_ids_asks:
  "interrupt_ids ids c = Some (Inr (), c') \<Longrightarrow> ctx_tracees c' = ctx_tracees c \<and>
     set (requests (ctx_world c)) \<union> PT_INTERRUPT ` set ids \<subseteq> set (requests (ctx_world c'))"
proof (induction ids arbitrary: c)
  case (Cons i ids)
  obtain a c1 where ask: "measured_ptrace (PT_INTERRUPT i) c = Some (Inr a, c1)" "ctx_tracees c1 = ctx_tracees c"
      "set (requests (ctx_world c1)) = insert (PT_INTERRUPT i) (set (requests (ctx_world c)))"
    by (cases "next_answer (Some EPERM) (control_answers (ctx_world c))") (auto simp: measured_ptrace_def Let_def)
  then have "interrupt_ids ids c1 = Some (Inr (), c')"
    using Cons.prems by (auto simp: bind_tr_def fail_def split: option.splits if_splits)
  with Cons.IH [of c1] ask(2,3) show ?case by auto
qed (simp add: ret_def)

lemma snapshot_is_domain:
  assumes "tracer_inv c" and "snapshot_tids c = Some (Inr ids, c')"
  shows "set ids = dom (tracee_map c) \<and> ctx_tracees c' = ctx_tracees c \<and> requests (ctx_world c') = requests (ctx_world c)"
proof -
  have wf: "table_wf (ctx_tracees c)" using assms(1) by (simp add: tracer_inv_def tracees_ok_def)
  have "entries (ctx_tracees c) = 0 \<Longrightarrow> occupied_tids (slots (ctx_tracees c)) = []" using table_entries [OF wf] by simp
  then have "ids = occupied_tids (slots (ctx_tracees c)) \<and> ctx_tracees c' = ctx_tracees c \<and>
      requests (ctx_world c') = requests (ctx_world c)"
    using assms(2) by (auto simp: snapshot_tids_def Let_def split: if_splits prod.splits)
  then show ?thesis using occupied_dom [OF wf] by simp
qed

text \<open>A successful attach, step by step: the header, the rounds, the snapshot and the interrupts.\<close>

lemma prepare_attach_success:
  assumes "tracer_inv c" and "at lc base {} c" and "pid_ok (attach_pid (ctx_config c))" and "tracee_map c = Map.empty"
    and "prepare_attach header c = Some (Inr (), c')"
  shows "(\<exists>bytes. header = Some bytes \<and> native_header bytes) \<and> root_tid c' = attach_pid (ctx_config c) \<and>
    dom (tracee_map c') \<noteq> {} \<and>
    (\<forall>t \<in> dom (tracee_map c'). {PT_SEIZE t (ptrace_options (ctx_config c) False), PT_INTERRUPT t} \<subseteq>
       set (requests (ctx_world c')))"
proof -
  let ?p = "attach_pid (ctx_config c)" and ?options = "ptrace_options (ctx_config c) False"
  have native: "\<exists>bytes. header = Some bytes \<and> native_header bytes"
    using assms(5) by (auto simp: prepare_attach_def seq_tr_def bind_tr_def reading_def validate_native_executable_def
        fail_def split: option.splits if_splits)
  then have body: "bind_tr (attach_rounds ?options ?p 64) (\<lambda>stable.
      bind_tr (reading (\<lambda>c. entries (ctx_tracees c))) (\<lambda>n.
        if \<not> stable \<or> n = 0 then fail Tr_Not_Stable
        else bind_tr snapshot_tids (\<lambda>ids. seq_tr (interrupt_ids ids) (updating (\<lambda>c. c\<lparr>root_tid := ?p\<rparr>))))) c =
      Some (Inr (), c')"
    using assms(5)
    by (auto simp: prepare_attach_def seq_tr_def bind_tr_def [of "reading _"] bind_tr_def [of "ret _"] reading_def
        validate_native_executable_def ret_def)
  obtain b c1 where r1: "attach_rounds ?options ?p 64 c = Some (Inr b, c1)"
      "(if \<not> b \<or> entries (ctx_tracees c1) = 0 then fail Tr_Not_Stable
        else bind_tr snapshot_tids (\<lambda>ids. seq_tr (interrupt_ids ids) (updating (\<lambda>c. c\<lparr>root_tid := ?p\<rparr>)))) c1 = Some (Inr (), c')"
    using body by (auto simp: bind_tr_def [of "attach_rounds _ _ _"] bind_tr_def [of "reading _"] reading_def
        simp del: attach_rounds.simps split: option.splits sum.splits)
  have "seized ?options c" using assms(4) by (simp add: seized_def)
  then have c1: "seized ?options c1" "tracer_inv c1"
    using attach_rounds_seizes [OF assms(3,1,2) _ r1(1)] by simp_all
  have ne: "entries (ctx_tracees c1) \<noteq> 0" using r1(2) by (auto simp: fail_def)
  obtain ids c2 c3 where r2: "snapshot_tids c1 = Some (Inr ids, c2)" "interrupt_ids ids c2 = Some (Inr (), c3)"
      "c' = c3\<lparr>root_tid := ?p\<rparr>"
    using r1(2) by (auto simp: bind_tr_def seq_tr_def updating_def fail_def split: option.splits sum.splits if_splits)
  note snap = snapshot_is_domain [OF c1(2) r2(1)] and int = interrupt_ids_asks [OF r2(2)]
  have "table_wf (ctx_tracees c1)" using c1(2) by (simp add: tracer_inv_def tracees_ok_def)
  then have "dom (tracee_map c1) \<noteq> {}"
    using ne table_entries occupied_dom by (metis list.size(3) set_empty unat_eq_zero)
  then show ?thesis
    using native snap int r2(3) c1(1) by (auto simp: seized_def image_subset_iff)
qed

section \<open>Properties\<close>



end
