(* ===== verification/Trace_Run.thy ===== *)
theory Trace_Run
  imports Trace_Attach
begin

text \<open>
  A whole run, the rest of \<open>src/trace.c\<close> and \<open>src/main.c\<close>: starting the command or attaching, the
  trace loop, the clean-up of the tracees, the summary and the exit status of the program.

  What happens once in a run is a field of \<open>run_env\<close>. The child between \<open>fork\<close> and \<open>execvp\<close> is a
  program of its own, \<open>child_main\<close>; the tracer meets it again through \<open>waitpid\<close>.
\<close>

section \<open>The environment of a run\<close>

text \<open>
  \<open>opened\<close> is the result of \<open>open\<close> and \<open>fdopen\<close>: \<open>Inl False\<close> when the first of them fails, \<open>Inl True\<close>
  when only the second does.
\<close>

record run_env =
  stderr_stream :: stream
  opened :: "bool + stream"
  forked :: "int + int"
  exe_header :: "char list option"
  sigint_installed :: bool
  sigterm_installed :: bool
  first_memory :: memory_reader
  benchmark_fd :: "string option"
  dprintf_ok :: bool
  fclose_ok :: bool

section \<open>The child\<close>

record child_env =
  traceme_ok :: bool
  raise_ok :: bool
  prctl_ok :: bool
  seccomp_ok :: bool
  execvp_ok :: bool

datatype child_result = Child_Exit int string | Child_Exec "string list"

definition child_fail :: "string \<Rightarrow> string option \<Rightarrow> string \<Rightarrow> child_result" where
  "child_fail operation subject reason =
     Child_Exit 127 (case subject of
       None \<Rightarrow> ''sysgaze: child '' @ operation @ '' failed: '' @ reason @ [CHR 0x0A]
     | Some s \<Rightarrow> ''sysgaze: cannot execute '' @ [CHR 0x27] @ s @ [CHR 0x27] @ '': '' @ reason @ [CHR 0x0A])"

text \<open>\<open>install_seccomp_program\<close>: nothing on success, the exit of the child otherwise.\<close>

definition install_seccomp_program :: "child_env \<Rightarrow> string \<Rightarrow> child_result option" where
  "install_seccomp_program env reason =
     (if \<not> prctl_ok env
      then Some (Child_Exit 126 (''sysgaze: child PR_SET_NO_NEW_PRIVS failed: '' @ reason @ [CHR 0x0A]))
      else if \<not> seccomp_ok env
      then Some (Child_Exit 126 (''sysgaze: child seccomp-BPF installation failed: '' @ reason @ [CHR 0x0A]))
      else None)"

definition child_main :: "child_env \<Rightarrow> string \<Rightarrow> sg_config \<Rightarrow> child_result option" where
  "child_main env reason config =
     (if \<not> traceme_ok env then Some (child_fail ''PTRACE_TRACEME'' None reason)
      else if \<not> raise_ok env then Some (child_fail ''synchronization stop'' None reason)
      else case (if seccomp_bpf config then install_seccomp_program env reason else None) of
             Some r \<Rightarrow> Some r
           | None \<Rightarrow>
               (case command_argv config of
                  Some (path # rest) \<Rightarrow>
                    Some (if execvp_ok env then Child_Exec (path # rest) else child_fail ''execvp'' (Some path) reason)
                | _ \<Rightarrow> None))"

section \<open>Starting the command\<close>

definition prepare_program :: "unit tr" where
  "prepare_program c =
     (if \<not> seccomp_bpf (ctx_config c) then Some (Inr (), c)
      else case prepare_seccomp_program (w_heap (ctx_world c)) (cfg_filter (ctx_config c)) of
             None \<Rightarrow> None
           | Some (r, h) \<Rightarrow>
               Some (case r of Inl e \<Rightarrow> Inl (Tr_Seccomp e) | Inr _ \<Rightarrow> Inr (),
                     c\<lparr>ctx_world := (ctx_world c)\<lparr>w_heap := h\<rparr>\<rparr>))"

definition launch_tracee :: "run_env \<Rightarrow> int tr" where
  "launch_tracee env =
     seq_tr prepare_program (case forked env of Inl errno \<Rightarrow> fail Tr_Fork | Inr child \<Rightarrow> ret child)"

text \<open>A \<open>waitpid\<close> repeated while signals interrupt it.\<close>

fun skip_interrupted :: "wait_return list \<Rightarrow> (int + int \<times> wait_status) \<times> wait_return list" where
  "skip_interrupted [] = (waited_for no_return, [])"
| "skip_interrupted (r # rs) = (if waited_for r = Inl EINTR then skip_interrupted rs else (waited_for r, rs))"

definition wait_steadily :: "(int + int \<times> wait_status) tr" where
  "wait_steadily c =
     (let w = ctx_world c
      in case skip_interrupted (wait_answers w) of
           (a, rest) \<Rightarrow> Some (Inr a, c\<lparr>ctx_world := w\<lparr>wait_answers := rest\<rparr>\<rparr>))"

definition wait_for_initial_stop :: "unit tr" where
  "wait_for_initial_stop =
     bind_tr wait_steadily (\<lambda>a.
       case a of
         Inl errno \<Rightarrow> fail Tr_Initial_Wait
       | Inr (waited, s) \<Rightarrow>
           if \<not> WIFSTOPPED s \<or> WSTOPSIG s \<noteq> SIGSTOP then fail Tr_No_Initial_Stop else ret ())"

definition start_command :: "run_env \<Rightarrow> unit tr" where
  "start_command env =
     bind_tr (launch_tracee env) (\<lambda>child.
     seq_tr (updating (\<lambda>c. c\<lparr>root_tid := child\<rparr>))
     (seq_tr (add_tracee child child False False)
     (seq_tr wait_for_initial_stop
     (seq_tr (set_tracee child (\<lambda>tr. tr\<lparr>in_ptrace_stop := True, phase := SG_TRACEE_STOPPED\<rparr>))
     (seq_tr (on_error (install_ptrace_options child) (set_tracee child (\<lambda>tr. tr\<lparr>options_installed := False\<rparr>)))
       (set_tracee child (\<lambda>tr. tr\<lparr>options_installed := True\<rparr>)))))))"

definition install_shutdown_handlers :: "run_env \<Rightarrow> unit tr" where
  "install_shutdown_handlers env =
     seq_tr (updating (\<lambda>c. c\<lparr>shutdown_signal := 0\<rparr>))
       (if \<not> sigint_installed env then fail Tr_Handlers
        else if \<not> sigterm_installed env then fail Tr_Handlers
        else ret ())"

section \<open>Letting the tracees go\<close>

definition release_all_tracees :: "trace_context \<Rightarrow> trace_context" where
  "release_all_tracees c = c\<lparr>ctx_tracees := sg_tracee_table_destroy (ctx_tracees c)\<rparr>"

text \<open>The wait at the end of \<open>kill_all_tracees\<close>, until there is no child left.\<close>

fun reap_all :: "wait_return list \<Rightarrow> wait_return list" where
  "reap_all [] = []"
| "reap_all (r # rs) =
     (case waited_for r of
        Inl errno \<Rightarrow> if errno = EINTR then reap_all rs else rs
      | Inr (waited, s) \<Rightarrow> if waited > 0 then reap_all rs else rs)"

definition kill_all_tracees :: "unit tr" where
  "kill_all_tracees =
     seq_tr (updating (\<lambda>c. fold (\<lambda>t. log_kill t SIGKILL) (occupied_tids (slots (ctx_tracees c))) c))
     (bind_tr (reading root_tid) (\<lambda>root.
      bind_tr (find_tracee root) (\<lambda>found.
      seq_tr (if root > 0 \<and> found = None then updating (log_kill root SIGKILL) else ret ())
        (updating (\<lambda>c. c\<lparr>ctx_world := (ctx_world c)\<lparr>wait_answers := reap_all (wait_answers (ctx_world c))\<rparr>\<rparr>)))))"

text \<open>A store into the slot of an index.\<close>

definition set_slot :: "nat \<Rightarrow> (sg_tracee \<Rightarrow> sg_tracee) \<Rightarrow> unit tr" where
  "set_slot i f =
     updating (\<lambda>c. let tb = ctx_tracees c; s = slots tb ! i
       in c\<lparr>ctx_tracees := tb\<lparr>slots := (slots tb)[i := s\<lparr>slot_tracee := f (slot_tracee s)\<rparr>]\<rparr>\<rparr>)"

definition interrupt_slot :: "nat \<Rightarrow> unit tr" where
  "interrupt_slot i =
     bind_tr (reading (\<lambda>c. slots (ctx_tracees c) ! i)) (\<lambda>s.
       if slot_state s \<noteq> SG_TRACEE_SLOT_OCCUPIED \<or> in_ptrace_stop (slot_tracee s) then ret ()
       else bind_tr (measured_ptrace (PT_INTERRUPT (tid (slot_tracee s)))) (\<lambda>a.
         if a = Some ESRCH then set_slot i (\<lambda>tr. tr\<lparr>phase := SG_TRACEE_GONE\<rparr>) else ret ()))"

text \<open>The signal that a tracee stopped with is passed on, unless the stop was one of the tracer's own.\<close>

definition detach_signal :: "wait_status \<Rightarrow> int" where
  "detach_signal s =
     (if WIFSTOPPED s \<and> WSTOPSIG s \<noteq> SYSCALL_STOP \<and> \<not> (WSTOPSIG s = SIGTRAP \<and> drop_bit 16 s \<noteq> 0)
      then WSTOPSIG s else 0)"

definition detach_slot :: "nat \<Rightarrow> unit tr" where
  "detach_slot i =
     bind_tr (reading (\<lambda>c. slots (ctx_tracees c) ! i)) (\<lambda>s.
       let tr = slot_tracee s; let_go = (\<lambda>sig. bind_tr (measured_ptrace (PT_DETACH (tid tr) sig)) (\<lambda>_. ret ()))
       in if slot_state s \<noteq> SG_TRACEE_SLOT_OCCUPIED \<or> phase tr = SG_TRACEE_GONE then ret ()
          else if in_ptrace_stop tr then let_go (pending_signal tr)
          else bind_tr wait_steadily (\<lambda>a.
            case a of
              Inl errno \<Rightarrow> ret ()
            | Inr (waited, st) \<Rightarrow> if WIFEXITED st \<or> WIFSIGNALED st then ret () else let_go (detach_signal st)))"

fun for_slots :: "(nat \<Rightarrow> unit tr) \<Rightarrow> nat list \<Rightarrow> unit tr" where
  "for_slots f [] = ret ()"
| "for_slots f (i # is) = seq_tr (f i) (for_slots f is)"

definition interrupt_running_tracees :: "unit tr" where
  "interrupt_running_tracees =
     bind_tr (reading (\<lambda>c. length (slots (ctx_tracees c)))) (\<lambda>n. for_slots interrupt_slot [0..<n])"

definition detach_all_tracees :: "unit tr" where
  "detach_all_tracees =
     seq_tr interrupt_running_tracees
     (bind_tr (reading (\<lambda>c. length (slots (ctx_tracees c)))) (\<lambda>n. for_slots detach_slot [0..<n]))"

section \<open>Benchmark metrics\<close>

definition metrics_line :: "trace_context \<Rightarrow> string" where
  "metrics_line c = ''events='' @ dec_nat (unat (event_count c)) @ '' ptrace_calls='' @
     dec_nat (unat (ptrace_call_count (ctx_world c))) @ [CHR 0x0A]"

text \<open>The metrics go to a descriptor named by the environment; \<open>Some\<close> with the text when they are written.\<close>

definition write_benchmark_metrics :: "run_env \<Rightarrow> trace_context \<Rightarrow> trace_error + string option" where
  "write_benchmark_metrics env c =
     (case benchmark_fd env of
        None \<Rightarrow> Inr None
      | Some text \<Rightarrow>
          if text = [] then Inr None
          else case strtol text of (d, rest, erange) \<Rightarrow>
            if erange \<or> rest = text \<or> rest \<noteq> [] \<or> d < 0 \<or> d > INT_MAX then Inl Tr_Benchmark
            else if \<not> dprintf_ok env then Inl Tr_Benchmark
            else Inr (Some (metrics_line c)))"

section \<open>The run\<close>

text \<open>The output stream, and whether it is a file of the run's own and not \<open>stderr\<close>.\<close>

definition open_output :: "run_env \<Rightarrow> string option \<Rightarrow> trace_error + stream" where
  "open_output env path =
     (case path of
        None \<Rightarrow> Inr (stderr_stream env)
      | Some p \<Rightarrow>
          (case opened env of
             Inl descriptor \<Rightarrow> Inl (if descriptor then Tr_Output_Stream else Tr_Open_Output)
           | Inr st \<Rightarrow> Inr st))"

definition initial_context :: "run_env \<Rightarrow> sg_config \<Rightarrow> stream \<Rightarrow> world \<Rightarrow> trace_context" where
  "initial_context env config st w =
     (let d = \<lparr>dec_string_limit = string_limit config,
               memory_read = Some (read_tracee_memory (first_memory env))\<rparr>;
          tids = follow config \<or> cfg_mode config = SG_RUN_ATTACH
      in \<lparr>ctx_config = config, ctx_tracees = sg_tracee_table_init, ctx_decoder = d,
          ctx_output = \<lparr>out_stream = st, out_decoder = d, out_format = cfg_format config, unfinished_tids = [],
            unfinished_count = 0, unfinished_capacity = 0, show_tids = tids, out_summary = summary config\<rparr>,
          ctx_stats = sg_stats_init, root_tid = 0, root_status = 0, root_status_known = False,
          root_exec_observed = False, ctx_show_tids = tids, event_count = 0, shutdown_signal = 0,
          ctx_world = w\<lparr>ptrace_call_count := 0\<rparr>\<rparr>)"

text \<open>The result of an operation of the output as one of the tracer.\<close>

definition output_step :: "(heap \<Rightarrow> sg_output \<Rightarrow> out_result) \<Rightarrow> unit tr" where
  "output_step f c =
     (case f (w_heap (ctx_world c)) (ctx_output c) of
        None \<Rightarrow> None
      | Some (e, h, out) \<Rightarrow>
          Some (case e of None \<Rightarrow> Inr () | Some err \<Rightarrow> Inl (Tr_Output err),
                c\<lparr>ctx_output := out, ctx_world := (ctx_world c)\<lparr>w_heap := h\<rparr>\<rparr>))"

definition start_output :: "unit tr" where
  "start_output =
     bind_tr (reading id) (\<lambda>c.
       output_step (\<lambda>h out. sg_output_init h (out_stream out) (cfg_format (ctx_config c)) (ctx_decoder c)
                              (ctx_show_tids c) (summary (ctx_config c))))"

definition run_tracees :: "libc \<Rightarrow> run_env \<Rightarrow> int tr" where
  "run_tracees lc env =
     bind_tr (reading (\<lambda>c. cfg_mode (ctx_config c))) (\<lambda>mode.
     seq_tr (if mode = SG_RUN_LAUNCH then start_command env else prepare_attach (exe_header env))
     (seq_tr (install_shutdown_handlers env) (trace_loop lc)))"

definition clean_up :: "bool \<Rightarrow> unit tr" where
  "clean_up success =
     bind_tr (reading (\<lambda>c. (shutdown_signal c, cfg_mode (ctx_config c)))) (\<lambda>(sig, mode).
     seq_tr (if sig \<noteq> 0 \<or> \<not> success
             then (if mode = SG_RUN_ATTACH then detach_all_tracees else kill_all_tracees)
             else ret ())
       (updating (\<lambda>c. release_all_tracees (c\<lparr>shutdown_signal := 0\<rparr>))))"

definition finish_output :: "run_env \<Rightarrow> string option tr" where
  "finish_output env =
     bind_tr (reading ctx_stats) (\<lambda>stats.
     seq_tr (output_step (\<lambda>h out. sg_output_write_summary h out stats))
     (seq_tr (output_step (\<lambda>h out. case sg_output_finish out of (e, out') \<Rightarrow> Some (e, h, out')))
       (bind_tr (reading (write_benchmark_metrics env)) (\<lambda>r. case r of Inl e \<Rightarrow> fail e | Inr m \<Rightarrow> ret m))))"

text \<open>
  The run from the start of the tracees on: the clean-up follows in every case, the end of the
  output only after a success. The result is the command status with the text of the metrics.
\<close>

definition run_and_clean :: "libc \<Rightarrow> run_env \<Rightarrow> (int \<times> string option) tr" where
  "run_and_clean lc env c =
     (case run_tracees lc env c of
        None \<Rightarrow> None
      | Some (Inl e, c1) \<Rightarrow> bind_tr (clean_up False) (\<lambda>_. fail e) c1
      | Some (Inr s, c1) \<Rightarrow>
          seq_tr (clean_up True) (bind_tr (finish_output env) (\<lambda>m. ret (s, m))) c1)"

definition destroy_all :: "trace_context \<Rightarrow> trace_context" where
  "destroy_all c = c\<lparr>ctx_output := sg_output_destroy (ctx_output c), ctx_stats := sg_stats_destroy (ctx_stats c)\<rparr>"

definition close_output :: "run_env \<Rightarrow> (int \<times> string option) tr \<Rightarrow> (int \<times> string option) tr" where
  "close_output env m c =
     map_option (\<lambda>(r, c'). (if output_path (ctx_config c') \<noteq> None \<and> \<not> fclose_ok env \<and> \<not> isl r
                            then Inl Tr_Close_Output else r, destroy_all c')) (m c)"

text \<open>
  \<open>sg_trace_run\<close>: the result, and the context at its end once there is one. The configuration is
  \<open>None\<close> for a null pointer.
\<close>

definition sg_trace_run ::
    "libc \<Rightarrow> run_env \<Rightarrow> sg_config option \<Rightarrow> world \<Rightarrow> ((trace_error + int \<times> string option) \<times> trace_context option) option" where
  "sg_trace_run lc env config w =
     (case config of
        None \<Rightarrow> Some (Inl Tr_Invalid_Config, None)
      | Some config \<Rightarrow>
          if \<not> validate_runtime_options config then Some (Inl Tr_Json_Events, None)
          else case open_output env (output_path config) of
                 Inl e \<Rightarrow> Some (Inl e, None)
               | Inr st \<Rightarrow>
                   (case start_output (initial_context env config st w) of
                      None \<Rightarrow> None
                    | Some (Inl e, c) \<Rightarrow> Some (Inl e, Some (c\<lparr>ctx_stats := sg_stats_destroy (ctx_stats c)\<rparr>))
                    | Some (Inr _, c) \<Rightarrow>
                        map_option (\<lambda>(r, c'). (r, Some c')) (close_output env (run_and_clean lc env) c)))"

text \<open>\<open>main\<close>: the exit status, and what the program has to tell the user before.\<close>

datatype message = No_Message | Usage | Version | Bad_Usage cli_error | Run_Error trace_error

definition main :: "libc \<Rightarrow> run_env \<Rightarrow> string list \<Rightarrow> world \<Rightarrow> (int \<times> message) option" where
  "main lc env argv w =
     (case sg_cli_parse argv of
        (SG_CLI_HELP, _) \<Rightarrow> Some (0, Usage)
      | (SG_CLI_VERSION, _) \<Rightarrow> Some (0, Version)
      | (SG_CLI_ERROR e, _) \<Rightarrow> Some (2, Bad_Usage e)
      | (SG_CLI_RUN, config) \<Rightarrow>
          (case sg_trace_run lc env (Some config) w of
             None \<Rightarrow> None
           | Some (Inl e, _) \<Rightarrow> Some (1, Run_Error e)
           | Some (Inr (s, _), _) \<Rightarrow> Some (s, No_Message)))"

end
