(* ===== verification/Trace_Cleanup.thy ===== *)
theory Trace_Cleanup
  imports Trace_Run
begin

text \<open>
  The clean-up at the end of a run (\<open>kill_all_tracees\<close>, \<open>detach_all_tracees\<close> of \<open>src/trace.c\<close>): it
  always returns, leaves the output and the statistics alone and lets every tracee go.
\<close>

section \<open>What the clean-up leaves alone\<close>

text \<open>
  \<open>lets_go c c'\<close>: from \<open>c\<close> to \<open>c'\<close> requests were added and slots of running tracees changed, and
  nothing that the end of the run reads.
\<close>

definition lets_go :: "trace_context \<Rightarrow> trace_context \<Rightarrow> bool" where
  "lets_go c c' \<longleftrightarrow> ctx_output c' = ctx_output c \<and> ctx_stats c' = ctx_stats c \<and> ctx_config c' = ctx_config c \<and>
     emitted (ctx_world c') = emitted (ctx_world c) \<and> set (requests (ctx_world c)) \<subseteq> set (requests (ctx_world c')) \<and>
     length (slots (ctx_tracees c')) = length (slots (ctx_tracees c)) \<and>
     (\<forall>i < length (slots (ctx_tracees c)). in_ptrace_stop (slot_tracee (slots (ctx_tracees c) ! i)) \<longrightarrow>
        slots (ctx_tracees c') ! i = slots (ctx_tracees c) ! i)"

lemma lets_go_refl [simp]: "lets_go c c"
  by (simp add: lets_go_def)

lemma lets_go_trans [trans]: "lets_go c c1 \<Longrightarrow> lets_go c1 c2 \<Longrightarrow> lets_go c c2"
  by (auto simp: lets_go_def)

text \<open>One step for each slot: a fact about the slot and the requests, once true, stays true.\<close>

lemma for_slots_each:
  assumes step: "\<And>i c. i < length (slots (ctx_tracees c)) \<Longrightarrow>
      \<exists>c'. f i c = Some (Inr (), c') \<and> lets_go c c' \<and>
        (\<forall>j. j \<noteq> i \<longrightarrow> slots (ctx_tracees c') ! j = slots (ctx_tracees c) ! j) \<and>
        R (slots (ctx_tracees c) ! i) (set (requests (ctx_world c')))"
    and mono: "\<And>s A B. R s A \<Longrightarrow> A \<subseteq> B \<Longrightarrow> R s B"
  shows "distinct is \<Longrightarrow> set is \<subseteq> {..<length (slots (ctx_tracees c))} \<Longrightarrow>
    \<exists>c'. for_slots f is c = Some (Inr (), c') \<and> lets_go c c' \<and>
      (\<forall>i \<in> set is. R (slots (ctx_tracees c) ! i) (set (requests (ctx_world c'))))"
proof (induction "is" arbitrary: c)
  case Nil
  then show ?case by (simp add: ret_def)
next
  case (Cons i "is")
  obtain c1 where c1: "f i c = Some (Inr (), c1)" "lets_go c c1"
      "\<And>j. j \<noteq> i \<Longrightarrow> slots (ctx_tracees c1) ! j = slots (ctx_tracees c) ! j"
      "R (slots (ctx_tracees c) ! i) (set (requests (ctx_world c1)))"
    using step [of i c] Cons.prems by auto
  have "set is \<subseteq> {..<length (slots (ctx_tracees c1))}" using Cons.prems c1(2) by (simp add: lets_go_def)
  then obtain c2 where c2: "for_slots f is c1 = Some (Inr (), c2)" "lets_go c1 c2"
      "\<forall>j \<in> set is. R (slots (ctx_tracees c1) ! j) (set (requests (ctx_world c2)))"
    using Cons.IH [of c1] Cons.prems by auto
  have "R (slots (ctx_tracees c) ! i) (set (requests (ctx_world c2)))"
    using mono [OF c1(4)] c2(2) by (simp add: lets_go_def)
  moreover have "R (slots (ctx_tracees c) ! j) (set (requests (ctx_world c2)))" if "j \<in> set is" for j
    using bspec [OF c2(3) that] c1(3) [of j] that Cons.prems(1) by (cases "j = i") simp_all
  ultimately show ?case
    using c1(1) c2(1) lets_go_trans [OF c1(2) c2(2)] by (simp add: seq_tr_def bind_tr_def)
qed

section \<open>Detaching\<close>

lemma ask_runs:
  "\<exists>a c'. measured_ptrace r c = Some (Inr a, c') \<and> lets_go c c' \<and> ctx_tracees c' = ctx_tracees c \<and>
     r \<in> set (requests (ctx_world c'))"
  by (auto simp: measured_ptrace_def Let_def lets_go_def split: prod.split)

lemma interrupt_slot_runs:
  assumes "i < length (slots (ctx_tracees c))"
  shows "\<exists>c'. interrupt_slot i c = Some (Inr (), c') \<and> lets_go c c' \<and>
     (\<forall>j. j \<noteq> i \<longrightarrow> slots (ctx_tracees c') ! j = slots (ctx_tracees c) ! j) \<and>
     (slot_state (slots (ctx_tracees c) ! i) = SG_TRACEE_SLOT_OCCUPIED \<longrightarrow>
      \<not> in_ptrace_stop (slot_tracee (slots (ctx_tracees c) ! i)) \<longrightarrow>
        PT_INTERRUPT (tid (slot_tracee (slots (ctx_tracees c) ! i))) \<in> set (requests (ctx_world c')))"
proof -
  let ?s = "slots (ctx_tracees c) ! i"
  obtain a c1 where a: "measured_ptrace (PT_INTERRUPT (tid (slot_tracee ?s))) c = Some (Inr a, c1)" "lets_go c c1"
      "ctx_tracees c1 = ctx_tracees c" "PT_INTERRUPT (tid (slot_tracee ?s)) \<in> set (requests (ctx_world c1))"
    using ask_runs by blast
  show ?thesis
  proof (cases "slot_state ?s \<noteq> SG_TRACEE_SLOT_OCCUPIED \<or> in_ptrace_stop (slot_tracee ?s)")
    case True
    then show ?thesis by (intro exI [of _ c]) (auto simp: interrupt_slot_def bind_tr_def reading_def ret_def)
  next
    case False
    then have run: "interrupt_slot i c = (if a = Some ESRCH then set_slot i (\<lambda>tr. tr\<lparr>phase := SG_TRACEE_GONE\<rparr>) else ret ()) c1"
      using a(1) by (simp add: interrupt_slot_def bind_tr_def reading_def)
    then show ?thesis
      using a(2-4) False assms
      by (auto simp: set_slot_def updating_def ret_def Let_def lets_go_def nth_list_update)
  qed
qed

lemma wait_steadily_runs:
  "\<exists>a c'. wait_steadily c = Some (Inr a, c') \<and> lets_go c c' \<and> ctx_tracees c' = ctx_tracees c"
  by (auto simp: wait_steadily_def Let_def lets_go_def split: prod.split)

definition detached_as :: "sg_tracee_slot \<Rightarrow> ptrace_request set \<Rightarrow> bool" where
  "detached_as s A \<longleftrightarrow>
     (slot_state s = SG_TRACEE_SLOT_OCCUPIED \<longrightarrow> in_ptrace_stop (slot_tracee s) \<longrightarrow>
      phase (slot_tracee s) \<noteq> SG_TRACEE_GONE \<longrightarrow>
        PT_DETACH (tid (slot_tracee s)) (pending_signal (slot_tracee s)) \<in> A)"

lemma detach_slot_runs:
  "\<exists>c'. detach_slot i c = Some (Inr (), c') \<and> lets_go c c' \<and> ctx_tracees c' = ctx_tracees c \<and>
     detached_as (slots (ctx_tracees c) ! i) (set (requests (ctx_world c')))"
proof -
  let ?s = "slots (ctx_tracees c) ! i"
  have go: "\<exists>c2. bind_tr (measured_ptrace (PT_DETACH t sig)) (\<lambda>_. ret ()) c1 = Some (Inr (), c2) \<and> lets_go c c2 \<and>
      ctx_tracees c2 = ctx_tracees c \<and> PT_DETACH t sig \<in> set (requests (ctx_world c2))"
    if "lets_go c c1" "ctx_tracees c1 = ctx_tracees c" for t sig c1
    using ask_runs [of "PT_DETACH t sig" c1] that lets_go_trans [OF that(1)] by (auto simp: bind_tr_def ret_def)
  consider (skip) "slot_state ?s \<noteq> SG_TRACEE_SLOT_OCCUPIED \<or> phase (slot_tracee ?s) = SG_TRACEE_GONE"
    | (stopped) "slot_state ?s = SG_TRACEE_SLOT_OCCUPIED" "phase (slot_tracee ?s) \<noteq> SG_TRACEE_GONE" "in_ptrace_stop (slot_tracee ?s)"
    | (running) "slot_state ?s = SG_TRACEE_SLOT_OCCUPIED" "phase (slot_tracee ?s) \<noteq> SG_TRACEE_GONE" "\<not> in_ptrace_stop (slot_tracee ?s)"
    by blast
  then show ?thesis
  proof cases
    case skip
    then show ?thesis
      by (intro exI [of _ c]) (auto simp: detach_slot_def bind_tr_def reading_def ret_def Let_def detached_as_def)
  next
    case stopped
    then show ?thesis
      using go [OF lets_go_refl refl, of "tid (slot_tracee ?s)" "pending_signal (slot_tracee ?s)"]
      by (simp add: detach_slot_def bind_tr_def [of "reading _"] reading_def Let_def detached_as_def)
  next
    case running
    obtain a c1 where a: "wait_steadily c = Some (Inr a, c1)" "lets_go c c1" "ctx_tracees c1 = ctx_tracees c"
      using wait_steadily_runs by blast
    then show ?thesis
      using go [OF a(2,3), of "tid (slot_tracee ?s)"] running
      by (auto simp: detach_slot_def bind_tr_def [of "reading _"] bind_tr_def [of wait_steadily] reading_def
          Let_def detached_as_def ret_def split: sum.split)
  qed
qed

text \<open>The whole of it, slot by slot.\<close>

lemma interrupt_running_runs:
  "\<exists>c'. interrupt_running_tracees c = Some (Inr (), c') \<and> lets_go c c' \<and>
     (\<forall>s \<in> set (slots (ctx_tracees c)). slot_state s = SG_TRACEE_SLOT_OCCUPIED \<longrightarrow>
        \<not> in_ptrace_stop (slot_tracee s) \<longrightarrow> PT_INTERRUPT (tid (slot_tracee s)) \<in> set (requests (ctx_world c')))"
proof -
  let ?R = "\<lambda>s A. slot_state s = SG_TRACEE_SLOT_OCCUPIED \<longrightarrow> \<not> in_ptrace_stop (slot_tracee s) \<longrightarrow>
    PT_INTERRUPT (tid (slot_tracee s)) \<in> A"
  have "\<exists>c'. for_slots interrupt_slot [0..<length (slots (ctx_tracees c))] c = Some (Inr (), c') \<and> lets_go c c' \<and>
     (\<forall>i \<in> set [0..<length (slots (ctx_tracees c))]. ?R (slots (ctx_tracees c) ! i) (set (requests (ctx_world c'))))"
    by (rule for_slots_each [where R = ?R]) (use interrupt_slot_runs in blast, blast, simp_all add: atLeast0LessThan)
  then show ?thesis
    by (auto simp: interrupt_running_tracees_def bind_tr_def reading_def in_set_conv_nth)
qed

lemma detach_all_runs:
  "\<exists>c'. detach_all_tracees c = Some (Inr (), c') \<and> lets_go c c' \<and>
     (\<forall>s \<in> set (slots (ctx_tracees c)). slot_state s = SG_TRACEE_SLOT_OCCUPIED \<longrightarrow>
        (if in_ptrace_stop (slot_tracee s)
         then phase (slot_tracee s) \<noteq> SG_TRACEE_GONE \<longrightarrow>
           PT_DETACH (tid (slot_tracee s)) (pending_signal (slot_tracee s)) \<in> set (requests (ctx_world c'))
         else PT_INTERRUPT (tid (slot_tracee s)) \<in> set (requests (ctx_world c'))))"
proof -
  obtain c1 where c1: "interrupt_running_tracees c = Some (Inr (), c1)" "lets_go c c1"
      "\<forall>s \<in> set (slots (ctx_tracees c)). slot_state s = SG_TRACEE_SLOT_OCCUPIED \<longrightarrow>
        \<not> in_ptrace_stop (slot_tracee s) \<longrightarrow> PT_INTERRUPT (tid (slot_tracee s)) \<in> set (requests (ctx_world c1))"
    using interrupt_running_runs by blast
  let ?n = "length (slots (ctx_tracees c1))"
  have "\<exists>c'. for_slots detach_slot [0..<?n] c1 = Some (Inr (), c') \<and> lets_go c1 c' \<and>
     (\<forall>i \<in> set [0..<?n]. detached_as (slots (ctx_tracees c1) ! i) (set (requests (ctx_world c'))))"
  proof (rule for_slots_each [where R = detached_as])
    show "\<exists>c'. detach_slot i c = Some (Inr (), c') \<and> lets_go c c' \<and>
        (\<forall>j. j \<noteq> i \<longrightarrow> slots (ctx_tracees c') ! j = slots (ctx_tracees c) ! j) \<and>
        detached_as (slots (ctx_tracees c) ! i) (set (requests (ctx_world c')))" for i c
      using detach_slot_runs [of i c] by force
  qed (auto simp: detached_as_def)
  then obtain c2 where c2: "for_slots detach_slot [0..<?n] c1 = Some (Inr (), c2)" "lets_go c1 c2"
      "\<And>i. i < ?n \<Longrightarrow> detached_as (slots (ctx_tracees c1) ! i) (set (requests (ctx_world c2)))"
    by auto
  have "PT_DETACH (tid (slot_tracee s)) (pending_signal (slot_tracee s)) \<in> set (requests (ctx_world c2))"
    if s: "s \<in> set (slots (ctx_tracees c))" "slot_state s = SG_TRACEE_SLOT_OCCUPIED" "in_ptrace_stop (slot_tracee s)"
      "phase (slot_tracee s) \<noteq> SG_TRACEE_GONE" for s
  proof -
    obtain i where i: "i < length (slots (ctx_tracees c))" "s = slots (ctx_tracees c) ! i"
      using s(1) by (auto simp: in_set_conv_nth)
    then have "slots (ctx_tracees c1) ! i = s" "i < ?n" using c1(2) s(3) by (simp_all add: lets_go_def)
    then show ?thesis using c2(3) [of i] s(2-4) by (simp add: detached_as_def)
  qed
  moreover have "PT_INTERRUPT (tid (slot_tracee s)) \<in> set (requests (ctx_world c2))"
    if "s \<in> set (slots (ctx_tracees c))" "slot_state s = SG_TRACEE_SLOT_OCCUPIED" "\<not> in_ptrace_stop (slot_tracee s)" for s
    using c1(3) c2(2) that by (auto simp: lets_go_def)
  ultimately show ?thesis
    using c1(1) c2(1) lets_go_trans [OF c1(2) c2(2)]
    by (simp add: detach_all_tracees_def seq_tr_def bind_tr_def reading_def)
qed

section \<open>Killing\<close>

lemma fold_log_kill:
  "fold (\<lambda>t. log_kill t sig) ts c =
     c\<lparr>ctx_world := (ctx_world c)\<lparr>requests := requests (ctx_world c) @ map (\<lambda>t. KILL t sig) ts\<rparr>\<rparr>"
  by (induction ts arbitrary: c) (simp_all add: log_kill_def)

lemma kill_all_runs:
  assumes "tracer_inv c"
  shows "\<exists>c' ts. kill_all_tracees c = Some (Inr (), c') \<and> lets_go c c' \<and>
    requests (ctx_world c') = requests (ctx_world c) @ map (\<lambda>t. KILL t SIGKILL) ts \<and> distinct ts \<and>
    set ts = dom (tracee_map c) \<union> (if 0 < root_tid c then {root_tid c} else {})"
proof -
  have wf: "table_wf (ctx_tracees c)" using assms by (simp add: tracer_inv_def tracees_ok_def)
  define ts where "ts = occupied_tids (slots (ctx_tracees c))"
  define us where "us = (if 0 < root_tid c \<and> tracee_map c (root_tid c) = None then [root_tid c] else [])"
  have "distinct (ts @ us)" "set (ts @ us) = dom (tracee_map c) \<union> (if 0 < root_tid c then {root_tid c} else {})"
    using occupied_dom [OF wf] distinct_occupied [OF wf_distinct_tids [OF wf]] by (auto simp: ts_def us_def)
  moreover have "kill_all_tracees c = Some (Inr (), c\<lparr>ctx_world := (ctx_world c)\<lparr>
      requests := requests (ctx_world c) @ map (\<lambda>t. KILL t SIGKILL) (ts @ us),
      wait_answers := reap_all (wait_answers (ctx_world c))\<rparr>\<rparr>)"
    using inv_get [OF assms, of "root_tid c"]
    by (simp add: kill_all_tracees_def seq_tr_def bind_tr_def updating_def reading_def find_tracee_def fold_log_kill
        log_kill_def us_def ret_def ts_def)
  ultimately show ?thesis by (intro exI [of _ "ts @ us"] exI conjI) (auto simp: lets_go_def)
qed

section \<open>The clean-up\<close>

definition same_results :: "trace_context \<Rightarrow> trace_context \<Rightarrow> bool" where
  "same_results c c' \<longleftrightarrow> ctx_output c' = ctx_output c \<and> ctx_stats c' = ctx_stats c \<and>
     ctx_config c' = ctx_config c \<and> emitted (ctx_world c') = emitted (ctx_world c)"

definition released :: "trace_context \<Rightarrow> trace_context" where
  "released c = release_all_tracees (c\<lparr>shutdown_signal := 0\<rparr>)"

lemma released_simps [simp]:
  "ctx_tracees (released c) = sg_tracee_table_init" "ctx_world (released c) = ctx_world c"
  "shutdown_signal (released c) = 0" "same_results c (released c)"
  by (simp_all add: released_def release_all_tracees_def sg_tracee_table_destroy_def same_results_def)

text \<open>What the clean-up does between its guard and the release of the table.\<close>

lemma clean_up_by:
  assumes "(if shutdown_signal c \<noteq> 0 \<or> \<not> success
      then (if cfg_mode (ctx_config c) = SG_RUN_ATTACH then detach_all_tracees else kill_all_tracees)
      else ret ()) c = Some (Inr (), c1)"
  shows "clean_up success c = Some (Inr (), released c1)"
  using assms unfolding clean_up_def bind_tr_def reading_def seq_tr_def updating_def released_def by simp

lemma clean_up_runs:
  assumes "tracer_inv c"
  shows "\<exists>c'. clean_up success c = Some (Inr (), c') \<and> same_results c c'"
proof -
  consider "\<not> (shutdown_signal c \<noteq> 0 \<or> \<not> success)" | "cfg_mode (ctx_config c) = SG_RUN_ATTACH" | "cfg_mode (ctx_config c) \<noteq> SG_RUN_ATTACH"
    by blast
  then have "\<exists>c1. (if shutdown_signal c \<noteq> 0 \<or> \<not> success
      then (if cfg_mode (ctx_config c) = SG_RUN_ATTACH then detach_all_tracees else kill_all_tracees)
      else ret ()) c = Some (Inr (), c1) \<and> lets_go c c1"
    using detach_all_runs [of c] kill_all_runs [OF assms] by cases (auto simp: ret_def)
  then obtain c1 where "(if shutdown_signal c \<noteq> 0 \<or> \<not> success
      then (if cfg_mode (ctx_config c) = SG_RUN_ATTACH then detach_all_tracees else kill_all_tracees)
      else ret ()) c = Some (Inr (), c1)" "lets_go c c1"
    by blast
  then show ?thesis using clean_up_by [of c success c1] released_simps(4) [of c1]
    by (auto simp: lets_go_def same_results_def)
qed

section \<open>Properties\<close>

text \<open>
  C5. The clean-up of a launched command: after an error or a shutdown signal every thread of the
  table, and the root if it is not in the table any more, is sent \<open>SIGKILL\<close> once, and nothing
  else is asked of the kernel; after an orderly end nobody is killed. Either way the clean-up
  returns, the table is empty then, and the output and the statistics are as the run left them.
\<close>

theorem launched_tracees_killed:
  assumes "tracer_inv c" and "cfg_mode (ctx_config c) = SG_RUN_LAUNCH"
  shows "\<exists>c' ts. clean_up success c = Some (Inr (), c') \<and>
    requests (ctx_world c') = requests (ctx_world c) @ map (\<lambda>t. KILL t SIGKILL) ts \<and> distinct ts \<and>
    set ts = (if \<not> success \<or> shutdown_signal c \<noteq> 0
              then dom (tracee_map c) \<union> (if 0 < root_tid c then {root_tid c} else {}) else {}) \<and>
    ctx_tracees c' = sg_tracee_table_init \<and> same_results c c'"
proof (cases "\<not> success \<or> shutdown_signal c \<noteq> 0")
  case True
  obtain c1 ts where k: "kill_all_tracees c = Some (Inr (), c1)" "lets_go c c1"
      "requests (ctx_world c1) = requests (ctx_world c) @ map (\<lambda>t. KILL t SIGKILL) ts" "distinct ts"
      "set ts = dom (tracee_map c) \<union> (if 0 < root_tid c then {root_tid c} else {})"
    using kill_all_runs [OF assms(1)] by blast
  have "clean_up success c = Some (Inr (), released c1)"
    using True k(1) assms(2) by (intro clean_up_by) auto
  then show ?thesis
    using True k(2-5) released_simps(4) [of c1]
    by (intro exI [of _ "released c1"] exI [of _ ts]) (auto simp: lets_go_def same_results_def)
next
  case False
  then have "clean_up success c = Some (Inr (), released c)" by (intro clean_up_by) (simp add: ret_def)
  with False show ?thesis by (intro exI [of _ "released c"] exI [of _ "[]"]) auto
qed

theorem launched_tracees_killed_witness:
  "\<exists>tb c'. tracee_map (demo_context SG_FORMAT_TEXT tb) = [41 \<mapsto> fresh_tracee 41 40 True] \<and>
     clean_up False (demo_context SG_FORMAT_TEXT tb) = Some (Inr (), c') \<and>
     KILL 41 SIGKILL \<in> set (requests (ctx_world c')) \<and> ctx_tracees c' = sg_tracee_table_init"
proof -
  obtain tb where tb: "table_wf tb" "table_map tb = [41 \<mapsto> fresh_tracee 41 40 True]"
    using one_entry_table by blast
  let ?c = "demo_context SG_FORMAT_TEXT tb"
  have c: "tracer_inv ?c" using demo_context_inv [OF tb] by blast
  have d: "cfg_mode (ctx_config ?c) = SG_RUN_LAUNCH" "tracee_map ?c = [41 \<mapsto> fresh_tracee 41 40 True]"
    using tb(2) by (simp_all add: demo_context_def config_init_def Let_def)
  from launched_tracees_killed [OF c d(1), of False] d(2) show ?thesis by fastforce
qed

text \<open>
  C6. The clean-up after an attach, when the run failed or a shutdown signal came: every tracee of
  the table that is in a ptrace stop is detached with the signal it had stopped for, so that the
  signal is not lost, and every other one is asked to stop so that it can be detached. The
  clean-up returns, the table is empty then, and the output and the statistics are untouched.
\<close>

theorem attached_tracees_detached:
  assumes "tracer_inv c" and "cfg_mode (ctx_config c) = SG_RUN_ATTACH" and "\<not> success \<or> shutdown_signal c \<noteq> 0"
  shows "\<exists>c'. clean_up success c = Some (Inr (), c') \<and>
    (\<forall>t tr. tracee_map c t = Some tr \<longrightarrow>
       (if in_ptrace_stop tr
        then phase tr \<noteq> SG_TRACEE_GONE \<longrightarrow> PT_DETACH t (pending_signal tr) \<in> set (requests (ctx_world c'))
        else PT_INTERRUPT t \<in> set (requests (ctx_world c')))) \<and>
    ctx_tracees c' = sg_tracee_table_init \<and> same_results c c'"
proof -
  have wf: "table_wf (ctx_tracees c)" using assms(1) by (simp add: tracer_inv_def tracees_ok_def)
  obtain c1 where d: "detach_all_tracees c = Some (Inr (), c1)" "lets_go c c1"
      "\<forall>s \<in> set (slots (ctx_tracees c)). slot_state s = SG_TRACEE_SLOT_OCCUPIED \<longrightarrow>
        (if in_ptrace_stop (slot_tracee s)
         then phase (slot_tracee s) \<noteq> SG_TRACEE_GONE \<longrightarrow>
           PT_DETACH (tid (slot_tracee s)) (pending_signal (slot_tracee s)) \<in> set (requests (ctx_world c1))
         else PT_INTERRUPT (tid (slot_tracee s)) \<in> set (requests (ctx_world c1)))"
    using detach_all_runs [of c] by blast
  have "clean_up success c = Some (Inr (), released c1)"
    using assms(2,3) d(1) by (intro clean_up_by) auto
  then show ?thesis
    using d(2,3) released_simps(4) [of c1]
    by (intro exI [of _ "released c1"]) (auto simp: lets_go_def same_results_def wf_slot_iff [OF wf])
qed

text \<open>A tracee that has stopped for signal 15.\<close>

definition stopped_tracee :: sg_tracee where
  "stopped_tracee = (fresh_tracee 41 40 True)\<lparr>in_ptrace_stop := True, phase := SG_TRACEE_STOPPED, pending_signal := 15\<rparr>"

theorem attached_tracees_detached_witness:
  "\<exists>c c'. tracee_map c = [41 \<mapsto> stopped_tracee] \<and> cfg_mode (ctx_config c) = SG_RUN_ATTACH \<and>
     clean_up False c = Some (Inr (), c') \<and> PT_DETACH 41 15 \<in> set (requests (ctx_world c'))"
proof -
  obtain tb where tb: "table_wf tb" "table_map tb = [41 \<mapsto> fresh_tracee 41 40 True]"
    using one_entry_table by blast
  obtain tb' where tb': "tracee_store tb 41 (\<lambda>_. stopped_tracee) = Some tb'" "table_wf tb'"
      "table_map tb' = [41 \<mapsto> stopped_tracee]"
    using tracee_store_correct [OF tb(1), of 41 _ "\<lambda>_. stopped_tracee"] tb(2)
    by (auto simp: stopped_tracee_def fresh_tracee_def)
  let ?old = "demo_context SG_FORMAT_TEXT tb"
  let ?c = "?old\<lparr>ctx_tracees := tb', ctx_config := (ctx_config ?old)\<lparr>cfg_mode := SG_RUN_ATTACH\<rparr>,
    ctx_output := (ctx_output ?old)\<lparr>show_tids := True\<rparr>\<rparr>"
  have "tracer_inv ?old" using demo_context_inv [OF tb] by blast
  moreover have "tracees_ok tb'"
    using tb' by (simp add: tracees_ok_def stopped_tracee_def fresh_tracee_def zero_tracee_def tracee_ok_def pid_ok_def)
  ultimately have "tracer_inv ?c" by (simp add: tracer_inv_def output_wf_def several_tracees_def)
  then obtain c' where c': "clean_up False ?c = Some (Inr (), c')" "\<forall>t tr. tracee_map ?c t = Some tr \<longrightarrow>
       (if in_ptrace_stop tr
        then phase tr \<noteq> SG_TRACEE_GONE \<longrightarrow> PT_DETACH t (pending_signal tr) \<in> set (requests (ctx_world c'))
        else PT_INTERRUPT t \<in> set (requests (ctx_world c')))"
    using attached_tracees_detached [of ?c False] by auto
  have "PT_DETACH 41 15 \<in> set (requests (ctx_world c'))"
    using c'(2) [rule_format, of 41 stopped_tracee] tb'(3) by (simp add: stopped_tracee_def)
  then show ?thesis using c'(1) tb'(3) by (intro exI [of _ ?c] exI [of _ c']) simp
qed

end
