(* ===== verification/Trace_Main.thy ===== *)
theory Trace_Main
  imports Trace_Cleanup
begin

text \<open>
  The whole program: \<open>sg_trace_run\<close> and \<open>main\<close> return for every environment, and a successful run
  leaves in its stream the records of what it saw. \<open>sound\<close> is the triple \<open>safe\<close> for operations
  that may use up returns of \<open>waitpid\<close>, for a run with the configuration \<open>cfg\<close>.
\<close>

section \<open>Sound operations\<close>

definition sound ::
    "libc \<Rightarrow> string \<Rightarrow> sg_config \<Rightarrow> int set \<Rightarrow> 'a tr \<Rightarrow> ('a \<Rightarrow> trace_context \<Rightarrow> bool) \<Rightarrow> bool" where
  "sound lc base cfg T m G \<longleftrightarrow>
     (\<forall>c. tracer_inv c \<longrightarrow> at lc base T c \<longrightarrow> ctx_config c = cfg \<longrightarrow>
        (\<exists>r c'. m c = Some (r, c') \<and> tracer_inv c' \<and> ctx_config c' = cfg \<and> (\<forall>x. r = Inr x \<longrightarrow> G x c')))"

abbreviation holds :: "libc \<Rightarrow> string \<Rightarrow> sg_config \<Rightarrow> int set \<Rightarrow> 'a tr \<Rightarrow> bool" where
  "holds lc base cfg T m \<equiv> sound lc base cfg T m (still lc base T (\<lambda>_. True))"

lemma soundI:
  assumes "\<And>c. tracer_inv c \<Longrightarrow> at lc base T c \<Longrightarrow> ctx_config c = cfg \<Longrightarrow>
    \<exists>r c'. m c = Some (r, c') \<and> tracer_inv c' \<and> ctx_config c' = cfg \<and> (\<forall>x. r = Inr x \<longrightarrow> G x c')"
  shows "sound lc base cfg T m G"
  using assms by (simp add: sound_def)

lemma soundE:
  assumes "sound lc base cfg T m G" and "tracer_inv c" and "at lc base T c" and "ctx_config c = cfg"
  obtains r c' where "m c = Some (r, c')" and "tracer_inv c'" and "ctx_config c' = cfg" and "\<And>x. r = Inr x \<Longrightarrow> G x c'"
  using assms unfolding sound_def by blast

lemma safe_sound: "safe lc base T m G \<Longrightarrow> sound lc base cfg T m G"
  by (rule soundI, erule (2) safeE) auto

lemma sound_weaken: "sound lc base cfg T m G \<Longrightarrow> (\<And>x c. G x c \<Longrightarrow> G' x c) \<Longrightarrow> sound lc base cfg T m G'"
  by (rule soundI, erule (3) soundE) blast

lemma sound_bind_at:
  assumes "sound lc base cfg T m R" and "\<And>x c. R x c \<Longrightarrow> at lc base (U x) c \<and> q x"
    and "\<And>x. q x \<Longrightarrow> sound lc base cfg (U x) (f x) G"
  shows "sound lc base cfg T (bind_tr m f) G"
proof (rule soundI)
  fix c assume c: "tracer_inv c" "at lc base T c" "ctx_config c = cfg"
  obtain r c' where m: "m c = Some (r, c')" "tracer_inv c'" "ctx_config c' = cfg" "\<And>x. r = Inr x \<Longrightarrow> R x c'"
    by (rule soundE [OF assms(1) c]) blast
  show "\<exists>r c'. bind_tr m f c = Some (r, c') \<and> tracer_inv c' \<and> ctx_config c' = cfg \<and> (\<forall>x. r = Inr x \<longrightarrow> G x c')"
  proof (cases r)
    case (Inl e)
    then show ?thesis using m by (simp add: bind_tr_def)
  next
    case (Inr x)
    then have x: "at lc base (U x) c'" "q x" using m(4) assms(2) by blast+
    obtain r2 c2 where "f x c' = Some (r2, c2)" "tracer_inv c2" "ctx_config c2 = cfg" "\<And>y. r2 = Inr y \<Longrightarrow> G y c2"
      by (rule soundE [OF assms(3) [OF x(2)] m(2) x(1) m(3)]) blast
    then show ?thesis using m(1) Inr by (simp add: bind_tr_def)
  qed
qed

lemma sound_seq:
  "holds lc base cfg T m \<Longrightarrow> sound lc base cfg T n G \<Longrightarrow> sound lc base cfg T (seq_tr m n) G"
  unfolding seq_tr_def by (erule sound_bind_at [where U = "\<lambda>_. T" and q = "\<lambda>_. True"]) (auto simp: still_def)

lemma sound_bind_reading:
  assumes "\<And>c. ctx_config c = cfg \<Longrightarrow> sound lc base cfg T (f (g c)) G"
  shows "sound lc base cfg T (bind_tr (reading g) f) G"
proof (rule soundI)
  fix c assume c: "tracer_inv c" "at lc base T c" "ctx_config c = cfg"
  show "\<exists>r c'. bind_tr (reading g) f c = Some (r, c') \<and> tracer_inv c' \<and> ctx_config c' = cfg \<and> (\<forall>x. r = Inr x \<longrightarrow> G x c')"
    by (rule soundE [OF assms [OF c(3)] c]) (simp add: bind_tr_def reading_def)
qed

lemma sound_updating:
  assumes "\<And>c. tracer_inv c \<Longrightarrow> tracer_inv (f c)" and "\<And>c. tracer_inv c \<Longrightarrow> at lc base T c \<Longrightarrow> at lc base T (f c)"
    and "\<And>c. ctx_config (f c) = ctx_config c"
  shows "holds lc base cfg T (updating f)"
  using assms by (intro soundI) (simp add: updating_def still_def)

section \<open>Starting the tracees\<close>

lemma sound_prepare_program:
  assumes "filter_wf (cfg_filter cfg)"
  shows "holds lc base cfg T prepare_program"
proof (rule soundI)
  fix c assume c: "tracer_inv c" "at lc base T c" "ctx_config c = cfg"
  obtain ok h where h: "alloc (w_heap (ctx_world c)) = (ok, h)" by fastforce
  show "\<exists>r c'. prepare_program c = Some (r, c') \<and> tracer_inv c' \<and> ctx_config c' = cfg \<and>
      (\<forall>x. r = Inr x \<longrightarrow> still lc base T (\<lambda>_. True) x c')"
    using prepare_correct [OF assms h] c by (simp add: prepare_program_def inv_heap still_def at_world)
qed

definition env_ok :: "run_env \<Rightarrow> bool" where
  "env_ok env \<longleftrightarrow> memory_ok (first_memory env) \<and> (\<forall>child. forked env = Inr child \<longrightarrow> pid_ok child)"

lemma sound_launch_tracee:
  assumes "filter_wf (cfg_filter cfg)" and "env_ok env"
  shows "sound lc base cfg T (launch_tracee env) (still lc base T pid_ok)"
  unfolding launch_tracee_def using assms(2)
  by (intro sound_seq sound_prepare_program assms(1) safe_sound)
    (auto intro!: safe_ret safe_fail simp: env_ok_def split: sum.split)

lemma skip_interrupted_rest: "skip_interrupted rs = (a, rest) \<Longrightarrow> set rest \<subseteq> set rs"
  by (induction rs) (auto split: if_splits)

lemma sound_wait_steadily: "holds lc base cfg T wait_steadily"
proof (rule soundI)
  fix c assume c: "tracer_inv c" "at lc base T c" "ctx_config c = cfg"
  obtain a rest where r: "skip_interrupted (wait_answers (ctx_world c)) = (a, rest)" by fastforce
  have "world_ok (ctx_world c)" using c(1) by (simp add: tracer_inv_def)
  then have "world_ok ((ctx_world c)\<lparr>wait_answers := rest\<rparr>)"
    using skip_interrupted_rest [OF r] by (auto simp: world_ok_def)
  then show "\<exists>ra c'. wait_steadily c = Some (ra, c') \<and> tracer_inv c' \<and> ctx_config c' = cfg \<and>
      (\<forall>x. ra = Inr x \<longrightarrow> still lc base T (\<lambda>_. True) x c')"
    using c r by (simp add: wait_steadily_def Let_def inv_world still_def at_world)
qed

lemma sound_wait_for_initial_stop: "holds lc base cfg T wait_for_initial_stop"
  unfolding wait_for_initial_stop_def
  by (rule sound_bind_at [OF sound_wait_steadily, where U = "\<lambda>_. T" and q = "\<lambda>_. True"])
    (auto simp: still_def intro!: safe_sound safe_rules split: sum.split)

lemma safe_install_options:
  assumes "t \<in> T"
  shows "keeps lc base T (on_error (install_ptrace_options t) (set_tracee t (\<lambda>tr. tr\<lparr>options_installed := False\<rparr>)))"
proof (rule safeI)
  fix c assume c: "tracer_inv c" "at lc base T c"
  let ?r = "PT_SETOPTIONS t (ptrace_options (ctx_config c) True)"
  obtain r c1 where i: "install_ptrace_options t c = Some (r, c1)" "tracer_inv c1" "same_frame c c1" "at lc base T c1"
    using ask_at [OF c, of ?r] by (auto simp: install_ptrace_options_def bind_tr_def [of "reading _"] reading_def)
  obtain r2 c2 where "set_tracee t (\<lambda>tr. tr\<lparr>options_installed := False\<rparr>) c1 = Some (r2, c2)" "tracer_inv c2" "same_frame c1 c2"
    by (rule safeE [OF safe_set_tracee [where f = "\<lambda>tr. tr\<lparr>options_installed := False\<rparr>" and t = t] i(2,4)])
      (use assms in \<open>auto simp: tracee_shape\<close>)
  then show "\<exists>r c'. on_error (install_ptrace_options t) (set_tracee t (\<lambda>tr. tr\<lparr>options_installed := False\<rparr>)) c = Some (r, c') \<and>
      tracer_inv c' \<and> same_frame c c' \<and> (\<forall>x. r = Inr x \<longrightarrow> still lc base T (\<lambda>_. True) x c')"
    using i by (cases r) (auto simp: on_error_def still_def)
qed

lemma sound_start_command:
  assumes "filter_wf (cfg_filter cfg)" and "env_ok env"
  shows "sound lc base cfg {} (start_command env) (still lc base {} (\<lambda>_. True))"
proof -
  have rest: "sound lc base cfg {child} (seq_tr wait_for_initial_stop
       (seq_tr (set_tracee child (\<lambda>tr. tr\<lparr>in_ptrace_stop := True, phase := SG_TRACEE_STOPPED\<rparr>))
       (seq_tr (on_error (install_ptrace_options child) (set_tracee child (\<lambda>tr. tr\<lparr>options_installed := False\<rparr>)))
         (set_tracee child (\<lambda>tr. tr\<lparr>options_installed := True\<rparr>))))) (still lc base {} (\<lambda>_. True))" for child
    by (rule sound_weaken [OF sound_seq [OF sound_wait_for_initial_stop safe_sound [where G = "still lc base {child} (\<lambda>_. True)"]]])
      (auto intro!: safe_seq safe_set_tracee safe_install_options simp: tracee_shape still_def at_def)
  have added: "sound lc base cfg {} (seq_tr (add_tracee child child False False) n) G"
    if "pid_ok child" "sound lc base cfg {child} n G" for child n and G :: "unit \<Rightarrow> _"
    unfolding seq_tr_def
    by (rule sound_bind_at [OF safe_sound [OF safe_add_tracee [OF that(1,1)]], where U = "\<lambda>_. {child}" and q = "\<lambda>_. True"])
      (use that in \<open>auto simp: still_def\<close>)
  have root: "holds lc base cfg {} (updating (\<lambda>c. c\<lparr>root_tid := child\<rparr>))" for child
    by (rule sound_updating) (simp_all add: tracer_inv_def at_def synced_def split: if_splits)
  show ?thesis
    unfolding start_command_def
    by (rule sound_bind_at [OF sound_launch_tracee [OF assms], where U = "\<lambda>_. {}" and q = pid_ok])
      (auto simp: still_def intro!: sound_seq root added rest)
qed

lemma sound_prepare_attach:
  "pid_ok (attach_pid cfg) \<Longrightarrow> sound lc base cfg {} (prepare_attach header) (still lc base {} (\<lambda>_. True))"
  by (rule soundI) (use prepare_attach_runs in \<open>fastforce simp: still_def\<close>)

lemma sound_install_handlers: "holds lc base cfg T (install_shutdown_handlers env)"
proof -
  have "keeps lc base T (updating (\<lambda>c. c\<lparr>shutdown_signal := 0\<rparr>))"
    by (rule safe_updating) (simp_all add: tracer_inv_def at_def synced_def split: if_splits)
  then show ?thesis
    unfolding install_shutdown_handlers_def by (auto intro!: sound_seq safe_sound safe_rules)
qed

lemma sound_trace_loop:
  "libc_ok lc \<Longrightarrow> libc_plain lc \<Longrightarrow> sound lc base cfg {} (trace_loop lc) (\<lambda>_. synced lc base)"
  by (rule soundI) (use trace_loop_safe in \<open>fastforce simp: at_def\<close>)

definition runnable :: "sg_config \<Rightarrow> bool" where
  "runnable cfg \<longleftrightarrow> filter_wf (cfg_filter cfg) \<and> (cfg_mode cfg = SG_RUN_ATTACH \<longrightarrow> pid_ok (attach_pid cfg))"

lemma sound_run_tracees:
  assumes "libc_ok lc" and "libc_plain lc" and "runnable cfg" and "env_ok env"
  shows "sound lc base cfg {} (run_tracees lc env) (\<lambda>_. synced lc base)"
proof -
  have "cfg_mode cfg \<noteq> SG_RUN_LAUNCH \<Longrightarrow> cfg_mode cfg = SG_RUN_ATTACH" by (cases "cfg_mode cfg") simp_all
  then show ?thesis
    unfolding run_tracees_def using assms
    by (intro sound_bind_reading sound_seq sound_install_handlers sound_trace_loop)
      (auto simp: runnable_def intro: sound_start_command sound_prepare_attach)
qed

section \<open>The end of the output\<close>

text \<open>The text that the run ends with, after what is written when the tracing is over.\<close>

definition closing_text :: "sg_config \<Rightarrow> sg_stats \<Rightarrow> string" where
  "closing_text cfg stats = (if summary cfg then summary_text (cfg_format cfg) stats @ [CHR 0x0A] else [])"

lemma finish_output_runs:
  assumes "stats_ok (ctx_stats c)" and "out_summary (ctx_output c) = summary (ctx_config c)"
    and "out_format (ctx_output c) = cfg_format (ctx_config c)"
  shows "\<exists>r c'. finish_output env c = Some (r, c') \<and> ctx_config c' = ctx_config c \<and>
    emitted (ctx_world c') = emitted (ctx_world c) \<and>
    (\<forall>m. r = Inr m \<longrightarrow> written (out_stream (ctx_output c')) =
       written (out_stream (ctx_output c)) @ closing_text (ctx_config c) (ctx_stats c))"
proof -
  let ?out = "ctx_output c"
  have rows: "\<forall>r \<in> set (st_rows (ctx_stats c)). in_long (st_number r)"
      "unat (st_count (ctx_stats c)) = length (st_rows (ctx_stats c))"
    using assms(1) by (simp_all add: stats_ok_def stats_wf_def)
  obtain e h st where w: "sg_output_write_summary (w_heap (ctx_world c)) ?out (ctx_stats c) = Some (e, h, ?out\<lparr>out_stream := st\<rparr>)"
      "e = None \<longrightarrow> written st = written (out_stream ?out) @
         (if out_summary ?out then summary_text (out_format ?out) (ctx_stats c) @ [CHR 0x0A] else [])"
    using write_summary_correct [OF rows, of "w_heap (ctx_world c)" ?out] by (elim exE conjE) (rule that)
  obtain ok st' where f: "fflush st = (ok, st')" by fastforce
  then have "written st' = written st" by (auto simp: fflush_def split: list.splits option.splits)
  then show ?thesis
    using w f assms(2,3)
    by (auto simp: finish_output_def seq_tr_def bind_tr_def reading_def output_step_def sg_output_finish_def
        closing_text_def fail_def ret_def split: option.splits sum.splits)
qed

text \<open>The run after the start of the output, with the text that was written before it.\<close>

lemma run_and_clean_runs:
  assumes "libc_ok lc" and "libc_plain lc" and "runnable (ctx_config c)" and "env_ok env"
    and "tracer_inv c" and "synced lc base c"
  shows "\<exists>r c'. run_and_clean lc env c = Some (r, c') \<and> ctx_config c' = ctx_config c \<and>
    (\<forall>x. r = Inr x \<longrightarrow> (\<exists>c1. tracer_inv c1 \<and> synced lc base c1 \<and> ctx_config c1 = ctx_config c \<and>
       emitted (ctx_world c') = emitted (ctx_world c1) \<and>
       written (out_stream (ctx_output c')) =
         written (out_stream (ctx_output c1)) @ closing_text (ctx_config c) (ctx_stats c1)))"
proof -
  have a: "at lc base {} c" using assms(6) by (simp add: at_def)
  obtain r c1 where t: "run_tracees lc env c = Some (r, c1)" "tracer_inv c1" "ctx_config c1 = ctx_config c"
      "\<And>x. r = Inr x \<Longrightarrow> synced lc base c1"
    by (rule soundE [OF sound_run_tracees [OF assms(1-4)] assms(5) a refl]) blast
  obtain c2 where cl: "clean_up (\<not> isl r) c1 = Some (Inr (), c2)" "same_results c1 c2"
    using clean_up_runs [OF t(2)] by blast
  show ?thesis
  proof (cases r)
    case (Inl e)
    then show ?thesis using t(1,3) cl by (auto simp: run_and_clean_def bind_tr_def fail_def same_results_def)
  next
    case (Inr s)
    have "stats_ok (ctx_stats c2)" "out_summary (ctx_output c2) = summary (ctx_config c2)"
        "out_format (ctx_output c2) = cfg_format (ctx_config c2)"
      using t(2) cl(2) by (simp_all add: same_results_def tracer_inv_def)
    from finish_output_runs [OF this, of env] obtain r3 c3 where f: "finish_output env c2 = Some (r3, c3)"
        "ctx_config c3 = ctx_config c2" "emitted (ctx_world c3) = emitted (ctx_world c2)"
        "\<forall>m. r3 = Inr m \<longrightarrow> written (out_stream (ctx_output c3)) =
          written (out_stream (ctx_output c2)) @ closing_text (ctx_config c2) (ctx_stats c2)"
      by blast
    have run: "run_and_clean lc env c = (case r3 of Inl e \<Rightarrow> Some (Inl e, c3) | Inr m \<Rightarrow> Some (Inr (s, m), c3))"
      using t(1) Inr cl(1) f(1) by (simp add: run_and_clean_def seq_tr_def bind_tr_def ret_def split: sum.split)
    have c1: "tracer_inv c1 \<and> synced lc base c1 \<and> ctx_config c1 = ctx_config c" using t Inr by blast
    show ?thesis
      using run f(2-4) cl(2) c1 by (cases r3) (auto simp: same_results_def)
  qed
qed

section \<open>The start of the output\<close>

definition opening_text :: "sg_config \<Rightarrow> string" where
  "opening_text cfg =
     (if cfg_format cfg = SG_FORMAT_TEXT \<or> summary cfg then [] else json_text metadata_json @ [CHR 0x0A])"

lemma initial_context_inv:
  assumes "env_ok env" and "world_ok w"
  shows "tracer_inv (initial_context env cfg st w)"
proof -
  have "tracees_ok sg_tracee_table_init"
    by (simp add: tracees_ok_def table_wf_def sg_tracee_table_init_def table_map_def slots_map_def)
  moreover have "stats_ok sg_stats_init" by (simp add: stats_ok_def sg_stats_init_def stats_wf_def)
  ultimately show ?thesis
    using assms reader_ok_memory [of "first_memory env" "\<lparr>dec_string_limit = string_limit cfg, memory_read = None\<rparr>"]
    by (simp add: initial_context_def Let_def tracer_inv_def output_wf_def world_ok_def several_tracees_def env_ok_def)
qed

lemma start_output_runs:
  assumes "env_ok env" and "world_ok w" and "emitted w = []"
  shows "\<exists>r c. start_output (initial_context env cfg st w) = Some (r, c) \<and> ctx_config c = cfg \<and>
    (\<forall>x. r = Inr x \<longrightarrow> tracer_inv c \<and> synced lc (written st @ opening_text cfg) c)"
proof -
  let ?c = "initial_context env cfg st w"
  let ?run = "sg_output_init (w_heap w) st (cfg_format cfg) (ctx_decoder ?c) (several_tracees cfg) (summary cfg)"
  have "\<exists>e h st'. ?run = Some (e, h, (ctx_output ?c)\<lparr>out_stream := st'\<rparr>) \<and>
      (e = None \<longrightarrow> written st' = written st @ opening_text cfg)"
    using output_init_correct [of "cfg_format cfg" "summary cfg" "w_heap w" st "ctx_decoder ?c" "several_tracees cfg"]
    by (auto simp: initial_context_def Let_def opening_text_def writes_line_def several_tracees_def split: if_splits)
  then obtain e h st' where r: "?run = Some (e, h, (ctx_output ?c)\<lparr>out_stream := st'\<rparr>)"
      "e = None \<longrightarrow> written st' = written st @ opening_text cfg"
    by blast
  let ?c1 = "?c\<lparr>ctx_output := (ctx_output ?c)\<lparr>out_stream := st'\<rparr>, ctx_world := (ctx_world ?c)\<lparr>w_heap := h\<rparr>\<rparr>"
  have "start_output ?c = Some (case e of None \<Rightarrow> Inr () | Some err \<Rightarrow> Inl (Tr_Output err), ?c1)"
    using r(1) by (simp add: start_output_def output_step_def bind_tr_def reading_def initial_context_def Let_def several_tracees_def)
  moreover have "tracer_inv ?c1"
    using initial_context_inv [OF assms(1,2), of cfg st] by (simp add: tracer_inv_def output_wf_def world_ok_def)
  moreover have "synced lc (written st @ opening_text cfg) ?c1" if "e = None"
    using r(2) that assms(3) transcript.start
    by (simp add: synced_def initial_context_def Let_def unfinished_def)
  moreover have "ctx_config ?c1 = cfg" by (simp add: initial_context_def Let_def)
  ultimately show ?thesis by (auto split: option.splits)
qed

section \<open>The run\<close>

text \<open>What a successful run has written after the text \<open>before\<close>, and the events it has seen.\<close>

definition run_record :: "libc \<Rightarrow> sg_config \<Rightarrow> string \<Rightarrow> sg_event list \<Rightarrow> string \<Rightarrow> bool" where
  "run_record lc cfg before evs s \<longleftrightarrow>
     (if summary cfg then \<exists>stats. stats_ok stats \<and> s = before @ summary_text (cfg_format cfg) stats @ [CHR 0x0A]
      else \<exists>S. transcript lc (cfg_format cfg) (several_tracees cfg) (before @ opening_text cfg) evs S s)"

lemma run_record_end:
  assumes "tracer_inv c" and "synced lc (before @ opening_text cfg) c" and "ctx_config c = cfg"
    and "s = written (out_stream (ctx_output c)) @ closing_text cfg (ctx_stats c)"
  shows "run_record lc cfg before (emitted (ctx_world c)) s"
proof (cases "summary cfg")
  case True
  have "stats_ok (ctx_stats c)" using assms(1) by (simp add: tracer_inv_def)
  moreover have "s = before @ summary_text (cfg_format cfg) (ctx_stats c) @ [CHR 0x0A]"
    using assms True by (simp add: tracer_inv_def synced_def closing_text_def opening_text_def)
  ultimately show ?thesis using True by (auto simp: run_record_def)
next
  case False
  then show ?thesis using assms by (auto simp: run_record_def tracer_inv_def synced_def closing_text_def)
qed

lemma trace_run_correct:
  assumes "libc_ok lc" and "libc_plain lc" and "env_ok env" and "world_ok w" and "emitted w = []" and "runnable cfg"
  shows "\<exists>r oc. sg_trace_run lc env (Some cfg) w = Some (r, oc) \<and>
    (\<forall>s m. r = Inr (s, m) \<longrightarrow> (\<exists>st c. open_output env (output_path cfg) = Inr st \<and> oc = Some c \<and>
       run_record lc cfg (written st) (emitted (ctx_world c)) (written (out_stream (ctx_output c)))))"
proof (cases "validate_runtime_options cfg")
  case valid: True
  show ?thesis
  proof (cases "open_output env (output_path cfg)")
    case (Inl e)
    then show ?thesis using valid by (simp add: sg_trace_run_def)
  next
    case (Inr st)
    let ?base = "written st @ opening_text cfg"
    obtain r c where o: "start_output (initial_context env cfg st w) = Some (r, c)" "ctx_config c = cfg"
        "\<forall>x. r = Inr x \<longrightarrow> tracer_inv c \<and> synced lc ?base c"
      using start_output_runs [OF assms(3-5)] by blast
    show ?thesis
    proof (cases r)
      case Inl
      then show ?thesis using valid Inr o(1) by (simp add: sg_trace_run_def)
    next
      case (Inr u)
      have c: "tracer_inv c" "synced lc ?base c" "runnable (ctx_config c)" using o Inr assms(6) by auto
      obtain r2 c2 where t: "run_and_clean lc env c = Some (r2, c2)" "ctx_config c2 = cfg"
          "\<forall>x. r2 = Inr x \<longrightarrow> (\<exists>c1. tracer_inv c1 \<and> synced lc ?base c1 \<and> ctx_config c1 = cfg \<and>
             emitted (ctx_world c2) = emitted (ctx_world c1) \<and> written (out_stream (ctx_output c2)) =
               written (out_stream (ctx_output c1)) @ closing_text cfg (ctx_stats c1))"
        using run_and_clean_runs [OF assms(1,2) c(3) assms(3) c(1,2)] o(2) by auto
      have run: "sg_trace_run lc env (Some cfg) w =
          Some (if output_path cfg \<noteq> None \<and> \<not> fclose_ok env \<and> \<not> isl r2 then Inl Tr_Close_Output else r2,
                Some (destroy_all c2))"
        using valid \<open>open_output env (output_path cfg) = Inr st\<close> o(1) Inr t(1,2)
        by (simp add: sg_trace_run_def close_output_def)
      have "run_record lc cfg (written st) (emitted (ctx_world c2)) (written (out_stream (ctx_output c2)))" if "r2 = Inr x" for x
        using t(3) that run_record_end by metis
      then show ?thesis
        unfolding run using \<open>open_output env (output_path cfg) = Inr st\<close>
        by (auto simp: destroy_all_def sg_output_destroy_def)
    qed
  qed
qed (simp add: sg_trace_run_def)

text \<open>A record without \<open>-c\<close> in NDJSON format, line by line.\<close>

lemma run_record_lines:
  assumes "run_record lc cfg before evs s" and "\<not> summary cfg" and "cfg_format cfg \<noteq> SG_FORMAT_TEXT"
  shows "\<exists>ls. s = before @ json_text metadata_json @ [CHR 0x0A] @ concat (map (\<lambda>l. l @ [CHR 0x0A]) ls) \<and>
    list_all2 (\<lambda>ev l. json_line lc ev l \<and> no_control l \<and> (\<exists>line ns. read_json l = Some (event_json lc line ns ev, [])))
      (filter (\<lambda>ev. \<not> is_unfinished_syscall ev) evs) ls"
proof -
  obtain S where "transcript lc (cfg_format cfg) (several_tracees cfg) (before @ opening_text cfg) evs S s"
    using assms(1,2) by (auto simp: run_record_def)
  from transcript_json [OF this assms(3)] obtain ls
    where "s = (before @ opening_text cfg) @ concat (map (\<lambda>l. l @ [CHR 0x0A]) ls)"
      "list_all2 (json_line lc) (filter (\<lambda>ev. \<not> is_unfinished_syscall ev) evs) ls"
    by blast
  moreover from this(2) have "list_all2 (\<lambda>ev l. json_line lc ev l \<and> no_control l \<and>
      (\<exists>line ns. read_json l = Some (event_json lc line ns ev, []))) (filter (\<lambda>ev. \<not> is_unfinished_syscall ev) evs) ls"
    by (rule list_all2_mono) (use json_line_read in blast)
  ultimately show ?thesis using assms(2,3) by (auto simp: opening_text_def)
qed

lemma cli_runnable:
  assumes "sg_cli_parse argv = (SG_CLI_RUN, cfg)"
  shows "runnable cfg"
  using cli_parse_valid [OF assms] by (auto simp: config_valid_def runnable_def pid_ok_def split: sg_run_mode.splits)

section \<open>Properties\<close>

text \<open>
  C1. The program has defined behaviour and ends, for every command line and every environment:
  all answers of the kernel, refused allocations, failing writes and signals. The exit status is
  0 with the usage or the version, 2 with an error in the command line, 1 when the run fails and
  the status of the command otherwise. No null pointer is followed, no array index leaves its
  array, no signed overflow occurs and no loop goes on forever, from the command line to the close
  of the output.
\<close>

theorem main_exit_status:
  assumes "libc_ok lc" and "libc_plain lc" and "env_ok env" and "world_ok w" and "emitted w = []"
  shows "case sg_cli_parse argv of
      (SG_CLI_HELP, _) \<Rightarrow> main lc env argv w = Some (0, Usage)
    | (SG_CLI_VERSION, _) \<Rightarrow> main lc env argv w = Some (0, Version)
    | (SG_CLI_ERROR e, _) \<Rightarrow> main lc env argv w = Some (2, Bad_Usage e)
    | (SG_CLI_RUN, cfg) \<Rightarrow>
        (\<exists>r oc. sg_trace_run lc env (Some cfg) w = Some (r, oc) \<and>
           main lc env argv w = Some (case r of Inl e \<Rightarrow> (1, Run_Error e) | Inr (s, m) \<Rightarrow> (s, No_Message)))"
proof -
  obtain action cfg where p: "sg_cli_parse argv = (action, cfg)" by fastforce
  show ?thesis
  proof (cases action)
    case SG_CLI_RUN
    then have "runnable cfg" using cli_runnable p by blast
    then obtain r oc where "sg_trace_run lc env (Some cfg) w = Some (r, oc)"
      using trace_run_correct [OF assms, of cfg] by auto
    then show ?thesis using p SG_CLI_RUN by (auto simp: main_def split: sum.split prod.split)
  qed (use p in \<open>simp_all add: main_def\<close>)
qed

definition demo_env :: run_env where
  "demo_env = \<lparr>stderr_stream = \<lparr>written = [], answers = []\<rparr>, opened = Inl False, forked = Inr 41, exe_header = None,
     sigint_installed = True, sigterm_installed = True, first_memory = (\<lambda>_ _ _. None), benchmark_fd = None,
     dprintf_ok = True, fclose_ok = True\<rparr>"

lemma demo_env_ok: "env_ok demo_env"
  by (simp add: env_ok_def demo_env_def memory_ok_def pid_ok_def)

lemma demo_world_ok: "world_ok demo_world" "emitted demo_world = []"
  by (auto simp: world_ok_def demo_world_def demo_returns_def demo_info_def time_ok_def zero_timespec_def
      info_ok_def in_long_def return_ok_def memory_ok_def pid_ok_def)

theorem main_exit_status_witness:
  "main no_libc demo_env [] demo_world = Some (2, Bad_Usage Cli_Invalid_Arguments) \<and>
   (\<exists>r oc. sg_trace_run no_libc demo_env (Some (config_init\<lparr>follow := True, command_argv := Some [''ls'', ''-l'']\<rparr>)) demo_world =
      Some (r, oc) \<and>
    main no_libc demo_env [''sysgaze'', ''-f'', ''--'', ''ls'', ''-l''] demo_world =
      Some (case r of Inl e \<Rightarrow> (1, Run_Error e) | Inr (s, m) \<Rightarrow> (s, No_Message)))"
  using main_exit_status [OF libc_ok_no_libc libc_plain_no_libc demo_env_ok demo_world_ok, of "[]"]
    main_exit_status [OF libc_ok_no_libc libc_plain_no_libc demo_env_ok demo_world_ok,
      of "[''sysgaze'', ''-f'', ''--'', ''ls'', ''-l'']", unfolded demo_command_line]
  by (simp add: sg_cli_parse_def)


text \<open>A launch in NDJSON format.\<close>

definition demo_config :: sg_config where
  "demo_config = config_init\<lparr>cfg_format := SG_FORMAT_NDJSON, command_argv := Some [''true'']\<rparr>"

lemma demo_config_runnable: "runnable demo_config"
  using cli_ok_init by (simp add: runnable_def demo_config_def config_init_def cli_ok_def)


end
