(* ===== verification/Trace_Status.thy ===== *)
theory Trace_Status
  imports Trace_Main
begin

text \<open>
  A run that succeeds: a launched command that ends at once, followed from \<open>fork\<close> to the exit status
  of the tracer. Every call to the kernel is granted.
\<close>

section \<open>The state of the run\<close>

text \<open>
  \<open>alone c child tr granted clocks waits\<close>: the root is the only tracee, the summary is still to come,
  and the kernel will grant \<open>granted\<close> requests, give the times \<open>clocks\<close> and report \<open>waits\<close>.
\<close>

definition alone :: "trace_context \<Rightarrow> int \<Rightarrow> sg_tracee \<Rightarrow> nat \<Rightarrow> timespec option list \<Rightarrow> wait_return list \<Rightarrow> bool" where
  "alone c child tr granted clocks waits \<longleftrightarrow>
     table_wf (ctx_tracees c) \<and> tracee_map c = [child \<mapsto> tr] \<and> tid tr = child \<and> root_tid c = child \<and>
     summary (ctx_config c) \<and> out_summary (ctx_output c) \<and> \<not> seccomp_bpf (ctx_config c) \<and>
     answers (out_stream (ctx_output c)) = [] \<and> ctx_stats c = sg_stats_init \<and> shutdown_signal c = 0 \<and>
     w_heap (ctx_world c) = [] \<and> control_answers (ctx_world c) = replicate granted None \<and>
     clock_answers (ctx_world c) = clocks \<and> wait_answers (ctx_world c) = waits"

text \<open>\<open>reaches m c x P\<close>: the operation succeeds with the value \<open>x\<close> in a state of which \<open>P\<close> holds.\<close>

definition reaches :: "'a tr \<Rightarrow> trace_context \<Rightarrow> 'a \<Rightarrow> (trace_context \<Rightarrow> bool) \<Rightarrow> bool" where
  "reaches m c x P \<longleftrightarrow> (\<exists>c'. m c = Some (Inr x, c') \<and> ctx_config c' = ctx_config c \<and> P c')"

lemma reaches_bind:
  assumes "reaches m c x P" and "\<And>c'. P c' \<Longrightarrow> ctx_config c' = ctx_config c \<Longrightarrow> reaches (f x) c' y R"
  shows "reaches (bind_tr m f) c y R"
proof -
  obtain c1 where c1: "m c = Some (Inr x, c1)" "ctx_config c1 = ctx_config c" "P c1"
    using assms(1) by (auto simp: reaches_def)
  obtain c2 where "f x c1 = Some (Inr y, c2)" "ctx_config c2 = ctx_config c1" "R c2"
    using assms(2) [OF c1(3,2)] by (auto simp: reaches_def)
  with c1 show ?thesis by (auto simp: reaches_def bind_tr_def)
qed

lemma reaches_seq:
  "reaches m c () P \<Longrightarrow> (\<And>c'. P c' \<Longrightarrow> ctx_config c' = ctx_config c \<Longrightarrow> reaches n c' y R) \<Longrightarrow> reaches (seq_tr m n) c y R"
  unfolding seq_tr_def by (rule reaches_bind)

lemma reaches_ret: "P c \<Longrightarrow> reaches (ret x) c x P"
  by (simp add: reaches_def ret_def)

lemma reaches_reading: "(reaches (f (g c)) c y R) \<Longrightarrow> reaches (bind_tr (reading g) f) c y R"
  by (simp add: reaches_def bind_tr_def reading_def)

lemma reaches_updating:
  "ctx_config (f c) = ctx_config c \<Longrightarrow> P (f c) \<Longrightarrow> reaches (updating f) c () P"
  by (simp add: reaches_def updating_def)

section \<open>The operations\<close>

lemma alone_get:
  "alone c child tr n ts ws \<Longrightarrow> sg_tracee_table_get (ctx_tracees c) child = Some (Some tr)"
  by (simp add: alone_def table_get_correct)

lemma alone_the_tracee: "alone c child tr n ts ws \<Longrightarrow> reaches (f tr) c y R \<Longrightarrow> reaches (bind_tr (the_tracee child) f) c y R"
  using alone_get [of c child tr n ts ws] by (simp add: reaches_def bind_tr_def the_tracee_def)

lemma alone_find: "alone c child tr n ts ws \<Longrightarrow> reaches (f (Some tr)) c y R \<Longrightarrow> reaches (bind_tr (find_tracee child) f) c y R"
  using alone_get [of c child tr n ts ws] by (simp add: reaches_def bind_tr_def find_tracee_def)

lemma alone_set:
  assumes "alone c child tr n ts ws" and "tid (f tr) = child"
  shows "reaches (set_tracee child f) c () (\<lambda>c'. alone c' child (f tr) n ts ws)"
  using tracee_store_correct [of "ctx_tracees c" child tr f] assms
  by (auto simp: reaches_def set_tracee_def alone_def)

lemma alone_ask:
  assumes "alone c child tr (Suc n) ts ws"
  shows "reaches (measured_ptrace r) c None (\<lambda>c'. alone c' child tr n ts ws)"
  using assms by (simp add: reaches_def measured_ptrace_def alone_def next_answer_def Let_def)

lemma alone_resume:
  assumes "alone c child tr (Suc n) ts ws"
  shows "reaches (resume_tracee child sig) c () (\<lambda>c'. alone c' child tr n ts ws)"
  unfolding resume_tracee_def Let_def
  by (rule alone_the_tracee [OF assms], rule reaches_reading, rule reaches_bind [OF alone_ask [OF assms]])
    (simp add: reaches_ret)

lemma table_entries_zero:
  assumes "table_wf tb"
  shows "entries tb = 0 \<longleftrightarrow> table_map tb = Map.empty"
proof -
  have "entries tb = 0 \<longleftrightarrow> occupied_tids (slots tb) = []"
    using table_entries [OF assms] by (metis length_0_conv unat_eq_zero)
  then show ?thesis using occupied_dom [OF assms] by (metis dom_eq_empty_conv set_empty)
qed

section \<open>The start\<close>

lemma first_insert:
  assumes "0 < child"
  shows "\<exists>tb. sg_tracee_table_insert [] sg_tracee_table_init child child att = Some (Some True, [], tb) \<and> table_wf tb \<and>
    table_map tb = [child \<mapsto> fresh_tracee child child att]"
proof -
  obtain r h tb where r: "sg_tracee_table_insert [] sg_tracee_table_init child child att = Some (r, h, tb)"
    using tab.enter_total [OF table_wf_init] by blast
  have "capacity sg_tracee_table_init = 0" by (simp add: sg_tracee_table_init_def)
  then have new: "r = Some True"
    using table_insert_correct [OF table_wf_init, of "[]" child child att] r assms
    by (auto split: option.splits bool.splits)
  have "h = []"
    using r by (auto simp: sg_tracee_table_insert_def ensure_capacity_def resize_table_def sg_tracee_table_init_def
        split: if_splits option.splits bool.splits)
  with tab.enter_law [OF table_wf_init r] new r show ?thesis by simp
qed

definition launched_tracee :: "int \<Rightarrow> sg_tracee" where
  "launched_tracee child = (fresh_tracee child child False)\<lparr>newborn := False, options_installed := True,
     in_ptrace_stop := True, phase := SG_TRACEE_STOPPED\<rparr>"

text \<open>The context before the fork.\<close>

definition ready :: "trace_context \<Rightarrow> timespec option list \<Rightarrow> wait_return list \<Rightarrow> bool" where
  "ready c clocks waits \<longleftrightarrow> ctx_tracees c = sg_tracee_table_init \<and> summary (ctx_config c) \<and> out_summary (ctx_output c) \<and>
     \<not> seccomp_bpf (ctx_config c) \<and> answers (out_stream (ctx_output c)) = [] \<and> ctx_stats c = sg_stats_init \<and>
     shutdown_signal c = 0 \<and> w_heap (ctx_world c) = [] \<and> control_answers (ctx_world c) = replicate 2 None \<and>
     clock_answers (ctx_world c) = clocks \<and> wait_answers (ctx_world c) = waits"

lemma ready_add:
  assumes "ready c ts ws" and "0 < child"
  shows "reaches (seq_tr (updating (\<lambda>c. c\<lparr>root_tid := child\<rparr>)) (add_tracee child child False False)) c ()
    (\<lambda>c'. alone c' child ((fresh_tracee child child False)\<lparr>newborn := False, options_installed := True\<rparr>) 2 ts ws)"
proof -
  let ?c = "c\<lparr>root_tid := child\<rparr>"
  obtain tb where tb: "sg_tracee_table_insert [] sg_tracee_table_init child child False = Some (Some True, [], tb)" "table_wf tb"
      "table_map tb = [child \<mapsto> fresh_tracee child child False]"
    using first_insert [OF assms(2)] by blast
  let ?c1 = "?c\<lparr>ctx_tracees := tb, ctx_world := (ctx_world c)\<lparr>w_heap := []\<rparr>\<rparr>"
  have ins: "insert_tracee child child False ?c = Some (Inr (Some True), ?c1)"
    using tb(1) assms(1) by (simp add: insert_tracee_def ready_def)
  have "alone ?c1 child (fresh_tracee child child False) 2 ts ws"
    using tb(2,3) assms(1) by (simp add: alone_def ready_def fresh_tracee_def)
  from alone_set [OF this, of "\<lambda>tr. tr\<lparr>newborn := False, options_installed := True\<rparr>"] show ?thesis
    using ins by (auto simp: reaches_def seq_tr_def bind_tr_def updating_def add_tracee_def fresh_tracee_def)
qed

lemma alone_wait:
  assumes "alone c child tr n ts (r # ws)" and "waited_for r = Inr x"
  shows "reaches wait_steadily c (Inr x) (\<lambda>c'. alone c' child tr n ts ws)"
  using assms by (auto simp: reaches_def wait_steadily_def alone_def)

lemma alone_initial_stop:
  assumes "alone c child tr n ts (r # ws)" and "waited_for r = Inr (child, s)" and "WIFSTOPPED s" "WSTOPSIG s = SIGSTOP"
  shows "reaches wait_for_initial_stop c () (\<lambda>c'. alone c' child tr n ts ws)"
  unfolding wait_for_initial_stop_def
  by (rule reaches_bind [OF alone_wait [OF assms(1,2)]]) (use assms(3,4) in \<open>simp add: reaches_ret\<close>)

lemma alone_options:
  assumes "alone c child tr (Suc n) ts ws"
  shows "reaches (on_error (install_ptrace_options child) m) c () (\<lambda>c'. alone c' child tr n ts ws)"
proof -
  have "reaches (install_ptrace_options child) c () (\<lambda>c'. alone c' child tr n ts ws)"
    unfolding install_ptrace_options_def
    by (rule reaches_reading, rule reaches_bind [OF alone_ask [OF assms]]) (simp add: reaches_ret)
  then show ?thesis by (auto simp: reaches_def on_error_def)
qed

lemma ready_start:
  assumes c: "ready c ts (r # ws)" and fork: "forked env = Inr child" "0 < child"
    and stop: "waited_for r = Inr (child, s)" "WIFSTOPPED s" "WSTOPSIG s = SIGSTOP"
  shows "reaches (start_command env) c () (\<lambda>c'. alone c' child (launched_tracee child) 1 ts ws)"
proof -
  let ?t = "(fresh_tracee child child False)\<lparr>newborn := False, options_installed := True\<rparr>"
  have launch: "reaches (launch_tracee env) c child (\<lambda>c'. ready c' ts (r # ws))"
    using c fork(1) by (simp add: reaches_def launch_tracee_def seq_tr_def bind_tr_def prepare_program_def ready_def ret_def)
  have last: "launched_tracee child = ?t\<lparr>in_ptrace_stop := True, phase := SG_TRACEE_STOPPED\<rparr>\<lparr>options_installed := True\<rparr>"
      "tid (fresh_tracee child child False) = child"
    by (simp_all add: launched_tracee_def fresh_tracee_def)
  have rest: "reaches (seq_tr wait_for_initial_stop
     (seq_tr (set_tracee child (\<lambda>tr. tr\<lparr>in_ptrace_stop := True, phase := SG_TRACEE_STOPPED\<rparr>))
     (seq_tr (on_error (install_ptrace_options child) (set_tracee child (\<lambda>tr. tr\<lparr>options_installed := False\<rparr>)))
       (set_tracee child (\<lambda>tr. tr\<lparr>options_installed := True\<rparr>))))) c1 ()
     (\<lambda>c'. alone c' child (launched_tracee child) 1 ts ws)" if "alone c1 child ?t 2 ts (r # ws)" for c1
    unfolding last(1) using that
    by (intro reaches_seq [OF alone_initial_stop [OF _ stop]] reaches_seq [OF alone_set]
        reaches_seq [OF alone_options] alone_set) (simp_all add: numeral_2_eq_2 last(2))
  have split: "start_command env = bind_tr (launch_tracee env) (\<lambda>child.
      seq_tr (seq_tr (updating (\<lambda>c. c\<lparr>root_tid := child\<rparr>)) (add_tracee child child False False))
       (seq_tr wait_for_initial_stop
       (seq_tr (set_tracee child (\<lambda>tr. tr\<lparr>in_ptrace_stop := True, phase := SG_TRACEE_STOPPED\<rparr>))
       (seq_tr (on_error (install_ptrace_options child) (set_tracee child (\<lambda>tr. tr\<lparr>options_installed := False\<rparr>)))
         (set_tracee child (\<lambda>tr. tr\<lparr>options_installed := True\<rparr>))))))"
    by (simp add: start_command_def fun_eq_iff seq_tr_def bind_tr_def updating_def split: option.split sum.split)
  show ?thesis
    unfolding split
    by (rule reaches_bind [OF launch], rule reaches_seq [OF ready_add [OF _ fork(2)]], assumption, erule rest)
qed

section \<open>The loop\<close>

text \<open>The next return of \<open>waitpid\<close>, without a signal.\<close>

lemma alone_waitpid:
  assumes "alone c child tr n ts (r # ws)" and "signal_before r = 0"
  shows "reaches waitpid c r (\<lambda>c'. alone c' child tr n ts ws)"
  using assms
  by (simp add: reaches_def waitpid_def next_answer_def Let_def receive_signal_def install_memory_def alone_def)

lemma alone_clock:
  assumes "alone c child tr n (Some now # ts) ws"
  shows "reaches clock_gettime c now (\<lambda>c'. alone c' child tr n ts ws)"
  using assms by (simp add: reaches_def clock_gettime_def next_answer_def Let_def alone_def)

lemma alone_emit:
  assumes "alone c child tr n ts ws"
  shows "reaches (emit_event lc ev) c () (\<lambda>c'. alone c' child tr n ts ws)"
  using assms by (simp add: reaches_def emit_event_def sg_output_write_event_def Let_def alone_def)

lemma alone_write_exit:
  assumes "alone c child tr n (Some now # ts) ws"
  shows "reaches (write_exit lc child s) c () (\<lambda>c'. alone c' child tr n ts ws)"
proof -
  have "reaches (flush_unfinished_syscalls lc (- 1)) c () (\<lambda>c'. alone c' child tr n (Some now # ts) ws)"
    using assms by (simp add: reaches_def flush_unfinished_syscalls_def bind_tr_def reading_def ret_def alone_def)
  then show ?thesis
    unfolding write_exit_def
    by (intro reaches_seq [rotated] alone_the_tracee reaches_bind [OF alone_clock] alone_emit) assumption+
qed

text \<open>After the death of the last tracee: the table is empty and the status is known.\<close>

definition over :: "trace_context \<Rightarrow> int \<Rightarrow> bool" where
  "over c st \<longleftrightarrow> table_wf (ctx_tracees c) \<and> tracee_map c = Map.empty \<and> root_status_known c \<and> root_status c = st \<and>
     summary (ctx_config c) \<and> out_summary (ctx_output c) \<and> answers (out_stream (ctx_output c)) = [] \<and>
     ctx_stats c = sg_stats_init \<and> shutdown_signal c = 0 \<and> w_heap (ctx_world c) = []"

definition command_status :: "wait_status \<Rightarrow> int" where
  "command_status s = (if WIFEXITED s then WEXITSTATUS s else 128 + WTERMSIG s)"

lemma alone_exit:
  assumes "alone c child tr n (Some now # ts) ws"
  shows "reaches (handle_exit lc child s) c () (\<lambda>c'. over c' (command_status s))"
proof -
  have no_bpf: "\<not> seccomp_bpf (ctx_config c)" if "alone c child tr n ts ws" for c tr n ts ws
    using that by (simp add: alone_def)
  have leave: "reaches (seq_tr (record_exit_status child s) (bind_tr (remove_tracee child) (\<lambda>_. ret ()))) c1 ()
      (\<lambda>c'. over c' (command_status s))" if "alone c1 child tr1 n ts ws" for c1 tr1
    using that table_remove_correct [of "ctx_tracees c1" child]
    by (auto simp: reaches_def seq_tr_def bind_tr_def record_exit_status_def updating_def remove_tracee_def ret_def
        alone_def over_def command_status_def)
  have gone: "tid (tr\<lparr>phase := SG_TRACEE_GONE\<rparr>) = child" using assms by (simp add: alone_def)
  show ?thesis
    unfolding handle_exit_def
    by (rule reaches_seq [OF alone_set [OF assms, where f = "\<lambda>tr. tr\<lparr>phase := SG_TRACEE_GONE\<rparr>", OF gone]], rule reaches_reading)
      (use no_bpf [OF assms] in \<open>auto intro!: reaches_seq [OF alone_write_exit] leave\<close>)
qed

lemma WIF_exclusive:
  assumes "WIFEXITED s \<or> WIFSIGNALED s"
  shows "\<not> WIFSTOPPED s" and "\<not> WIFCONTINUED s"
proof -
  have "s AND 0x7f \<noteq> 0x7f" using assms by (auto simp: WIFEXITED_def WIFSIGNALED_def)
  moreover have "s AND 0x7f = (s AND 0xff) AND 0x7f" by (simp add: and.assoc)
  ultimately show "\<not> WIFSTOPPED s" by (auto simp: WIFSTOPPED_def)
  show "\<not> WIFCONTINUED s" using \<open>s AND 0x7f \<noteq> 0x7f\<close> by (auto simp: WIFCONTINUED_def)
qed

lemma alone_last_return:
  assumes c: "alone c child tr n (Some now # ts) (r # ws)"
    and r: "signal_before r = 0" "signal_after r = 0" "waited_for r = Inr (child, s)" and s: "WIFEXITED s \<or> WIFSIGNALED s"
  shows "reaches (loop_step lc) c None (\<lambda>c'. over c' (command_status s))"
proof -
  have locate: "reaches (locate_tracee child s) c1 True (\<lambda>c'. c' = c1)" if "alone c1 child tr n (Some now # ts) ws" for c1
    unfolding locate_tracee_def using that by (auto intro!: alone_find reaches_reading reaches_ret)
  have former: "reaches (former_tid child s) c1 () (\<lambda>c'. c' = c1)" for c1
    using WIF_exclusive [OF s] by (simp add: former_tid_def reaches_ret)
  have status: "reaches (handle_status lc child s) c1 False (\<lambda>c'. over c' (command_status s))"
    if "alone c1 child tr n (Some now # ts) ws" for c1
    unfolding handle_status_def
    by (rule reaches_seq [OF former], hypsubst, rule reaches_bind [OF locate [OF that]])
      (use that s WIF_exclusive [OF s] in \<open>auto intro!: reaches_seq [OF alone_exit] reaches_ret\<close>)
  show ?thesis
    unfolding loop_step_def
    by (rule reaches_bind [OF alone_waitpid [OF c r(1)]])
      (use r in \<open>auto intro!: reaches_bind [OF status] reaches_seq [OF reaches_updating [where P = "\<lambda>c'. over c' (command_status s)"]] reaches_ret simp: receive_signal_def\<close>)
qed

lemma alone_trace_loop:
  assumes c: "alone c child tr (Suc n) (Some now # ts) [r]" and mode: "cfg_mode (ctx_config c) = SG_RUN_LAUNCH"
    and r: "signal_before r = 0" "signal_after r = 0" "waited_for r = Inr (child, s)" and s: "WIFEXITED s \<or> WIFSIGNALED s"
  shows "reaches (trace_loop lc) c (command_status s) (\<lambda>c'. over c' (command_status s))"
proof -
  have root: "root_tid c = child" using c by (simp add: alone_def)
  have "reaches (seq_tr (resume_tracee child 0) (set_tracee child (\<lambda>tr. tr\<lparr>in_ptrace_stop := False\<rparr>))) c ()
      (\<lambda>c'. alone c' child (tr\<lparr>in_ptrace_stop := False\<rparr>) n (Some now # ts) [r])"
    by (rule reaches_seq [OF alone_resume [OF c]], rule alone_set) (simp_all add: alone_def)
  then have start: "reaches start_root c () (\<lambda>c'. alone c' child (tr\<lparr>in_ptrace_stop := False\<rparr>) n (Some now # ts) [r])"
    unfolding start_root_def using mode root c by (auto intro!: reaches_reading alone_find)
  have last: "reaches (loop_from lc (Suc 0)) c2 (command_status s) (\<lambda>c'. over c' (command_status s))"
    if "over c2 (command_status s)" "ctx_config c2 = ctx_config c" for c2
    using that mode table_entries_zero [of "ctx_tracees c2"] by (simp add: reaches_def over_def final_status_def)
  have loop: "reaches (loop_from lc (Suc (Suc 0))) c1 (command_status s) (\<lambda>c'. over c' (command_status s))"
    if c1: "alone c1 child tr1 n (Some now # ts) [r]" "ctx_config c1 = ctx_config c" for c1 tr1
  proof -
    have "entries (ctx_tracees c1) \<noteq> 0" using c1(1) table_entries_zero [of "ctx_tracees c1"] by (simp add: alone_def)
    moreover have "reaches (bind_tr (loop_step lc) (\<lambda>r. case r of Some s \<Rightarrow> ret s | None \<Rightarrow> loop_from lc (Suc 0))) c1
        (command_status s) (\<lambda>c'. over c' (command_status s))"
      by (rule reaches_bind [OF alone_last_return [OF c1(1) r s]]) (use c1(2) last in simp)
    ultimately show ?thesis by (simp add: reaches_def)
  qed
  have all: "reaches (loop_from lc (Suc (length (wait_answers (ctx_world c1))))) c1 (command_status s)
      (\<lambda>c'. over c' (command_status s))"
    if c1: "alone c1 child tr1 n (Some now # ts) [r]" "ctx_config c1 = ctx_config c" for c1 tr1
    using loop [OF c1] c1(1) by (simp add: alone_def del: loop_from.simps)
  show ?thesis
    unfolding trace_loop_def by (rule reaches_seq [OF start], rule reaches_reading, rule all)
qed

section \<open>The end\<close>

lemma length_empty_summary: "length (summary_text fm sg_stats_init) + 2 < 2 ^ 64"
proof -
  have "length (json_text (summary_json sg_stats_init [])) < 1000" by code_simp
  moreover have "st_rows sg_stats_init = []" by (simp add: sg_stats_init_def)
  ultimately show ?thesis
    using length_total_row [of sg_stats_init]
    by (simp add: summary_text_def text_summary_def qsort_def title_line_def rule_line_def)
qed

lemma over_finish:
  assumes "over c st" and "benchmark_fd env = None"
  shows "reaches (finish_output env) c None (\<lambda>_. True)"
proof -
  let ?out = "ctx_output c"
  have c: "ctx_stats c = sg_stats_init" "w_heap (ctx_world c) = []" "answers (out_stream ?out) = []"
    using assms(1) by (simp_all add: over_def)
  have "\<forall>r \<in> set (st_rows sg_stats_init). in_long (st_number r)" "unat (st_count sg_stats_init) = length (st_rows sg_stats_init)"
      "st_rows sg_stats_init = []"
    by (simp_all add: sg_stats_init_def)
  from write_summary_correct [OF this(1,2), of "[]" ?out] this(3) c(3) length_empty_summary [of "out_format ?out"]
  obtain h st where w: "sg_output_write_summary [] ?out sg_stats_init = Some (None, h, ?out\<lparr>out_stream := st\<rparr>)" "answers st = []"
    by auto
  then show ?thesis
    using c assms(2)
    by (simp add: reaches_def finish_output_def seq_tr_def bind_tr_def reading_def output_step_def sg_output_finish_def
        fflush_def write_benchmark_metrics_def ret_def)
qed

section \<open>Properties\<close>


text \<open>A command that exits with status 3.\<close>

definition exit_world :: world where
  "exit_world = demo_world\<lparr>clock_answers := [Some zero_timespec], control_answers := [None, None],
     wait_answers := map (\<lambda>s. \<lparr>signal_before = 0, signal_after = 0, process_vm_readv = (\<lambda>_ _ _. None),
       waited_for = Inr (41, s)\<rparr>) [0x137f, 0x0300]\<rparr>"


end
